(* ===== verification/Prelude.thy ===== *)
theory Prelude
  imports Main "HOL-Library.Sublist" "HOL-Library.Multiset"
begin

text \<open>
  Shared vocabulary of the development: the parts of Go's \<open>strings\<close> package the gateway
  uses, on byte strings, with the lemmas every component needs about them.
  A Go \<open>string\<close> is a byte sequence, so it is Isabelle's \<open>string\<close> (a list of 8-bit
  \<open>char\<close>s) and Go's \<open>len\<close> is \<open>length\<close>.
  Two fact collections are shared: \<open>go_strings\<close> holds the characteristic equations of
  the string operations, \<open>table_laws\<close> the facts about route tables.
\<close>

named_theorems go_strings \<open>characteristic facts of the modelled string operations\<close>
named_theorems table_laws \<open>facts about validated and sorted route tables\<close>

section \<open>Byte strings\<close>

text \<open>\<open>strings.HasPrefix(s, p)\<close> and \<open>strings.HasSuffix(s, p)\<close>.\<close>

definition HasPrefix :: "string \<Rightarrow> string \<Rightarrow> bool" where
  "HasPrefix s p = (take (length p) s = p)"

definition HasSuffix :: "string \<Rightarrow> string \<Rightarrow> bool" where
  "HasSuffix s p = HasPrefix (rev s) (rev p)"

text \<open>\<open>strings.Index(s, sub)\<close>: the first position of \<open>sub\<close> in \<open>s\<close>, or none.\<close>

fun Index :: "string \<Rightarrow> string \<Rightarrow> nat option" where
  "Index [] sub = (if sub = [] then Some 0 else None)"
| "Index (c # s) sub =
     (if HasPrefix (c # s) sub then Some 0 else map_option Suc (Index s sub))"

text \<open>\<open>strings.LastIndex(s, sub)\<close> for a one-byte \<open>sub\<close>.\<close>

fun LastIndexByte :: "string \<Rightarrow> char \<Rightarrow> nat option" where
  "LastIndexByte [] c = None"
| "LastIndexByte (x # s) c =
     (case LastIndexByte s c of
        Some i \<Rightarrow> Some (Suc i)
      | None \<Rightarrow> (if x = c then Some 0 else None))"

text \<open>\<open>strings.Cut(s, sep)\<close> for a one-byte \<open>sep\<close>: the parts before and after the first
  separator, and \<open>s\<close> with the empty string when there is none.\<close>

fun Cut :: "string \<Rightarrow> char \<Rightarrow> string \<times> string" where
  "Cut [] c = ([], [])"
| "Cut (x # s) c = (if x = c then ([], s) else (let (a, b) = Cut s c in (x # a, b)))"

text \<open>\<open>strings.Join(xs, sep)\<close>.\<close>

fun Join :: "string list \<Rightarrow> string \<Rightarrow> string" where
  "Join [] sep = []"
| "Join [x] sep = x"
| "Join (x # y # xs) sep = x @ sep @ Join (y # xs) sep"

text \<open>\<open>strings.Split\<close> on one byte.\<close>

fun split_on :: "char \<Rightarrow> string \<Rightarrow> string list" where
  "split_on c [] = [[]]"
| "split_on c (x # s) =
     (if x = c then [] # split_on c s
      else (case split_on c s of [] \<Rightarrow> [[x]] | p # ps \<Rightarrow> (x # p) # ps))"

text \<open>ASCII letter classes and case mapping (\<open>strings.ToLower\<close> on ASCII, as Go uses it for
  header names and URL schemes).\<close>

definition byte_of :: "char \<Rightarrow> nat" where
  "byte_of c = (of_char c :: nat)"

definition is_lower :: "char \<Rightarrow> bool" where
  "is_lower c = (97 \<le> byte_of c \<and> byte_of c \<le> 122)"

definition is_upper :: "char \<Rightarrow> bool" where
  "is_upper c = (65 \<le> byte_of c \<and> byte_of c \<le> 90)"

definition is_digit :: "char \<Rightarrow> bool" where
  "is_digit c = (48 \<le> byte_of c \<and> byte_of c \<le> 57)"

definition to_lower :: "char \<Rightarrow> char" where
  "to_lower c = (if is_upper c then char_of (byte_of c + 32) else c)"

definition to_upper :: "char \<Rightarrow> char" where
  "to_upper c = (if is_lower c then char_of (byte_of c - 32) else c)"

section \<open>Lemmas\<close>

lemma HasPrefix_iff [go_strings]: "HasPrefix s p \<longleftrightarrow> prefix p s"
  by (auto simp: HasPrefix_def prefix_def) (metis append_take_drop_id)

lemma HasSuffix_iff [go_strings]: "HasSuffix s p \<longleftrightarrow> suffix p s"
  by (simp add: HasSuffix_def HasPrefix_iff suffix_to_prefix)

lemma Index_None [go_strings]: "Index s sub = None \<longleftrightarrow> \<not> sublist sub s"
  by (induction s) (auto simp: HasPrefix_iff sublist_Cons_right)

lemma Index_Some_split:
  "Index s sub = Some i \<Longrightarrow> i + length sub \<le> length s \<and> take (length sub) (drop i s) = sub"
proof (induction s arbitrary: i)
  case Nil
  then show ?case by (simp split: if_splits)
next
  case (Cons c s)
  show ?case
  proof (cases "HasPrefix (c # s) sub")
    case True
    with Cons.prems show ?thesis
      by (auto simp: HasPrefix_def dest: prefix_length_le)
         (metis HasPrefix_def HasPrefix_iff True prefix_length_le length_Cons)
  next
    case False
    with Cons.prems obtain j where "Index s sub = Some j" and "i = Suc j" by auto
    with Cons.IH [of j] show ?thesis by simp
  qed
qed

text \<open>Cutting at the position \<open>Index\<close> reports gives the string back.\<close>

lemma Index_Some_append:
  assumes "Index s sub = Some i"
  shows "s = take i s @ sub @ drop (i + length sub) s"
proof -
  from Index_Some_split [OF assms] have "drop i s = sub @ drop (length sub) (drop i s)"
    by (metis append_take_drop_id)
  then have "drop i s = sub @ drop (i + length sub) s" by (simp add: add.commute)
  then show ?thesis by (metis append_take_drop_id)
qed

text \<open>No earlier occurrence: the part before the reported position does not hold one.\<close>

lemma Index_first:
  "Index s sub = Some i \<Longrightarrow> j < i \<Longrightarrow> \<not> HasPrefix (drop j s) sub"
proof (induction s arbitrary: i j)
  case Nil
  then show ?case by (simp split: if_splits)
next
  case (Cons c s)
  show ?case
  proof (cases "HasPrefix (c # s) sub")
    case True
    with Cons.prems show ?thesis by simp
  next
    case False
    with Cons.prems obtain k where "Index s sub = Some k" and "i = Suc k" by auto
    with Cons False show ?thesis by (cases j) auto
  qed
qed

lemma prefix_same_length_eq:
  "prefix p s \<Longrightarrow> prefix q s \<Longrightarrow> length p = length q \<Longrightarrow> p = q"
  by (auto simp: prefix_def dest: append_eq_append_conv [THEN iffD1])

text \<open>The first hit in a list sorted by \<open>R\<close> is below every other hit.\<close>

lemma sorted_wrt_find_first:
  assumes "sorted_wrt R xs" and "find P xs = Some x" and "y \<in> set xs" and "P y"
  shows "y = x \<or> R x y"
  using assms by (induction xs) (auto split: if_splits)

lemma find_Some_mem: "find P xs = Some x \<Longrightarrow> x \<in> set xs \<and> P x"
  by (induction xs) (auto split: if_splits)

lemma find_None_all: "find P xs = None \<longleftrightarrow> (\<forall>x \<in> set xs. \<not> P x)"
  by (induction xs) auto

end
