(* ===== verification/Url.thy ===== *)
theory Url
  imports Prelude
begin

text \<open>
  Go's \<open>net/url\<close> (Go 1.18, the version the Dockerfile and \<open>go.mod\<close> fix), as far as the
  gateway uses it: \<open>url.Parse\<close> for the backends of \<open>--route\<close> and of
  \<open>POST /admin/routes\<close>, \<open>URL.String\<close> for the boot event and for \<open>GET /admin/routes\<close>,
  and \<open>EscapedPath\<close>, which the reverse proxy's Director and the mux's redirect use.
  An error of \<open>Parse\<close> is the value \<open>None\<close>: the gateway only tests it against \<open>nil\<close>.
\<close>

section \<open>Data\<close>

record userinfo =
  ui_username :: string
  ui_password :: "string option"

record url =
  u_scheme :: string
  u_opaque :: string
  u_user :: "userinfo option"
  u_host :: string
  u_path :: string
  u_rawpath :: string
  u_forcequery :: bool
  u_rawquery :: string
  u_fragment :: string
  u_rawfragment :: string

definition empty_url :: url where
  "empty_url = \<lparr>u_scheme = '''', u_opaque = '''', u_user = None, u_host = '''', u_path = '''',
     u_rawpath = '''', u_forcequery = False, u_rawquery = '''', u_fragment = '''',
     u_rawfragment = ''''\<rparr>"

text \<open>The encoding modes of \<open>net/url\<close> that \<open>Parse\<close> and \<open>String\<close> use.\<close>

datatype encoding = encodePath | encodeUserPassword | encodeHost | encodeZone | encodeFragment

section \<open>Escaping\<close>

definition is_alnum :: "char \<Rightarrow> bool" where
  "is_alnum c = (is_lower c \<or> is_upper c \<or> is_digit c)"

definition shouldEscape :: "char \<Rightarrow> encoding \<Rightarrow> bool" where
  "shouldEscape c m =
     (if is_alnum c then False
      else if (m = encodeHost \<or> m = encodeZone) \<and>
              (c \<in> set ''!$&()*+,;=:[]<>'' \<or> c = CHR 0x27 \<or> c = CHR 0x22) then False
      else if c \<in> set ''-_.~'' then False
      else if c \<in> set ''$&+,/:;=?@'' then
        (case m of
           encodePath \<Rightarrow> c = CHR ''?''
         | encodeUserPassword \<Rightarrow> c \<in> set ''@/?:''
         | encodeFragment \<Rightarrow> False
         | _ \<Rightarrow> True)
      else if m = encodeFragment \<and> c \<in> set ''!()*'' then False
      else True)"

definition ishex :: "char \<Rightarrow> bool" where
  "ishex c = (is_digit c \<or> (97 \<le> byte_of c \<and> byte_of c \<le> 102) \<or>
              (65 \<le> byte_of c \<and> byte_of c \<le> 70))"

definition unhex :: "char \<Rightarrow> nat" where
  "unhex c = (if is_digit c then byte_of c - 48
              else if 97 \<le> byte_of c \<and> byte_of c \<le> 102 then byte_of c - 97 + 10
              else if 65 \<le> byte_of c \<and> byte_of c \<le> 70 then byte_of c - 65 + 10
              else 0)"

definition upperhex :: string where
  "upperhex = ''0123456789ABCDEF''"

definition escape_char :: "char \<Rightarrow> encoding \<Rightarrow> string" where
  "escape_char c m =
     (if shouldEscape c m
      then [CHR ''%'', upperhex ! (byte_of c div 16), upperhex ! (byte_of c mod 16)]
      else [c])"

definition escape :: "string \<Rightarrow> encoding \<Rightarrow> string" where
  "escape s m = concat (map (\<lambda>c. escape_char c m) s)"

text \<open>
  \<open>unescape\<close>: the checks of its first loop and the decoding of its second one, in one
  pass. In the host only non-ASCII bytes (and \<open>%25\<close>) may be percent-encoded and ASCII bytes
  outside the host alphabet are refused; in a zone the decoded byte must be a host byte,
  a space or \<open>%\<close>.
\<close>

definition escape_allowed :: "char \<Rightarrow> char \<Rightarrow> encoding \<Rightarrow> bool" where
  "escape_allowed a b m =
     (case m of
        encodeHost \<Rightarrow> \<not> (unhex a < 8 \<and> [a, b] \<noteq> ''25'')
      | encodeZone \<Rightarrow>
          (let v = char_of (unhex a * 16 + unhex b) in
           [a, b] = ''25'' \<or> v = CHR '' '' \<or> \<not> shouldEscape v encodeHost)
      | _ \<Rightarrow> True)"

fun unescape :: "string \<Rightarrow> encoding \<Rightarrow> string option" where
  "unescape [] m = Some []"
| "unescape (c # s) m =
     (if c = CHR ''%'' then
        (case s of
           a # b # s' \<Rightarrow>
             (if ishex a \<and> ishex b \<and> escape_allowed a b m
              then map_option ((#) (char_of (unhex a * 16 + unhex b))) (unescape s' m)
              else None)
         | _ \<Rightarrow> None)
      else if (m = encodeHost \<or> m = encodeZone) \<and> byte_of c < 128 \<and> shouldEscape c m then None
      else map_option ((#) c) (unescape s m))"

definition validEncoded :: "string \<Rightarrow> encoding \<Rightarrow> bool" where
  "validEncoded s m =
     list_all (\<lambda>c. c \<in> set ''!$&()*+,;=:@[]%'' \<or> c = CHR 0x27 \<or> \<not> shouldEscape c m) s"

definition EscapedPath :: "url \<Rightarrow> string" where
  "EscapedPath u =
     (if u_rawpath u \<noteq> '''' \<and> validEncoded (u_rawpath u) encodePath \<and>
         unescape (u_rawpath u) encodePath = Some (u_path u) then u_rawpath u
      else if u_path u = ''*'' then ''*''
      else escape (u_path u) encodePath)"

definition EscapedFragment :: "url \<Rightarrow> string" where
  "EscapedFragment u =
     (if u_rawfragment u \<noteq> '''' \<and> validEncoded (u_rawfragment u) encodeFragment \<and>
         unescape (u_rawfragment u) encodeFragment = Some (u_fragment u) then u_rawfragment u
      else escape (u_fragment u) encodeFragment)"

section \<open>Parsing\<close>

text \<open>\<open>getScheme\<close>: the loop over the bytes before the first colon; the flag says that the
  loop is past its first byte. \<open>None\<close> is the error \<open>missing protocol scheme\<close>.\<close>

fun scheme_loop :: "bool \<Rightarrow> string \<Rightarrow> string \<Rightarrow> string \<Rightarrow> (string \<times> string) option" where
  "scheme_loop started acc raw [] = Some ('''', raw)"
| "scheme_loop started acc raw (c # s) =
     (if is_lower c \<or> is_upper c then scheme_loop True (c # acc) raw s
      else if is_digit c \<or> c \<in> set ''+-.'' then
        (if \<not> started then Some ('''', raw) else scheme_loop True (c # acc) raw s)
      else if c = CHR '':'' then (if \<not> started then None else Some (rev acc, s))
      else Some ('''', raw))"

definition getScheme :: "string \<Rightarrow> (string \<times> string) option" where
  "getScheme raw = scheme_loop False '''' raw raw"

definition stringContainsCTLByte :: "string \<Rightarrow> bool" where
  "stringContainsCTLByte s = list_ex (\<lambda>c. byte_of c < 32 \<or> byte_of c = 127) s"

definition validOptionalPort :: "string \<Rightarrow> bool" where
  "validOptionalPort p =
     (case p of [] \<Rightarrow> True | c # ds \<Rightarrow> c = CHR '':'' \<and> list_all is_digit ds)"

definition validUserinfo :: "string \<Rightarrow> bool" where
  "validUserinfo s =
     list_all (\<lambda>c. is_alnum c \<or> c \<in> set ''-._:~!$&()*+,;=%@'' \<or> c = CHR 0x27) s"

definition parseHost :: "string \<Rightarrow> string option" where
  "parseHost host =
     (if HasPrefix host ''['' then
        (case LastIndexByte host (CHR '']'') of
           None \<Rightarrow> None
         | Some i \<Rightarrow>
             if \<not> validOptionalPort (drop (i + 1) host) then None
             else (case Index (take i host) ''%25'' of
                     Some z \<Rightarrow>
                       (case (unescape (take z host) encodeHost,
                              unescape (drop z (take i host)) encodeZone,
                              unescape (drop i host) encodeHost) of
                          (Some h1, Some h2, Some h3) \<Rightarrow> Some (h1 @ h2 @ h3)
                        | _ \<Rightarrow> None)
                   | None \<Rightarrow> unescape host encodeHost))
      else
        (case LastIndexByte host (CHR '':'') of
           Some i \<Rightarrow> if validOptionalPort (drop i host) then unescape host encodeHost else None
         | None \<Rightarrow> unescape host encodeHost))"

definition parseUser :: "string \<Rightarrow> userinfo option" where
  "parseUser ui =
     (if \<not> validUserinfo ui then None
      else if CHR '':'' \<notin> set ui then
        map_option (\<lambda>n. \<lparr>ui_username = n, ui_password = None\<rparr>) (unescape ui encodeUserPassword)
      else (let (n, p) = Cut ui (CHR '':'') in
            case (unescape n encodeUserPassword, unescape p encodeUserPassword) of
              (Some n', Some p') \<Rightarrow> Some \<lparr>ui_username = n', ui_password = Some p'\<rparr>
            | _ \<Rightarrow> None))"

definition parseAuthority :: "string \<Rightarrow> (userinfo option \<times> string) option" where
  "parseAuthority a =
     (case LastIndexByte a (CHR ''@'') of
        None \<Rightarrow> map_option (\<lambda>h. (None, h)) (parseHost a)
      | Some i \<Rightarrow>
          (case (parseHost (drop (i + 1) a), parseUser (take i a)) of
             (Some h, Some u) \<Rightarrow> Some (Some u, h)
           | _ \<Rightarrow> None))"

definition setPath :: "url \<Rightarrow> string \<Rightarrow> url option" where
  "setPath u p =
     (case unescape p encodePath of
        None \<Rightarrow> None
      | Some path \<Rightarrow>
          Some (u\<lparr>u_path := path, u_rawpath := (if p = escape path encodePath then '''' else p)\<rparr>))"

definition setFragment :: "url \<Rightarrow> string \<Rightarrow> url option" where
  "setFragment u f =
     (case unescape f encodeFragment of
        None \<Rightarrow> None
      | Some frag \<Rightarrow>
          Some (u\<lparr>u_fragment := frag,
                  u_rawfragment := (if f = escape frag encodeFragment then '''' else f)\<rparr>))"

text \<open>The query part: a single trailing \<open>?\<close> sets \<open>ForceQuery\<close>.\<close>

definition split_query :: "string \<Rightarrow> string \<times> bool \<times> string" where
  "split_query rest =
     (if HasSuffix rest ''?'' \<and> count_list rest (CHR ''?'') = 1
      then (butlast rest, True, '''')
      else (let (r, q) = Cut rest (CHR ''?'') in (r, False, q)))"

text \<open>The hierarchical part, after scheme and query are off: authority and path.\<close>

definition parse_hier :: "url \<Rightarrow> string \<Rightarrow> url option" where
  "parse_hier u rest =
     (if (u_scheme u \<noteq> '''' \<or> \<not> HasPrefix rest ''///'') \<and> HasPrefix rest ''//'' then
        (let auth = drop 2 rest;
             i = (case Index auth ''/'' of Some i \<Rightarrow> i | None \<Rightarrow> length auth) in
         case parseAuthority (take i auth) of
           None \<Rightarrow> None
         | Some (usr, h) \<Rightarrow> setPath (u\<lparr>u_user := usr, u_host := h\<rparr>) (drop i auth))
      else setPath u rest)"

text \<open>\<open>parse(rawURL, viaRequest = false)\<close>.\<close>

definition parse_url :: "string \<Rightarrow> url option" where
  "parse_url raw =
     (if stringContainsCTLByte raw then None
      else if raw = ''*'' then Some (empty_url\<lparr>u_path := ''*''\<rparr>)
      else
        (case getScheme raw of
           None \<Rightarrow> None
         | Some (scheme0, rest0) \<Rightarrow>
             (let (rest, force, query) = split_query rest0;
                  u = empty_url\<lparr>u_scheme := map to_lower scheme0, u_forcequery := force,
                                u_rawquery := query\<rparr> in
              if \<not> HasPrefix rest ''/'' \<and> u_scheme u \<noteq> '''' then Some (u\<lparr>u_opaque := rest\<rparr>)
              else if \<not> HasPrefix rest ''/'' \<and> CHR '':'' \<in> set (fst (Cut rest (CHR ''/'')))
              then None
              else parse_hier u rest)))"

text \<open>\<open>url.Parse\<close>.\<close>

definition Parse :: "string \<Rightarrow> url option" where
  "Parse raw =
     (let (u, frag) = Cut raw (CHR ''#'') in
      case parse_url u of
        None \<Rightarrow> None
      | Some x \<Rightarrow> if frag = '''' then Some x else setFragment x frag)"

section \<open>Printing\<close>

definition userinfo_String :: "userinfo \<Rightarrow> string" where
  "userinfo_String ui =
     (case ui_password ui of
        Some p \<Rightarrow> escape (ui_username ui) encodeUserPassword @ '':'' @ escape p encodeUserPassword
      | None \<Rightarrow> if ui_username ui = '''' then '''' else escape (ui_username ui) encodeUserPassword)"

text \<open>\<open>URL.String\<close>.\<close>

definition url_authority :: "url \<Rightarrow> string" where
  "url_authority u =
     (if u_scheme u \<noteq> '''' \<or> u_host u \<noteq> '''' \<or> u_user u \<noteq> None then
        (if u_host u \<noteq> '''' \<or> u_path u \<noteq> '''' \<or> u_user u \<noteq> None then ''//'' else '''') @
        (case u_user u of None \<Rightarrow> '''' | Some ui \<Rightarrow> userinfo_String ui @ ''@'') @
        (if u_host u \<noteq> '''' then escape (u_host u) encodeHost else '''')
      else '''')"

definition url_String :: "url \<Rightarrow> string" where
  "url_String u =
     (let scheme = (if u_scheme u \<noteq> '''' then u_scheme u @ '':'' else '''');
          path = EscapedPath u;
          hier =
            (if u_opaque u \<noteq> '''' then scheme @ u_opaque u
             else
               (let buf = scheme @ url_authority u;
                    buf = (if path \<noteq> '''' \<and> \<not> HasPrefix path ''/'' \<and> u_host u \<noteq> ''''
                           then buf @ ''/'' else buf);
                    buf = (if buf = '''' \<and> CHR '':'' \<in> set (fst (Cut path (CHR ''/'')))
                           then buf @ ''./'' else buf) in
                buf @ path)) in
      hier @
      (if u_forcequery u \<or> u_rawquery u \<noteq> '''' then ''?'' @ u_rawquery u else '''') @
      (if u_fragment u \<noteq> '''' then ''#'' @ EscapedFragment u else ''''))"

end
