(* ===== verification/Router.thy ===== *)
theory Router
  imports Prelude Url
begin

text \<open>
  \<open>internal/gateway/router.go\<close>: the route table. \<open>NewRouter\<close> validates the operator's
  routes and stores them longest prefix first; \<open>Match\<close> returns the first stored route
  whose prefix starts the request path. The abstract specification is
  \<open>longest_match\<close>, stated on the unsorted input table. The interface other components rely
  on is the locale \<open>route_selector\<close>.
\<close>

section \<open>Data and operations\<close>

text \<open>\<open>*url.URL\<close> is a pointer: \<open>None\<close> is \<open>nil\<close>. Nothing mutates a backend after it is
  parsed, so the pointer is modelled by the value it points to.\<close>

record route =
  Prefix :: string
  Backend :: "url option"

record router =
  routes :: "route list"

datatype router_error =
    NoRoutes
  | PrefixEmpty nat
  | BackendNil nat
  | DuplicatePrefix string nat nat

text \<open>The validation loop over \<open>routes\<close>; \<open>seen\<close> maps a prefix to the index it was first
  met at, \<open>i\<close> is the loop index.\<close>

fun validate_routes :: "nat \<Rightarrow> (string \<rightharpoonup> nat) \<Rightarrow> route list \<Rightarrow> router_error option" where
  "validate_routes i seen [] = None"
| "validate_routes i seen (r # rs) =
     (if Prefix r = '''' then Some (PrefixEmpty i)
      else if Backend r = None then Some (BackendNil i)
      else case seen (Prefix r) of
             Some prev \<Rightarrow> Some (DuplicatePrefix (Prefix r) prev i)
           | None \<Rightarrow> validate_routes (Suc i) (seen(Prefix r \<mapsto> i)) rs)"

text \<open>\<open>sort.SliceStable\<close> by descending prefix length: \<open>sort_key\<close> is the stable sort, so the
  key is the negated length.\<close>

definition len_key :: "route \<Rightarrow> int" where
  "len_key r = - int (length (Prefix r))"

definition sort_routes :: "route list \<Rightarrow> route list" where
  "sort_routes rs = sort_key len_key rs"

definition NewRouter :: "route list \<Rightarrow> router_error + router" where
  "NewRouter rs =
     (if rs = [] then Inl NoRoutes
      else case validate_routes 0 Map.empty rs of
             Some e \<Rightarrow> Inl e
           | None \<Rightarrow> Inr \<lparr>routes = sort_routes rs\<rparr>)"

text \<open>The loop of \<open>Match\<close>; the zero \<open>Route\<close> with \<open>false\<close> is \<open>None\<close>.\<close>

fun match_loop :: "route list \<Rightarrow> string \<Rightarrow> route option" where
  "match_loop [] path = None"
| "match_loop (r # rs) path = (if HasPrefix path (Prefix r) then Some r else match_loop rs path)"

definition Match :: "router \<Rightarrow> string \<Rightarrow> route option" where
  "Match r path = match_loop (routes r) path"

text \<open>\<open>Routes\<close> returns a copy, so callers cannot reach the router's slice.\<close>

definition Routes :: "router \<Rightarrow> route list" where
  "Routes r = routes r"

section \<open>Specification\<close>

text \<open>What a table must satisfy to be accepted.\<close>

definition valid_table :: "route list \<Rightarrow> bool" where
  "valid_table rs =
     (rs \<noteq> [] \<and> list_all (\<lambda>r. Prefix r \<noteq> '''' \<and> Backend r \<noteq> None) rs \<and>
      distinct (map Prefix rs))"

text \<open>The dispatch rule, on a table in any order: \<open>r\<close> is in the table, its prefix starts
  the path, and no matching route has a longer prefix.\<close>

definition longest_match :: "route list \<Rightarrow> string \<Rightarrow> route \<Rightarrow> bool" where
  "longest_match rs path r =
     (r \<in> set rs \<and> prefix (Prefix r) path \<and>
      list_all (\<lambda>q. prefix (Prefix q) path \<longrightarrow> length (Prefix q) \<le> length (Prefix r)) rs)"

text \<open>What each error reports: the first index at which the table stops being valid.\<close>

fun explains :: "router_error \<Rightarrow> route list \<Rightarrow> bool" where
  "explains NoRoutes rs = (rs = [])"
| "explains (PrefixEmpty i) rs =
     (i < length rs \<and> Prefix (rs ! i) = '''' \<and> (i = 0 \<or> valid_table (take i rs)))"
| "explains (BackendNil i) rs =
     (i < length rs \<and> Prefix (rs ! i) \<noteq> '''' \<and> Backend (rs ! i) = None \<and>
      (i = 0 \<or> valid_table (take i rs)))"
| "explains (DuplicatePrefix p i j) rs =
     (i < j \<and> j < length rs \<and> Prefix (rs ! i) = p \<and> Prefix (rs ! j) = p \<and>
      Backend (rs ! j) \<noteq> None \<and> valid_table (take j rs))"

section \<open>The interface of a route table\<close>

text \<open>What the proxy and the admin endpoint use of a router: a table and a selection. The
  laws: a selected route is in the table and starts the path, prefixes are unique, and
  every route has a backend.\<close>

locale route_selector =
  fixes table :: "'r \<Rightarrow> route list"
    and select :: "'r \<Rightarrow> string \<Rightarrow> route option"
    and good :: "'r \<Rightarrow> bool"
  assumes select_mem: "select r path = Some x \<Longrightarrow> x \<in> set (table r)"
    and select_prefix: "select r path = Some x \<Longrightarrow> prefix (Prefix x) path"
    and select_none: "select r path = None \<Longrightarrow> x \<in> set (table r) \<Longrightarrow> \<not> prefix (Prefix x) path"
    and good_distinct: "good r \<Longrightarrow> distinct (map Prefix (table r))"
    and good_backend: "good r \<Longrightarrow> x \<in> set (table r) \<Longrightarrow> Backend x \<noteq> None"
begin

lemma select_backend:
  assumes "good r" and "select r path = Some x"
  obtains b where "Backend x = Some b"
  using assms good_backend select_mem by blast

lemma same_prefix_same_route:
  assumes "good r" and "x \<in> set (table r)" and "y \<in> set (table r)" and "Prefix x = Prefix y"
  shows "x = y"
  using assms good_distinct by (metis (no_types) distinct_map inj_on_contraD)

lemma select_total_iff:
  "select r path \<noteq> None \<longleftrightarrow> (\<exists>x \<in> set (table r). prefix (Prefix x) path)"
proof
  assume "select r path \<noteq> None"
  then obtain x where "select r path = Some x" by blast
  then show "\<exists>x \<in> set (table r). prefix (Prefix x) path"
    using select_mem select_prefix by blast
next
  assume "\<exists>x \<in> set (table r). prefix (Prefix x) path"
  then show "select r path \<noteq> None" using select_none by blast
qed

end

section \<open>Validation\<close>

lemma validate_routes_None_iff:
  "validate_routes i seen rs = None \<longleftrightarrow>
     (\<forall>r \<in> set rs. Prefix r \<noteq> '''' \<and> Backend r \<noteq> None \<and> Prefix r \<notin> dom seen) \<and>
     distinct (map Prefix rs)"
  by (induction rs arbitrary: i seen) (auto split: option.splits simp: image_iff)

lemma valid_table_iff [table_laws]:
  "valid_table rs \<longleftrightarrow> rs \<noteq> [] \<and> validate_routes 0 Map.empty rs = None"
  by (auto simp: valid_table_def validate_routes_None_iff list_all_iff)

lemma NewRouter_Inr_iff [table_laws]:
  "NewRouter rs = Inr r \<longleftrightarrow> valid_table rs \<and> r = \<lparr>routes = sort_routes rs\<rparr>"
  by (auto simp: NewRouter_def valid_table_iff split: option.splits)

text \<open>A failing scan, seen from the start: it stops at the first bad index.\<close>

lemma validate_routes_Some:
  assumes "validate_routes (length ps) seen rs = Some e"
    and "ps = [] \<or> valid_table ps"
    and "\<And>p k. seen p = Some k \<longleftrightarrow> k < length ps \<and> Prefix (ps ! k) = p"
  shows "explains e (ps @ rs) \<and> e \<noteq> NoRoutes"
  using assms
proof (induction rs arbitrary: ps seen)
  case Nil
  then show ?case by simp
next
  case (Cons r rs)
  let ?i = "length ps"
  consider (empty) "Prefix r = ''''"
    | (nobackend) "Prefix r \<noteq> ''''" "Backend r = None"
    | (dup) k where "Prefix r \<noteq> ''''" "Backend r \<noteq> None" "seen (Prefix r) = Some k"
    | (ok) "Prefix r \<noteq> ''''" "Backend r \<noteq> None" "seen (Prefix r) = None"
    by (cases "seen (Prefix r)") auto
  then show ?case
  proof cases
    case empty
    with Cons.prems(1,2) show ?thesis by auto
  next
    case nobackend
    with Cons.prems(1,2) show ?thesis by auto
  next
    case (dup k)
    then have "e = DuplicatePrefix (Prefix r) k ?i" using Cons.prems(1) by auto
    moreover have "k < ?i" "Prefix (ps ! k) = Prefix r" using Cons.prems(3) dup by auto
    ultimately show ?thesis using Cons.prems(2) dup by (auto simp: nth_append)
  next
    case ok
    have absent: "\<And>k. k < ?i \<Longrightarrow> Prefix (ps ! k) \<noteq> Prefix r"
      using Cons.prems(3) [of "Prefix r"] ok by auto
    then have fresh: "Prefix r \<notin> Prefix ` set ps" by (metis imageE in_set_conv_nth)
    have valid: "valid_table (ps @ [r])"
      using Cons.prems(2) ok fresh by (auto simp: valid_table_def)
    have seen': "\<And>p k. (seen(Prefix r \<mapsto> ?i)) p = Some k \<longleftrightarrow>
        k < length (ps @ [r]) \<and> Prefix ((ps @ [r]) ! k) = p"
      using Cons.prems(3) absent by (auto simp: nth_append less_Suc_eq)
    have "explains e ((ps @ [r]) @ rs) \<and> e \<noteq> NoRoutes"
    proof (rule Cons.IH)
      show "validate_routes (length (ps @ [r])) (seen(Prefix r \<mapsto> ?i)) rs = Some e"
        using Cons.prems(1) ok by auto
    qed (use valid seen' in blast)+
    then show ?thesis by simp
  qed
qed

lemma NewRouter_Inl: "NewRouter rs = Inl e \<Longrightarrow> explains e rs"
  using validate_routes_Some [of "[]" Map.empty rs e]
  by (auto simp: NewRouter_def split: if_splits option.splits)

section \<open>Sorting\<close>

lemma set_sort_routes [simp]: "set (sort_routes rs) = set rs"
  by (simp add: sort_routes_def)

lemma mset_sort_routes [simp]: "mset (sort_routes rs) = mset rs"
  by (simp add: sort_routes_def)

lemma length_sort_routes [simp]: "length (sort_routes rs) = length rs"
  by (simp add: sort_routes_def)

lemma sort_routes_sorted:
  "sorted_wrt (\<lambda>a b. length (Prefix a) \<ge> length (Prefix b)) (sort_routes rs)"
proof -
  have "sorted_wrt (\<lambda>a b. len_key a \<le> len_key b) (sort_routes rs)"
    using sorted_sort_key [of len_key rs] by (simp add: sort_routes_def sorted_wrt_map)
  then show ?thesis by (simp add: len_key_def)
qed

lemma sort_routes_stable:
  "filter (\<lambda>r. length (Prefix r) = n) (sort_routes rs) = filter (\<lambda>r. length (Prefix r) = n) rs"
proof -
  have "filter (\<lambda>r. len_key r = - int n) (sort_key len_key rs) = filter (\<lambda>r. len_key r = - int n) rs"
    by (rule sort_key_stable)
  then show ?thesis by (simp add: sort_routes_def len_key_def)
qed

lemma sort_routes_idem [simp]: "sort_routes (sort_routes rs) = sort_routes rs"
  by (simp add: sort_routes_def sort_key_id_if_sorted)

lemma valid_table_sort [simp]: "valid_table (sort_routes rs) = valid_table rs"
proof -
  have "distinct (map Prefix (sort_routes rs)) = distinct (map Prefix rs)"
    by (metis mset_map mset_sort_routes mset_eq_imp_distinct_iff)
  moreover have "sort_routes rs = [] \<longleftrightarrow> rs = []"
    by (metis length_0_conv length_sort_routes)
  ultimately show ?thesis by (simp add: valid_table_def list_all_iff)
qed

section \<open>Matching\<close>

lemma match_loop_find: "match_loop rs path = find (\<lambda>r. prefix (Prefix r) path) rs"
  by (induction rs) (auto simp: HasPrefix_iff)

lemma Match_None_iff:
  "Match r path = None \<longleftrightarrow> (\<forall>x \<in> set (routes r). \<not> prefix (Prefix x) path)"
  by (simp add: Match_def match_loop_find find_None_all)

text \<open>In a table with unique prefixes at most one route is the longest match.\<close>

lemma longest_match_unique:
  assumes "distinct (map Prefix rs)" and "longest_match rs path x" and "longest_match rs path y"
  shows "x = y"
proof -
  have "length (Prefix x) = length (Prefix y)"
    using assms(2,3) by (auto simp: longest_match_def list_all_iff intro: le_antisym)
  then have "Prefix x = Prefix y"
    using assms(2,3) by (auto simp: longest_match_def intro: prefix_same_length_eq)
  then show ?thesis
    using assms by (metis (no_types) longest_match_def distinct_map inj_on_contraD)
qed

lemma match_sorted_longest:
  assumes "match_loop (sort_routes rs) path = Some x"
  shows "longest_match rs path x"
proof -
  let ?P = "\<lambda>r. prefix (Prefix r) path"
  from assms have f: "find ?P (sort_routes rs) = Some x" by (simp add: match_loop_find)
  then have x: "x \<in> set rs" "?P x" using find_Some_mem by fastforce+
  have "length (Prefix y) \<le> length (Prefix x)" if "y \<in> set rs" "?P y" for y
    using sorted_wrt_find_first [OF sort_routes_sorted f, of y] that by auto
  with x show ?thesis by (auto simp: longest_match_def list_all_iff)
qed

lemma match_sorted_iff:
  assumes "distinct (map Prefix rs)"
  shows "match_loop (sort_routes rs) path = Some x \<longleftrightarrow> longest_match rs path x"
proof
  assume "match_loop (sort_routes rs) path = Some x"
  then show "longest_match rs path x" by (rule match_sorted_longest)
next
  assume x: "longest_match rs path x"
  then have "match_loop (sort_routes rs) path \<noteq> None"
    by (auto simp: match_loop_find find_None_all longest_match_def)
  then obtain y where y: "match_loop (sort_routes rs) path = Some y" by blast
  then have "longest_match rs path y" by (rule match_sorted_longest)
  with x assms have "y = x" by (blast intro: longest_match_unique)
  with y show "match_loop (sort_routes rs) path = Some x" by simp
qed

lemma Match_NewRouter_iff [table_laws]:
  assumes "NewRouter rs = Inr r"
  shows "Match r path = Some x \<longleftrightarrow> longest_match rs path x"
  using assms match_sorted_iff [of rs path x]
  by (auto simp: NewRouter_Inr_iff Match_def valid_table_def)

section \<open>The router provides the interface\<close>

definition well_formed_router :: "router \<Rightarrow> bool" where
  "well_formed_router r =
     (valid_table (routes r) \<and>
      sorted_wrt (\<lambda>a b. length (Prefix a) \<ge> length (Prefix b)) (routes r))"

lemma NewRouter_well_formed: "NewRouter rs = Inr r \<Longrightarrow> well_formed_router r"
  by (auto simp: NewRouter_Inr_iff well_formed_router_def sort_routes_sorted)

interpretation gw: route_selector Routes Match well_formed_router
  by unfold_locales
    (auto simp: Routes_def Match_def match_loop_find find_None_all well_formed_router_def
       valid_table_def list_all_iff dest: find_Some_mem)

section \<open>Properties\<close>

definition demo_url :: "string \<Rightarrow> url" where
  "demo_url h = empty_url\<lparr>u_scheme := ''http'', u_host := h\<rparr>"

definition demo_routes :: "route list" where
  "demo_routes =
     [\<lparr>Prefix = ''/'', Backend = Some (demo_url ''fallback'')\<rparr>,
      \<lparr>Prefix = ''/decide'', Backend = Some (demo_url ''svc:8080'')\<rparr>,
      \<lparr>Prefix = ''/decide/v2'', Backend = Some (demo_url ''v2:9090'')\<rparr>]"

lemma demo_routes_accepted:
  "NewRouter demo_routes = Inr \<lparr>routes = rev demo_routes\<rparr>"
  by code_simp

text \<open>\<open>NewRouter\<close> accepts a route list exactly when it is non-empty, every route has a
  non-empty prefix and a backend, and no prefix occurs twice; the router it returns holds
  those routes sorted by descending prefix length.\<close>

theorem NewRouter_accepts:
  "NewRouter rs = Inr r \<longleftrightarrow>
     rs \<noteq> [] \<and> list_all (\<lambda>x. Prefix x \<noteq> '''' \<and> Backend x \<noteq> None) rs \<and>
     distinct (map Prefix rs) \<and> Routes r = sort_routes rs"
  by (cases r) (auto simp: NewRouter_Inr_iff valid_table_def Routes_def)

text \<open>C19: when \<open>NewRouter\<close> refuses a table, the error names the first route at which the
  table stops being valid, with the indices the message prints: the routes before it form
  a valid table (or there are none) and the route has the reported defect.\<close>

theorem NewRouter_error_first:
  assumes "NewRouter rs = Inl e"
  shows "explains e rs"
  using assms by (rule NewRouter_Inl)

theorem NewRouter_error_first_witness:
  "NewRouter (demo_routes @ [demo_routes ! 1]) = Inl (DuplicatePrefix ''/decide'' 1 3) \<and>
   explains (DuplicatePrefix ''/decide'' 1 3) (demo_routes @ [demo_routes ! 1])"
proof -
  have h: "NewRouter (demo_routes @ [demo_routes ! 1]) = Inl (DuplicatePrefix ''/decide'' 1 3)"
    by code_simp
  show ?thesis by (intro conjI h NewRouter_error_first [OF h])
qed

text \<open>C16: \<open>Match\<close> implements the longest-prefix specification: on an accepted table it
  returns a route exactly when that route is in the table as the operator wrote it, its
  prefix starts the path, and no other matching route has a longer prefix.\<close>

theorem Match_longest_prefix:
  assumes "NewRouter rs = Inr r"
  shows "Match r path = Some x \<longleftrightarrow>
    x \<in> set rs \<and> prefix (Prefix x) path \<and>
    (\<forall>y \<in> set rs. prefix (Prefix y) path \<longrightarrow> length (Prefix y) \<le> length (Prefix x))"
  using assms by (simp add: Match_NewRouter_iff longest_match_def list_all_iff)

theorem Match_longest_prefix_witness:
  "Match \<lparr>routes = rev demo_routes\<rparr> ''/decide/v2/x'' = Some (demo_routes ! 2)"
  by (rule Match_longest_prefix [OF demo_routes_accepted, THEN iffD2]) code_simp

text \<open>\<open>Match\<close> misses exactly when no configured prefix starts the path.\<close>

theorem Match_miss:
  assumes "NewRouter rs = Inr r"
  shows "Match r path = None \<longleftrightarrow> (\<forall>x \<in> set rs. \<not> prefix (Prefix x) path)"
  using assms by (simp add: Match_None_iff NewRouter_Inr_iff)

theorem Match_miss_witness:
  "Match \<lparr>routes = rev demo_routes\<rparr> ''*'' = None"
  by (rule Match_miss [OF demo_routes_accepted, THEN iffD2]) code_simp

text \<open>Dispatch does not depend on the order the routes are given in: every permutation of
  an accepted table is accepted and gives the same match for every path.\<close>

theorem Match_order_independent:
  assumes "NewRouter rs = Inr r" and "mset rs' = mset rs"
  shows "\<exists>r'. NewRouter rs' = Inr r' \<and> (\<forall>path. Match r' path = Match r path)"
proof -
  have set_eq: "set rs' = set rs" using assms(2) by (rule mset_eq_setD)
  have "distinct (map Prefix rs') = distinct (map Prefix rs)"
    using assms(2) by (metis mset_map mset_eq_imp_distinct_iff)
  then have "valid_table rs'"
    using assms set_eq by (auto simp: NewRouter_Inr_iff valid_table_def list_all_iff)
  then have ok: "NewRouter rs' = Inr \<lparr>routes = sort_routes rs'\<rparr>" by (simp add: NewRouter_Inr_iff)
  have "longest_match rs' path x = longest_match rs path x" for path x
    by (simp add: longest_match_def set_eq list_all_iff)
  then have "Match \<lparr>routes = sort_routes rs'\<rparr> path = Match r path" for path
    using Match_NewRouter_iff [OF ok] Match_NewRouter_iff [OF assms(1)] by (metis not_Some_eq)
  with ok show ?thesis by blast
qed

theorem Match_order_independent_witness:
  "\<exists>r'. NewRouter (rev demo_routes) = Inr r' \<and>
        (\<forall>path. Match r' path = Match \<lparr>routes = rev demo_routes\<rparr> path)"
  by (rule Match_order_independent [OF demo_routes_accepted]) simp

text \<open>The stored table is a permutation of the given one, in descending prefix length,
  and routes of equal length keep the order they were given in.\<close>

theorem Routes_sorted_stable:
  assumes "NewRouter rs = Inr r"
  shows "mset (Routes r) = mset rs \<and>
    sorted_wrt (\<lambda>a b. length (Prefix a) \<ge> length (Prefix b)) (Routes r) \<and>
    (\<forall>n. filter (\<lambda>x. length (Prefix x) = n) (Routes r) = filter (\<lambda>x. length (Prefix x) = n) rs)"
  using assms
  by (simp add: NewRouter_Inr_iff Routes_def sort_routes_sorted sort_routes_stable)

theorem Routes_sorted_stable_witness:
  "mset (Routes \<lparr>routes = rev demo_routes\<rparr>) = mset demo_routes"
  using Routes_sorted_stable [OF demo_routes_accepted] by simp

text \<open>Reading a table back and building a router from it changes nothing, so replaying
  \<open>Routes\<close> (as a client of the admin endpoint does) is idempotent.\<close>

theorem NewRouter_Routes_idempotent:
  assumes "NewRouter rs = Inr r"
  shows "NewRouter (Routes r) = Inr r"
  using assms by (auto simp: NewRouter_Inr_iff Routes_def)

theorem NewRouter_Routes_idempotent_witness:
  "NewRouter (rev demo_routes) = Inr \<lparr>routes = rev demo_routes\<rparr>"
  using NewRouter_Routes_idempotent [OF demo_routes_accepted] by (simp add: Routes_def)

text \<open>Adding a route to a table only changes the dispatch of paths under that route's
  prefix.\<close>

theorem Match_added_route_local:
  assumes "NewRouter rs = Inr r" and "NewRouter (x # rs) = Inr r'"
    and "\<not> prefix (Prefix x) path"
  shows "Match r' path = Match r path"
proof -
  have "longest_match (x # rs) path y = longest_match rs path y" for y
    using assms(3) by (auto simp: longest_match_def)
  then show ?thesis
    using Match_NewRouter_iff [OF assms(1)] Match_NewRouter_iff [OF assms(2)]
    by (metis not_Some_eq)
qed

theorem Match_added_route_local_witness:
  "Match \<lparr>routes = rev demo_routes\<rparr> ''/health'' =
   Match \<lparr>routes = [demo_routes ! 2, demo_routes ! 0]\<rparr> ''/health''"
proof -
  have a: "NewRouter [demo_routes ! 0, demo_routes ! 2] =
      Inr \<lparr>routes = [demo_routes ! 2, demo_routes ! 0]\<rparr>"
    by code_simp
  have b: "NewRouter (demo_routes ! 1 # [demo_routes ! 0, demo_routes ! 2]) =
      Inr \<lparr>routes = rev demo_routes\<rparr>"
    by code_simp
  have c: "\<not> prefix (Prefix (demo_routes ! 1)) ''/health''" by code_simp
  show ?thesis by (rule Match_added_route_local [OF a b c])
qed

end
