(* ===== verification/Transport.thy ===== *)
theory Transport
  imports Router
begin

text \<open>
  The construction half of \<open>internal/proxy/proxy.go\<close>: the per-route transports
  (\<open>newTunedTransport\<close> and its two bases), the reverse proxies and \<open>New\<close>, and the
  \<open>BuildConfig\<close> of \<open>holder.go\<close>. What a transport does when it is used is in \<open>Proxy\<close>.
  Durations are nanosecond counts, as in Go.
\<close>

section \<open>Transports\<close>

type_synonym duration = int

definition Second :: duration where
  "Second = 1000000000"

text \<open>\<open>type UpstreamProtocol int\<close> with its two \<open>iota\<close> constants.\<close>

type_synonym UpstreamProtocol = int

definition UpstreamHTTP1 :: UpstreamProtocol where
  "UpstreamHTTP1 = 0"

definition UpstreamH2C :: UpstreamProtocol where
  "UpstreamH2C = 1"

record PoolConfig =
  pc_MaxIdleConnsPerHost :: int
  pc_IdleConnTimeout :: duration

text \<open>The fields of \<open>http.Transport\<close> the gateway sets; the others keep their zero value.\<close>

record http_Transport =
  ht_MaxIdleConnsPerHost :: int
  ht_IdleConnTimeout :: duration
  ht_TLSHandshakeTimeout :: duration
  ht_ExpectContinueTimeout :: duration
  ht_ResponseHeaderTimeout :: duration

text \<open>The \<open>http.RoundTripper\<close> values that occur: the two transports the proxy builds, the
  library's default one, and \<open>otel.InstrumentedTransport\<close> around another (its \<open>Tracer\<close>
  and \<open>Inner\<close> fields may be \<open>nil\<close>; a tracer is known by its instrumentation name).
  \<open>http2.Transport\<close> is golang.org/x/net code: only the one field the gateway sets, besides
  its plain-text dialer, is kept.\<close>

type_synonym tracer = string

datatype transport =
    HTTP1Transport http_Transport
  | HTTP2Transport (AllowHTTP: bool)
  | DefaultTransport
  | InstrumentedTransport (it_Tracer: "tracer option") (it_Inner: "transport option")

definition newHTTP1Transport :: "duration \<Rightarrow> PoolConfig \<Rightarrow> transport" where
  "newHTTP1Transport timeout pool =
     (let maxIdlePerHost = pc_MaxIdleConnsPerHost pool;
          maxIdlePerHost = (if maxIdlePerHost \<le> 0 then 128 else maxIdlePerHost);
          idleTimeout = pc_IdleConnTimeout pool;
          idleTimeout = (if idleTimeout \<le> 0 then 90 * Second else idleTimeout) in
      HTTP1Transport
        \<lparr>ht_MaxIdleConnsPerHost = maxIdlePerHost,
         ht_IdleConnTimeout = idleTimeout,
         ht_TLSHandshakeTimeout = 10 * Second,
         ht_ExpectContinueTimeout = 1 * Second,
         ht_ResponseHeaderTimeout = timeout\<rparr>)"

definition newH2CTransport :: transport where
  "newH2CTransport = HTTP2Transport True"

definition newTunedTransport ::
  "duration \<Rightarrow> PoolConfig \<Rightarrow> UpstreamProtocol \<Rightarrow> (transport \<Rightarrow> transport) option \<Rightarrow> transport" where
  "newTunedTransport timeout pool protocol transportWrapper =
     (let base = (if protocol = UpstreamH2C then newH2CTransport
                  else newHTTP1Transport timeout pool) in
      case transportWrapper of
        None \<Rightarrow> base
      | Some wrap \<Rightarrow> wrap base)"

section \<open>Reverse proxies and the handler\<close>

text \<open>A \<open>httputil.ReverseProxy\<close> made by \<open>NewSingleHostReverseProxy(target)\<close>: the target its
  Director rewrites to, and the transport.\<close>

record ReverseProxy =
  rp_target :: url
  rp_Transport :: transport

definition newReverseProxy ::
  "url \<Rightarrow> duration \<Rightarrow> PoolConfig \<Rightarrow> UpstreamProtocol \<Rightarrow> (transport \<Rightarrow> transport) option
     \<Rightarrow> ReverseProxy" where
  "newReverseProxy backend timeout pool protocol transportWrapper =
     \<lparr>rp_target = backend,
      rp_Transport = newTunedTransport timeout pool protocol transportWrapper\<rparr>"

text \<open>\<open>proxy.Handler\<close>; its \<open>notFound\<close> field always holds the function \<open>notFound\<close>.\<close>

record Handler =
  hd_router :: router
  hd_proxies :: "string \<rightharpoonup> ReverseProxy"

text \<open>\<open>New\<close> fails on a \<open>nil\<close> router. A route with a \<open>nil\<close> backend would make
  \<open>NewSingleHostReverseProxy\<close> dereference \<open>nil\<close>: that panic is the second constructor.\<close>

datatype proxy_error = RouterRequired | NilBackendPanic

fun build_proxies ::
  "(url \<Rightarrow> ReverseProxy) \<Rightarrow> (string \<rightharpoonup> ReverseProxy) \<Rightarrow> route list
     \<Rightarrow> proxy_error + (string \<rightharpoonup> ReverseProxy)" where
  "build_proxies mk proxies [] = Inr proxies"
| "build_proxies mk proxies (r # rs) =
     (case Backend r of
        None \<Rightarrow> Inl NilBackendPanic
      | Some backend \<Rightarrow> build_proxies mk (proxies(Prefix r \<mapsto> mk backend)) rs)"

definition New ::
  "router option \<Rightarrow> duration \<Rightarrow> PoolConfig \<Rightarrow> UpstreamProtocol
     \<Rightarrow> (transport \<Rightarrow> transport) option \<Rightarrow> proxy_error + Handler" where
  "New router backendTimeout pool protocol transportWrapper =
     (case router of
        None \<Rightarrow> Inl RouterRequired
      | Some r \<Rightarrow>
          (case build_proxies
                  (\<lambda>b. newReverseProxy b backendTimeout pool protocol transportWrapper)
                  Map.empty (Routes r) of
             Inl e \<Rightarrow> Inl e
           | Inr proxies \<Rightarrow> Inr \<lparr>hd_router = r, hd_proxies = proxies\<rparr>))"

text \<open>\<open>BuildConfig\<close> of \<open>holder.go\<close>: the options every rebuild of the handler reuses.\<close>

record BuildConfig =
  bc_BackendTimeout :: duration
  bc_Pool :: PoolConfig
  bc_Protocol :: UpstreamProtocol
  bc_TransportWrapper :: "(transport \<Rightarrow> transport) option"

definition New_with :: "BuildConfig \<Rightarrow> router option \<Rightarrow> proxy_error + Handler" where
  "New_with cfg router =
     New router (bc_BackendTimeout cfg) (bc_Pool cfg) (bc_Protocol cfg) (bc_TransportWrapper cfg)"

section \<open>Lemmas\<close>

lemma build_proxies_Inr:
  assumes "list_all (\<lambda>r. Backend r \<noteq> None) rs"
  shows "\<exists>m. build_proxies mk proxies rs = Inr m"
  using assms by (induction rs arbitrary: proxies) auto

lemma build_proxies_other:
  "build_proxies mk proxies rs = Inr m \<Longrightarrow> p \<notin> Prefix ` set rs \<Longrightarrow> m p = proxies p"
  by (induction rs arbitrary: proxies) (auto split: option.splits)

lemma build_proxies_lookup:
  assumes "build_proxies mk proxies rs = Inr m" and "distinct (map Prefix rs)" and "r \<in> set rs"
  shows "\<exists>b. Backend r = Some b \<and> m (Prefix r) = Some (mk b)"
  using assms
proof (induction rs arbitrary: proxies)
  case Nil
  then show ?case by simp
next
  case (Cons q rs)
  then obtain b where b: "Backend q = Some b"
    and rest: "build_proxies mk (proxies(Prefix q \<mapsto> mk b)) rs = Inr m"
    by (auto split: option.splits)
  show ?case
  proof (cases "r = q")
    case True
    with Cons.prems(2) have "Prefix r \<notin> Prefix ` set rs" by simp
    with build_proxies_other [OF rest, of "Prefix r"] True b show ?thesis by simp
  next
    case False
    with Cons.prems(3) have "r \<in> set rs" by simp
    with Cons.IH [OF rest] Cons.prems(2) show ?thesis by simp
  qed
qed

lemma build_proxies_dom:
  "build_proxies mk proxies rs = Inr m \<Longrightarrow> dom m = dom proxies \<union> Prefix ` set rs"
  by (induction rs arbitrary: proxies) (auto split: option.splits)

text \<open>The client side of the interface: whatever a good selector returns has its proxy.\<close>

context route_selector
begin

lemma selected_has_proxy:
  assumes "good r" and "build_proxies mk Map.empty (table r) = Inr m"
    and "select r path = Some x"
  shows "\<exists>b. Backend x = Some b \<and> m (Prefix x) = Some (mk b)"
  using assms build_proxies_lookup good_distinct select_mem by blast

lemma build_total:
  assumes "good r"
  shows "\<exists>m. build_proxies mk Map.empty (table r) = Inr m"
  using assms by (intro build_proxies_Inr) (auto simp: list_all_iff dest: good_backend)

end

definition good_handler :: "BuildConfig \<Rightarrow> Handler \<Rightarrow> bool" where
  "good_handler cfg h =
     (well_formed_router (hd_router h) \<and> New_with cfg (Some (hd_router h)) = Inr h)"

lemma New_with_good:
  assumes "well_formed_router r"
  obtains h where "New_with cfg (Some r) = Inr h" and "hd_router h = r" and "good_handler cfg h"
proof -
  from gw.build_total [OF assms] obtain m where
    "build_proxies (\<lambda>b. newReverseProxy b (bc_BackendTimeout cfg) (bc_Pool cfg)
       (bc_Protocol cfg) (bc_TransportWrapper cfg)) Map.empty (Routes r) = Inr m"
    by blast
  then have "New_with cfg (Some r) = Inr \<lparr>hd_router = r, hd_proxies = m\<rparr>"
    by (simp add: New_with_def New_def)
  with that [of "\<lparr>hd_router = r, hd_proxies = m\<rparr>"] assms show ?thesis
    by (simp add: good_handler_def)
qed

lemma good_handler_proxy:
  assumes "good_handler cfg h" and "Match (hd_router h) path = Some x"
  shows "\<exists>b. Backend x = Some b \<and>
    hd_proxies h (Prefix x) = Some (newReverseProxy b (bc_BackendTimeout cfg) (bc_Pool cfg)
      (bc_Protocol cfg) (bc_TransportWrapper cfg))"
proof -
  from assms(1) have wf: "well_formed_router (hd_router h)"
    and b: "build_proxies (\<lambda>b. newReverseProxy b (bc_BackendTimeout cfg) (bc_Pool cfg)
       (bc_Protocol cfg) (bc_TransportWrapper cfg)) Map.empty (Routes (hd_router h))
       = Inr (hd_proxies h)"
    by (auto simp: good_handler_def New_with_def New_def split: sum.splits)
      (metis Handler.select_convs(2))
  from gw.selected_has_proxy [OF wf b assms(2)] show ?thesis .
qed

section \<open>Properties\<close>

text \<open>Whatever the pool flags say, the HTTP/1.1 transport has a positive per-host idle pool
  and a positive idle timeout; positive settings are kept, others become 128 and 90 seconds,
  and the response-header timeout is the configured backend timeout.\<close>

theorem newHTTP1Transport_pool:
  "\<exists>t. newHTTP1Transport timeout pool = HTTP1Transport t \<and>
     0 < ht_MaxIdleConnsPerHost t \<and> 0 < ht_IdleConnTimeout t \<and>
     ht_MaxIdleConnsPerHost t =
       (if 0 < pc_MaxIdleConnsPerHost pool then pc_MaxIdleConnsPerHost pool else 128) \<and>
     ht_IdleConnTimeout t =
       (if 0 < pc_IdleConnTimeout pool then pc_IdleConnTimeout pool else 90000000000) \<and>
     ht_ResponseHeaderTimeout t = timeout"
  by (auto simp: newHTTP1Transport_def Second_def Let_def)

text \<open>In h2c mode neither the backend timeout nor the pool settings reach the transport: any
  two settings give the same transport, so \<open>--backend-timeout\<close> bounds nothing there, while
  in HTTP/1.1 mode different timeouts give different transports.\<close>

theorem h2c_ignores_backend_timeout:
  "newTunedTransport t pool UpstreamH2C w = newTunedTransport t' pool' UpstreamH2C w \<and>
   (newTunedTransport t pool UpstreamHTTP1 None = newTunedTransport t' pool UpstreamHTTP1 None
      \<longleftrightarrow> t = t')"
  by (auto simp: newTunedTransport_def newHTTP1Transport_def UpstreamHTTP1_def UpstreamH2C_def
      Let_def)

text \<open>\<open>New\<close> on any router that \<open>NewRouter\<close> built neither fails nor dereferences a \<open>nil\<close>
  backend, and the handler's map holds exactly the table's prefixes, each with a reverse
  proxy to that route's own backend.\<close>

theorem New_total_on_routers:
  assumes "NewRouter rs = Inr r"
  shows "\<exists>h. New (Some r) t pool proto w = Inr h \<and> hd_router h = r \<and>
    dom (hd_proxies h) = Prefix ` set rs \<and>
    (\<forall>x \<in> set rs. \<exists>b. Backend x = Some b \<and>
       hd_proxies h (Prefix x) = Some (newReverseProxy b t pool proto w))"
proof -
  let ?mk = "\<lambda>b. newReverseProxy b t pool proto w"
  note wf = NewRouter_well_formed [OF assms]
  have set: "set (Routes r) = set rs" using assms by (auto simp: NewRouter_Inr_iff Routes_def)
  from gw.build_total [OF wf] obtain m where
    m: "build_proxies ?mk Map.empty (Routes r) = Inr m" by blast
  then have "New (Some r) t pool proto w = Inr \<lparr>hd_router = r, hd_proxies = m\<rparr>"
    by (simp add: New_def)
  moreover have "dom m = Prefix ` set rs" using build_proxies_dom [OF m] set by simp
  moreover have "\<forall>x \<in> set rs. \<exists>b. Backend x = Some b \<and> m (Prefix x) = Some (?mk b)"
    using build_proxies_lookup [OF m gw.good_distinct [OF wf]] set by simp
  ultimately show ?thesis by simp
qed

theorem New_total_on_routers_witness:
  "\<exists>h. New (Some \<lparr>routes = rev demo_routes\<rparr>) 0 \<lparr>pc_MaxIdleConnsPerHost = 0,
         pc_IdleConnTimeout = 0\<rparr> UpstreamHTTP1 None = Inr h"
  using New_total_on_routers [OF demo_routes_accepted] by blast

end
