(* ===== verification/Http.thy ===== *)
theory Http
  imports Complex_Main Transport "HOL-Library.Word"
begin

text \<open>
  The part of Go's \<open>net/http\<close> the handlers are written against: header maps, requests with
  their context, the state a running gateway carries (\<open>world\<close>) and the services it is given
  (\<open>env\<close>).
  The environment holds what is not under \<open>src/\<close> or is the machine's: the clock, the random
  source, the backends behind a transport, the OpenTelemetry SDK's propagator and span
  starter, the text format of times and floats, and Unicode's table of printable runes. They are parameters of every definition
  that uses them.
\<close>

section \<open>Headers\<close>

text \<open>\<open>http.Header\<close> is \<open>map[string][]string\<close>; \<open>Get\<close>, \<open>Set\<close>, \<open>Add\<close> and \<open>Del\<close> canonicalise
  the name: each part between hyphens gets an upper-case first letter and lower-case rest,
  names with a byte outside the token alphabet stay as they are.\<close>

type_synonym header = "string \<rightharpoonup> string list"

definition validHeaderFieldByte :: "char \<Rightarrow> bool" where
  "validHeaderFieldByte c =
     (is_alnum c \<or> c \<in> set ''!#$%&*+-.^_|~'' \<or> c = CHR 0x27 \<or> c = CHR 0x60)"

fun canonical_loop :: "bool \<Rightarrow> string \<Rightarrow> string" where
  "canonical_loop upper [] = []"
| "canonical_loop upper (c # s) =
     (if upper then to_upper c else to_lower c) # canonical_loop (c = CHR ''-'') s"

definition CanonicalHeaderKey :: "string \<Rightarrow> string" where
  "CanonicalHeaderKey s = (if list_all validHeaderFieldByte s then canonical_loop True s else s)"

definition hdr_values :: "header \<Rightarrow> string \<Rightarrow> string list" where
  "hdr_values h k = (case h (CanonicalHeaderKey k) of None \<Rightarrow> [] | Some vs \<Rightarrow> vs)"

definition hdr_Get :: "header \<Rightarrow> string \<Rightarrow> string" where
  "hdr_Get h k = (case hdr_values h k of [] \<Rightarrow> '''' | v # _ \<Rightarrow> v)"

definition hdr_Set :: "string \<Rightarrow> string \<Rightarrow> header \<Rightarrow> header" where
  "hdr_Set k v h = h(CanonicalHeaderKey k \<mapsto> [v])"

definition hdr_Add :: "string \<Rightarrow> string \<Rightarrow> header \<Rightarrow> header" where
  "hdr_Add k v h = h(CanonicalHeaderKey k \<mapsto> hdr_values h k @ [v])"

definition hdr_Del :: "string \<Rightarrow> header \<Rightarrow> header" where
  "hdr_Del k h = h(CanonicalHeaderKey k := None)"

lemma hdr_values_Set [simp]:
  "hdr_values (hdr_Set k v h) k' =
     (if CanonicalHeaderKey k' = CanonicalHeaderKey k then [v] else hdr_values h k')"
  by (simp add: hdr_values_def hdr_Set_def)

lemma hdr_Get_Set_same [simp]: "hdr_Get (hdr_Set k v h) k = v"
  by (simp add: hdr_Get_def)

lemma hdr_Get_Set_other:
  "CanonicalHeaderKey k \<noteq> CanonicalHeaderKey k' \<Longrightarrow> hdr_Get (hdr_Set k v h) k' = hdr_Get h k'"
  by (simp add: hdr_Get_def)

lemma hdr_values_Add:
  "hdr_values (hdr_Add k v h) k' =
     (if CanonicalHeaderKey k' = CanonicalHeaderKey k then hdr_values h k' @ [v]
      else hdr_values h k')"
  by (auto simp: hdr_values_def hdr_Add_def)

section \<open>Contexts, requests, responses\<close>

text \<open>The span context a request context may carry (\<open>trace.SpanContext\<close>): a 16-byte trace ID
  and an 8-byte span ID, valid when neither is all zero.\<close>

type_synonym byte = "8 word"

record span_context =
  sc_TraceID :: "byte list"
  sc_SpanID :: "byte list"

definition no_span :: span_context where
  "no_span = \<lparr>sc_TraceID = replicate 16 0, sc_SpanID = replicate 8 0\<rparr>"

definition sc_IsValid :: "span_context \<Rightarrow> bool" where
  "sc_IsValid sc = (list_ex (\<lambda>b. b \<noteq> 0) (sc_TraceID sc) \<and> list_ex (\<lambda>b. b \<noteq> 0) (sc_SpanID sc))"

text \<open>The two values the gateway keeps in a request context. The key of the correlation ID is
  an unexported type of the middleware package, so no other code can set that entry.\<close>

record "context" =
  cx_correlation :: "string option"
  cx_span :: span_context

text \<open>An inbound request. Its header map is shared by every shallow copy \<open>r.WithContext\<close>
  makes, so it is part of the state (\<open>w_reqhdr\<close>), not of this value.\<close>

record request =
  r_Method :: string
  r_URL :: url
  r_Host :: string
  r_RemoteAddr :: string
  r_RequestURI :: string
  r_Body :: string
  r_ctx :: "context"

text \<open>What a transport is asked to send, and what comes back. \<open>rs_copy_fails\<close> says that
  copying the body to the client breaks off (the backend or the client goes away).\<close>

record outreq =
  o_Method :: string
  o_URL :: url
  o_Host :: string
  o_Header :: header
  o_Body :: string
  o_span :: span_context

record response =
  rs_StatusCode :: int
  rs_Status :: string
  rs_Header :: header
  rs_Body :: string
  rs_copy_fails :: bool

section \<open>Observability events\<close>

text \<open>Calls into the Prometheus and OpenTelemetry libraries, recorded in order.\<close>

record labels =
  l_method :: string
  l_route :: string
  l_status :: string

datatype metric_event = CounterInc labels | HistogramObserve labels rat

datatype attr = AString string | AInt int | AFloat rat

datatype span_event =
    SpanStart nat string string "(string \<times> attr) list" span_context span_context
    \<comment> \<open>number, name, kind, attributes, parent, own span context\<close>
  | SetAttributes nat "(string \<times> attr) list"
  | SetStatus nat string string
  | SpanEnd nat

section \<open>OpenTelemetry's globals\<close>

text \<open>The process-wide tracer provider and propagator. The exporters and resources the SDK makes are
  opaque: any types \<open>'e\<close> and \<open>'r\<close>.\<close>

text \<open>A \<open>TextMapPropagator\<close>. \<open>Fields\<close> lists the header fields \<open>Inject\<close> sets, by its documentation.\<close>

record propagator =
  pg_Inject :: "span_context \<Rightarrow> header \<Rightarrow> header"
  pg_Extract :: "span_context \<Rightarrow> header \<Rightarrow> span_context"
  pg_Fields :: "string list"

text \<open>The global propagator before any is set.\<close>

definition no_propagator :: propagator where
  "no_propagator = \<lparr>pg_Inject = (\<lambda>sc h. h), pg_Extract = (\<lambda>sc h. sc), pg_Fields = []\<rparr>"

record ('e, 'r) tracer_provider =
  tp_exporter :: 'e
  tp_resource :: 'r

text \<open>The globals, and the exporters that were started and not shut down.\<close>

record ('e, 'r) otel_globals =
  og_provider :: "('e, 'r) tracer_provider option"
  og_propagator :: propagator
  og_running :: "'e list"

text \<open>Before \<open>Bootstrap\<close>.\<close>

definition no_globals :: "('e, 'r) otel_globals" where
  "no_globals = \<lparr>og_provider = None, og_propagator = no_propagator, og_running = []\<rparr>"

section \<open>Environment and state\<close>

record env =
  e_now :: "nat \<Rightarrow> int"
  e_rand :: "nat \<Rightarrow> byte list option"
  e_backend :: "nat \<Rightarrow> transport \<Rightarrow> outreq \<Rightarrow> string + response"
  e_extract :: "span_context \<Rightarrow> header \<Rightarrow> span_context"
  e_start :: "nat \<Rightarrow> span_context \<Rightarrow> span_context"
  e_inject :: "span_context \<Rightarrow> header \<Rightarrow> header"
  e_rfc3339 :: "int \<Rightarrow> string"
  e_float :: "rat \<Rightarrow> string"
  e_duration :: "duration \<Rightarrow> string"
  e_IsPrint :: "string \<Rightarrow> bool"

record world =
  w_reqhdr :: header
  w_ticks :: nat
  w_draws :: nat
  w_sent :: "(transport \<times> outreq) list"
  w_spans :: nat
  w_otel :: "span_event list"
  w_metrics :: "metric_event list"
  w_stdout :: "string list"
  w_readyState :: int
  w_current :: "Handler option"
  w_globals :: "(string, string) otel_globals"

text \<open>\<open>time.Now()\<close>: the next reading of the clock, in nanoseconds.\<close>

definition time_Now :: "env \<Rightarrow> world \<Rightarrow> int \<times> world" where
  "time_Now e s = (e_now e (w_ticks s), s\<lparr>w_ticks := Suc (w_ticks s)\<rparr>)"

definition rand_Read :: "env \<Rightarrow> world \<Rightarrow> byte list option \<times> world" where
  "rand_Read e s = (e_rand e (w_draws s), s\<lparr>w_draws := Suc (w_draws s)\<rparr>)"

text \<open>Starting a span and calling its methods.\<close>

definition tracer_Start ::
  "env \<Rightarrow> span_context \<Rightarrow> string \<Rightarrow> string \<Rightarrow> (string \<times> attr) list \<Rightarrow> world
     \<Rightarrow> span_context \<times> nat \<times> world" where
  "tracer_Start e parent name kind attrs s =
     (let i = w_spans s; sc = e_start e i parent in
      (sc, i, s\<lparr>w_spans := Suc i,
               w_otel := w_otel s @ [SpanStart i name kind attrs parent sc]\<rparr>))"

definition span_call :: "span_event \<Rightarrow> world \<Rightarrow> world" where
  "span_call ev s = s\<lparr>w_otel := w_otel s @ [ev]\<rparr>"

end
