(* ===== verification/Writers.thy ===== *)
theory Writers
  imports Http
begin

text \<open>
  The \<open>http.ResponseWriter\<close>s of the gateway. Three middlewares wrap the writer they are
  given: \<open>middleware.statusRecorder\<close> (accesslog.go), \<open>metrics.statusWriter\<close> (metrics.go) and
  \<open>otel.statusWriter\<close> (otel/middleware.go); at the bottom is the server's own writer. A
  method call on the interface goes to the wrapper's method, which may call the method of
  the writer inside: \<open>writer\<close> is the tagged union of the four and each interface method is
  one recursive function that dispatches to the wrapper's own method.
\<close>

section \<open>The connection's writer\<close>

text \<open>\<open>http.response\<close>: \<open>WriteHeader\<close> takes effect once, and snapshots the header map;
  \<open>Write\<close> sends an implicit 200 first.\<close>

record conn =
  cn_header :: header
  cn_wrote :: bool
  cn_status :: int
  cn_sent :: header
  cn_body :: string

definition new_conn :: conn where
  "new_conn = \<lparr>cn_header = Map.empty, cn_wrote = False, cn_status = 0, cn_sent = Map.empty,
               cn_body = ''''\<rparr>"

definition conn_WriteHeader :: "conn \<Rightarrow> int \<Rightarrow> conn" where
  "conn_WriteHeader c code =
     (if cn_wrote c then c
      else c\<lparr>cn_wrote := True, cn_status := code, cn_sent := cn_header c\<rparr>)"

definition conn_Write :: "conn \<Rightarrow> string \<Rightarrow> conn" where
  "conn_Write c b = (let c = conn_WriteHeader c 200 in c\<lparr>cn_body := cn_body c @ b\<rparr>)"

section \<open>The wrappers\<close>

record statusRecorder =
  sr_status :: int
  sr_wroteHeader :: bool
  sr_route :: string

record metricsWriter =
  mw_status :: int
  mw_route :: string
  mw_wroteHeader :: bool

record otelWriter =
  ow_status :: int
  ow_matchedRoute :: string

datatype writer =
    Conn conn
  | AccessRec statusRecorder writer
  | MetricsRec metricsWriter writer
  | OtelRec otelWriter writer

text \<open>The type assertion \<open>w.(middleware.RouteRecorder)\<close>: all three wrappers implement it.\<close>

primrec is_RouteRecorder :: "writer \<Rightarrow> bool" where
  "is_RouteRecorder (Conn c) = False"
| "is_RouteRecorder (AccessRec s w) = True"
| "is_RouteRecorder (MetricsRec s w) = True"
| "is_RouteRecorder (OtelRec s w) = True"

subsection \<open>Methods of \<open>middleware.statusRecorder\<close>\<close>

text \<open>A method gets its receiver's fields, the wrapped writer and, as \<open>inner\<close>, the wrapped
  writer's method of the same name.\<close>

definition statusRecorder_SetMatchedRoute ::
  "statusRecorder \<Rightarrow> writer \<Rightarrow> (string \<Rightarrow> writer) \<Rightarrow> string \<Rightarrow> writer" where
  "statusRecorder_SetMatchedRoute s w inner pre =
     AccessRec (s\<lparr>sr_route := pre\<rparr>) (if is_RouteRecorder w then inner pre else w)"

definition statusRecorder_WriteHeader ::
  "statusRecorder \<Rightarrow> writer \<Rightarrow> (int \<Rightarrow> writer) \<Rightarrow> int \<Rightarrow> writer" where
  "statusRecorder_WriteHeader s w inner status =
     (if sr_wroteHeader s then AccessRec s w
      else AccessRec (s\<lparr>sr_wroteHeader := True, sr_status := status\<rparr>) (inner status))"

definition statusRecorder_Write ::
  "statusRecorder \<Rightarrow> writer \<Rightarrow> (string \<Rightarrow> writer) \<Rightarrow> string \<Rightarrow> writer" where
  "statusRecorder_Write s w inner b =
     AccessRec (if \<not> sr_wroteHeader s then s\<lparr>sr_wroteHeader := True\<rparr> else s) (inner b)"

subsection \<open>Methods of \<open>metrics.statusWriter\<close>\<close>

definition metricsWriter_WriteHeader ::
  "metricsWriter \<Rightarrow> writer \<Rightarrow> (int \<Rightarrow> writer) \<Rightarrow> int \<Rightarrow> writer" where
  "metricsWriter_WriteHeader sw w inner code =
     (if mw_wroteHeader sw then MetricsRec sw w
      else MetricsRec (sw\<lparr>mw_wroteHeader := True, mw_status := code\<rparr>) (inner code))"

definition metricsWriter_Write ::
  "metricsWriter \<Rightarrow> writer \<Rightarrow> (string \<Rightarrow> writer) \<Rightarrow> string \<Rightarrow> writer" where
  "metricsWriter_Write sw w inner b =
     MetricsRec (if \<not> mw_wroteHeader sw then sw\<lparr>mw_wroteHeader := True\<rparr> else sw) (inner b)"

definition metricsWriter_SetMatchedRoute ::
  "metricsWriter \<Rightarrow> writer \<Rightarrow> (string \<Rightarrow> writer) \<Rightarrow> string \<Rightarrow> writer" where
  "metricsWriter_SetMatchedRoute sw w inner route =
     MetricsRec (sw\<lparr>mw_route := route\<rparr>) (if is_RouteRecorder w then inner route else w)"

subsection \<open>Methods of \<open>otel.statusWriter\<close>\<close>

text \<open>It records every \<open>WriteHeader\<close>, has no \<open>Write\<close> of its own (the embedded writer's is
  used) and does not pass the matched route on.\<close>

definition otelWriter_WriteHeader ::
  "otelWriter \<Rightarrow> writer \<Rightarrow> (int \<Rightarrow> writer) \<Rightarrow> int \<Rightarrow> writer" where
  "otelWriter_WriteHeader sw w inner code = OtelRec (sw\<lparr>ow_status := code\<rparr>) (inner code)"

definition otelWriter_SetMatchedRoute ::
  "otelWriter \<Rightarrow> writer \<Rightarrow> (string \<Rightarrow> writer) \<Rightarrow> string \<Rightarrow> writer" where
  "otelWriter_SetMatchedRoute sw w inner route = OtelRec (sw\<lparr>ow_matchedRoute := route\<rparr>) w"

section \<open>The interface methods\<close>

text \<open>\<open>w.Header()\<close> returns the connection's map through every wrapper; a change made through
  it is \<open>on_header\<close>.\<close>

primrec writer_Header :: "writer \<Rightarrow> header" where
  "writer_Header (Conn c) = cn_header c"
| "writer_Header (AccessRec s w) = writer_Header w"
| "writer_Header (MetricsRec s w) = writer_Header w"
| "writer_Header (OtelRec s w) = writer_Header w"

primrec on_header :: "(header \<Rightarrow> header) \<Rightarrow> writer \<Rightarrow> writer" where
  "on_header f (Conn c) = Conn (c\<lparr>cn_header := f (cn_header c)\<rparr>)"
| "on_header f (AccessRec s w) = AccessRec s (on_header f w)"
| "on_header f (MetricsRec s w) = MetricsRec s (on_header f w)"
| "on_header f (OtelRec s w) = OtelRec s (on_header f w)"

primrec WriteHeader :: "writer \<Rightarrow> int \<Rightarrow> writer" where
  "WriteHeader (Conn c) = (\<lambda>code. Conn (conn_WriteHeader c code))"
| "WriteHeader (AccessRec s w) = statusRecorder_WriteHeader s w (WriteHeader w)"
| "WriteHeader (MetricsRec s w) = metricsWriter_WriteHeader s w (WriteHeader w)"
| "WriteHeader (OtelRec s w) = otelWriter_WriteHeader s w (WriteHeader w)"

primrec Write :: "writer \<Rightarrow> string \<Rightarrow> writer" where
  "Write (Conn c) = (\<lambda>b. Conn (conn_Write c b))"
| "Write (AccessRec s w) = statusRecorder_Write s w (Write w)"
| "Write (MetricsRec s w) = metricsWriter_Write s w (Write w)"
| "Write (OtelRec s w) = (\<lambda>b. OtelRec s (Write w b))"

primrec SetMatchedRoute :: "writer \<Rightarrow> string \<Rightarrow> writer" where
  "SetMatchedRoute (Conn c) = (\<lambda>p. Conn c)"
| "SetMatchedRoute (AccessRec s w) = statusRecorder_SetMatchedRoute s w (SetMatchedRoute w)"
| "SetMatchedRoute (MetricsRec s w) = metricsWriter_SetMatchedRoute s w (SetMatchedRoute w)"
| "SetMatchedRoute (OtelRec s w) = otelWriter_SetMatchedRoute s w (SetMatchedRoute w)"

text \<open>The writer inside a wrapper, and the connection at the bottom.\<close>

primrec under_writer :: "writer \<Rightarrow> writer" where
  "under_writer (Conn c) = Conn c"
| "under_writer (AccessRec s w) = w"
| "under_writer (MetricsRec s w) = w"
| "under_writer (OtelRec s w) = w"

primrec conn_of :: "writer \<Rightarrow> conn" where
  "conn_of (Conn c) = c"
| "conn_of (AccessRec s w) = conn_of w"
| "conn_of (MetricsRec s w) = conn_of w"
| "conn_of (OtelRec s w) = conn_of w"

section \<open>Handlers\<close>

text \<open>\<open>http.Handler\<close>: a request, a writer and the state of the gateway, to the way it ended,
  the writer and the state after. A panic is a value; what runs after it is only what the
  code defers.\<close>

datatype outcome = Returned | Panicked

type_synonym handler = "request \<Rightarrow> writer \<Rightarrow> world \<Rightarrow> outcome \<times> writer \<times> world"

text \<open>The calls a handler can make on its writer. \<open>stamp_route\<close> is the code's
  \<open>if rec, ok := w.(RouteRecorder); ok { rec.SetMatchedRoute(p) }\<close>.\<close>

definition stamp_route :: "writer \<Rightarrow> string \<Rightarrow> writer" where
  "stamp_route w p = (if is_RouteRecorder w then SetMatchedRoute w p else w)"

datatype writer_op =
    OpHeader "header \<Rightarrow> header"
  | OpWriteHeader int
  | OpWrite string
  | OpStamp string

primrec apply_op :: "writer_op \<Rightarrow> writer \<Rightarrow> writer" where
  "apply_op (OpHeader f) w = on_header f w"
| "apply_op (OpWriteHeader code) w = WriteHeader w code"
| "apply_op (OpWrite b) w = Write w b"
| "apply_op (OpStamp p) w = stamp_route w p"

definition run_ops :: "writer_op list \<Rightarrow> writer \<Rightarrow> writer" where
  "run_ops ops w = fold apply_op ops w"

lemma run_ops_simps [simp]:
  "run_ops [] w = w"
  "run_ops (op # ops) w = run_ops ops (apply_op op w)"
  "run_ops (ops @ ops') w = run_ops ops' (run_ops ops w)"
  by (simp_all add: run_ops_def)

lemmas method_defs =
  statusRecorder_SetMatchedRoute_def statusRecorder_WriteHeader_def statusRecorder_Write_def
  metricsWriter_SetMatchedRoute_def metricsWriter_WriteHeader_def metricsWriter_Write_def
  otelWriter_SetMatchedRoute_def otelWriter_WriteHeader_def

text \<open>What a wrapper passes on of the calls made on it is again a list of calls.\<close>

lemma access_run_ops: "\<exists>s' ops'. run_ops ops (AccessRec s w) = AccessRec s' (run_ops ops' w)"
proof (induction ops arbitrary: s w)
  case Nil
  show ?case by (auto intro: exI [of _ "[]"])
next
  case (Cons op ops)
  have "\<exists>s' ops'. apply_op op (AccessRec s w) = AccessRec s' (run_ops ops' w)"
    by (cases op)
      (auto simp: method_defs stamp_route_def
        intro: exI [of _ "[]"] exI [of _ "[op]"])
  then obtain s' ops' where "apply_op op (AccessRec s w) = AccessRec s' (run_ops ops' w)" by blast
  with Cons.IH [of s' "run_ops ops' w"] show ?case by (metis run_ops_simps(2,3))
qed

lemma metrics_run_ops: "\<exists>s' ops'. run_ops ops (MetricsRec s w) = MetricsRec s' (run_ops ops' w)"
proof (induction ops arbitrary: s w)
  case Nil
  show ?case by (auto intro: exI [of _ "[]"])
next
  case (Cons op ops)
  have "\<exists>s' ops'. apply_op op (MetricsRec s w) = MetricsRec s' (run_ops ops' w)"
    by (cases op)
      (auto simp: method_defs stamp_route_def
        intro: exI [of _ "[]"] exI [of _ "[op]"])
  then obtain s' ops' where "apply_op op (MetricsRec s w) = MetricsRec s' (run_ops ops' w)" by blast
  with Cons.IH [of s' "run_ops ops' w"] show ?case by (metis run_ops_simps(2,3))
qed

lemma otel_run_ops: "\<exists>s' ops'. run_ops ops (OtelRec s w) = OtelRec s' (run_ops ops' w)"
proof (induction ops arbitrary: s w)
  case Nil
  show ?case by (auto intro: exI [of _ "[]"])
next
  case (Cons op ops)
  have "\<exists>s' ops'. apply_op op (OtelRec s w) = OtelRec s' (run_ops ops' w)"
    by (cases op)
      (auto simp: method_defs stamp_route_def
        intro: exI [of _ "[]"] exI [of _ "[op]"])
  then obtain s' ops' where "apply_op op (OtelRec s w) = OtelRec s' (run_ops ops' w)" by blast
  with Cons.IH [of s' "run_ops ops' w"] show ?case by (metis run_ops_simps(2,3))
qed

lemma conn_run_ops: "\<exists>c'. run_ops ops (Conn c) = Conn c'"
  by (induction ops arbitrary: c)
    (auto simp: stamp_route_def, metis (no_types) apply_op.simps Write.simps(1) WriteHeader.simps(1)
      conn_of.simps(1) is_RouteRecorder.simps(1) on_header.simps(1) stamp_route_def writer_op.exhaust)

section \<open>Agreement of the recorders\<close>

text \<open>What each layer believes: the status it will report, and whether a header went out. For
  the connection the status is what the client gets.\<close>

primrec status_view :: "writer \<Rightarrow> int" where
  "status_view (Conn c) = (if cn_wrote c then cn_status c else 200)"
| "status_view (AccessRec s w) = sr_status s"
| "status_view (MetricsRec s w) = mw_status s"
| "status_view (OtelRec s w) = ow_status s"

primrec header_sent :: "writer \<Rightarrow> bool" where
  "header_sent (Conn c) = cn_wrote c"
| "header_sent (AccessRec s w) = sr_wroteHeader s"
| "header_sent (MetricsRec s w) = mw_wroteHeader s"
| "header_sent (OtelRec s w) = header_sent w"

text \<open>All layers agree with the one inside them.\<close>

primrec in_step :: "writer \<Rightarrow> bool" where
  "in_step (Conn c) = True"
| "in_step (AccessRec s w) =
     (in_step w \<and> sr_status s = status_view w \<and> sr_wroteHeader s = header_sent w)"
| "in_step (MetricsRec s w) =
     (in_step w \<and> mw_status s = status_view w \<and> mw_wroteHeader s = header_sent w)"
| "in_step (OtelRec s w) = (in_step w \<and> ow_status s = status_view w)"

text \<open>A stack whose outermost-to-handler layer suppresses repeated \<open>WriteHeader\<close> calls:
  \<open>otel.statusWriter\<close> does not.\<close>

primrec guarded :: "writer \<Rightarrow> bool" where
  "guarded (Conn c) = True"
| "guarded (AccessRec s w) = True"
| "guarded (MetricsRec s w) = True"
| "guarded (OtelRec s w) = False"

lemma in_step_conn: "in_step w \<Longrightarrow> status_view w = status_view (Conn (conn_of w))"
  by (induction w) auto

lemma in_step_unsent: "in_step w \<Longrightarrow> \<not> header_sent w \<Longrightarrow> status_view w = 200"
  by (induction w) auto

lemma on_header_views [simp]:
  "status_view (on_header f w) = status_view w"
  "header_sent (on_header f w) = header_sent w"
  "in_step (on_header f w) = in_step w"
  "guarded (on_header f w) = guarded w"
  by (induction w) auto

lemma SetMatchedRoute_views [simp]:
  "status_view (SetMatchedRoute w p) = status_view w"
  "header_sent (SetMatchedRoute w p) = header_sent w"
  "in_step (SetMatchedRoute w p) = in_step w"
  "guarded (SetMatchedRoute w p) = guarded w"
  by (induction w) (auto simp: method_defs)

lemma first_WriteHeader:
  "in_step w \<Longrightarrow> \<not> header_sent w \<Longrightarrow>
     in_step (WriteHeader w code) \<and> header_sent (WriteHeader w code) \<and>
     status_view (WriteHeader w code) = code"
  by (induction w) (auto simp: method_defs conn_WriteHeader_def)

lemma repeated_WriteHeader:
  "guarded w \<Longrightarrow> header_sent w \<Longrightarrow> WriteHeader w code = w"
  by (cases w) (auto simp: method_defs conn_WriteHeader_def)

lemma Write_views:
  "in_step w \<Longrightarrow>
     in_step (Write w b) \<and> header_sent (Write w b) \<and> status_view (Write w b) = status_view w"
  by (induction w) (auto simp: method_defs conn_Write_def conn_WriteHeader_def Let_def)

text \<open>What reaches the connection.\<close>

lemma conn_of_on_header [simp]:
  "conn_of (on_header f w) = (conn_of w)\<lparr>cn_header := f (cn_header (conn_of w))\<rparr>"
  by (induction w) auto

lemma conn_of_SetMatchedRoute [simp]: "conn_of (SetMatchedRoute w p) = conn_of w"
  by (induction w) (auto simp: method_defs)

lemma conn_of_stamp_route [simp]: "conn_of (stamp_route w p) = conn_of w"
  by (simp add: stamp_route_def)

lemma conn_of_Write [simp]: "conn_of (Write w b) = conn_Write (conn_of w) b"
  by (induction w) (auto simp: method_defs)

lemma conn_of_first_WriteHeader:
  "in_step w \<Longrightarrow> \<not> header_sent w \<Longrightarrow> conn_of (WriteHeader w code) = conn_WriteHeader (conn_of w) code"
  by (induction w) (auto simp: method_defs)

lemma header_sent_conn: "in_step w \<Longrightarrow> header_sent w = cn_wrote (conn_of w)"
  by (induction w) auto

lemma stamp_route_views [simp]:
  "status_view (stamp_route w p) = status_view w"
  "header_sent (stamp_route w p) = header_sent w"
  "in_step (stamp_route w p) = in_step w"
  "guarded (stamp_route w p) = guarded w"
  by (simp_all add: stamp_route_def)

lemma guarded_op [simp]: "guarded (apply_op op w) = guarded w"
  by (cases op; cases w) (auto simp: method_defs stamp_route_def)

lemma in_step_op:
  assumes "in_step w" and "guarded w"
  shows "in_step (apply_op op w)"
proof (cases op)
  case (OpWriteHeader code)
  with assms show ?thesis
    by (cases "header_sent w") (simp_all add: repeated_WriteHeader first_WriteHeader)
qed (use assms in \<open>simp_all add: stamp_route_def Write_views\<close>)

lemma in_step_run_ops: "in_step w \<Longrightarrow> guarded w \<Longrightarrow> in_step (run_ops ops w)"
  by (induction ops arbitrary: w) (auto simp: in_step_op)

text \<open>The status a handler settles on: its first \<open>WriteHeader\<close>, or 200 when it writes a body
  first or nothing at all.\<close>

fun settled_status :: "writer_op list \<Rightarrow> int" where
  "settled_status [] = 200"
| "settled_status (OpWriteHeader code # ops) = code"
| "settled_status (OpWrite b # ops) = 200"
| "settled_status (OpHeader f # ops) = settled_status ops"
| "settled_status (OpStamp p # ops) = settled_status ops"

lemma sent_status_fixed:
  "in_step w \<Longrightarrow> guarded w \<Longrightarrow> header_sent w \<Longrightarrow> status_view (run_ops ops w) = status_view w"
proof (induction ops arbitrary: w)
  case Nil
  then show ?case by simp
next
  case (Cons op ops)
  have "header_sent (apply_op op w) \<and> status_view (apply_op op w) = status_view w"
    using Cons.prems by (cases op) (auto simp: stamp_route_def Write_views repeated_WriteHeader)
  with Cons show ?case by (simp add: in_step_op)
qed

lemma status_settles:
  "in_step w \<Longrightarrow> guarded w \<Longrightarrow> \<not> header_sent w \<Longrightarrow>
     status_view (run_ops ops w) = settled_status ops"
proof (induction ops arbitrary: w rule: settled_status.induct)
  case (2 code ops)
  with sent_status_fixed [of "WriteHeader w code" ops] first_WriteHeader [of w code]
  show ?case using guarded_op [of "OpWriteHeader code" w] by simp
next
  case (3 b ops)
  with sent_status_fixed [of "Write w b" ops] Write_views [of w b]
  show ?case using guarded_op [of "OpWrite b" w] by (simp add: in_step_unsent)
qed (auto simp: in_step_unsent stamp_route_def)

section \<open>The route stamp\<close>

text \<open>The routes recorded by the wrappers of a stack, from the handler outwards.\<close>

primrec recorded_routes :: "writer \<Rightarrow> string list" where
  "recorded_routes (Conn c) = []"
| "recorded_routes (AccessRec s w) = sr_route s # recorded_routes w"
| "recorded_routes (MetricsRec s w) = mw_route s # recorded_routes w"
| "recorded_routes (OtelRec s w) = ow_matchedRoute s # recorded_routes w"

text \<open>The order the chain needs: nothing that records a route sits outside an OTel wrapper.\<close>

primrec otel_outermost :: "writer \<Rightarrow> bool" where
  "otel_outermost (Conn c) = True"
| "otel_outermost (AccessRec s w) = otel_outermost w"
| "otel_outermost (MetricsRec s w) = otel_outermost w"
| "otel_outermost (OtelRec s w) = (recorded_routes w = [])"

lemma stamp_reaches_all:
  "otel_outermost w \<Longrightarrow> list_all (\<lambda>q. q = p) (recorded_routes (SetMatchedRoute w p))"
proof (induction w)
  case (OtelRec s w)
  then show ?case by (auto simp: method_defs)
next
  case (AccessRec s w)
  then show ?case by (cases w) (auto simp: method_defs)
next
  case (MetricsRec s w)
  then show ?case by (cases w) (auto simp: method_defs)
qed simp

lemma stamp_misses:
  "\<not> otel_outermost w \<Longrightarrow> p \<notin> set (recorded_routes w) \<Longrightarrow>
     \<not> list_all (\<lambda>q. q = p) (recorded_routes (SetMatchedRoute w p))"
proof (induction w)
  case (OtelRec s w)
  then show ?case by (cases "recorded_routes w") (auto simp: method_defs)
next
  case (AccessRec s w)
  then show ?case by (cases w) (auto simp: method_defs)
next
  case (MetricsRec s w)
  then show ?case by (cases w) (auto simp: method_defs)
qed simp

lemma WriteHeader_routes [simp]: "recorded_routes (WriteHeader w c) = recorded_routes w"
  by (induction w) (auto simp: method_defs)

lemma Write_routes [simp]: "recorded_routes (Write w b) = recorded_routes w"
  by (induction w) (auto simp: method_defs)

lemma on_header_routes [simp]: "recorded_routes (on_header f w) = recorded_routes w"
  by (induction w) auto

lemma otel_outermost_op [simp]: "otel_outermost (apply_op op w) = otel_outermost w"
proof -
  have "otel_outermost (SetMatchedRoute w p) = otel_outermost w" for p
    by (induction w) (auto simp: method_defs)
  moreover have "otel_outermost (WriteHeader w c) = otel_outermost w" for c
    by (induction w) (auto simp: method_defs)
  moreover have "otel_outermost (Write w b) = otel_outermost w" for b
    by (induction w) (auto simp: method_defs)
  moreover have "otel_outermost (on_header f w) = otel_outermost w" for f
    by (induction w) auto
  ultimately show ?thesis by (cases op) (simp_all add: stamp_route_def)
qed

text \<open>Recorders that started with one route keep agreeing on one.\<close>

definition routes_agree :: "writer \<Rightarrow> bool" where
  "routes_agree w = (\<exists>p. list_all (\<lambda>q. q = p) (recorded_routes w))"

lemma routes_agree_run_ops:
  "otel_outermost w \<Longrightarrow> routes_agree w \<Longrightarrow> routes_agree (run_ops ops w)"
proof (induction ops arbitrary: w)
  case (Cons op ops)
  have "routes_agree (apply_op op w)"
    using Cons.prems stamp_reaches_all [of w]
    by (cases op) (auto simp: routes_agree_def stamp_route_def)
  with Cons show ?case by simp
qed simp

section \<open>The contract of a handler\<close>

text \<open>A handler touches its writer only through the interface: after it ran, the writer is the
  one it was given with some calls made on it. Every middleware passes this on.\<close>

locale http_handler =
  fixes h :: handler
  assumes only_calls: "h r w s = (out, w', s') \<Longrightarrow> \<exists>ops. w' = run_ops ops w"
begin

lemma keeps_in_step:
  "h r w s = (out, w', s') \<Longrightarrow> in_step w \<Longrightarrow> guarded w \<Longrightarrow> in_step w'"
  using only_calls in_step_run_ops by blast

lemma on_access:
  assumes "h r (AccessRec sr w) s = (out, w', s')"
  obtains sr' ops where "w' = AccessRec sr' (run_ops ops w)"
  using only_calls [OF assms] access_run_ops by metis

lemma on_metrics:
  assumes "h r (MetricsRec mw w) s = (out, w', s')"
  obtains mw' ops where "w' = MetricsRec mw' (run_ops ops w)"
  using only_calls [OF assms] metrics_run_ops by metis

lemma on_otel:
  assumes "h r (OtelRec ow w) s = (out, w', s')"
  obtains ow' ops where "w' = OtelRec ow' (run_ops ops w)"
  using only_calls [OF assms] otel_run_ops by metis

end

locale middleware =
  fixes m :: "handler \<Rightarrow> handler"
  assumes wraps: "http_handler next \<Longrightarrow> http_handler (m next)"

text \<open>A handler that is a list of calls (which may depend on everything it sees).\<close>

lemma http_handlerI:
  assumes "\<And>r w s. \<exists>ops. fst (snd (h r w s)) = run_ops ops w"
  shows "http_handler h"
  by unfold_locales (metis assms fst_conv snd_conv)

section \<open>Properties\<close>

text \<open>The writers in the order \<open>run\<close> composes the middlewares with every option on.\<close>

definition full_stack :: writer where
  "full_stack =
     AccessRec \<lparr>sr_status = 200, sr_wroteHeader = False, sr_route = ''''\<rparr>
       (MetricsRec \<lparr>mw_status = 200, mw_route = '''', mw_wroteHeader = False\<rparr>
         (OtelRec \<lparr>ow_status = 200, ow_matchedRoute = ''''\<rparr> (Conn new_conn)))"

text \<open>The matched-route stamp reaches every recorder of a stack of writers exactly when no
  recorder sits outside an OpenTelemetry wrapper: the chain breaks there and nowhere else.
  (The stamp is one no recorder holds yet.)\<close>

theorem stamp_chain:
  assumes "p \<notin> set (recorded_routes w)"
  shows "list_all (\<lambda>q. q = p) (recorded_routes (SetMatchedRoute w p)) \<longleftrightarrow> otel_outermost w"
  using assms stamp_reaches_all stamp_misses by blast

theorem stamp_chain_witness:
  "otel_outermost full_stack \<and>
   list_all (\<lambda>q. q = ''/decide'') (recorded_routes (SetMatchedRoute full_stack ''/decide''))"
proof -
  have h: "''/decide'' \<notin> set (recorded_routes full_stack)" by code_simp
  have o: "otel_outermost full_stack" by code_simp
  show ?thesis using stamp_chain [OF h] o by simp
qed

text \<open>C28: whatever calls a handler makes on the composed stack of writers, in whatever order, the
  access-log recorder, the metrics recorder, the span's recorder and the connection settle
  on one status: the handler's first \<open>WriteHeader\<close>, or 200 if it writes first or not at all.\<close>

theorem recorders_agree:
  "\<exists>sr mw ow c. run_ops ops full_stack = AccessRec sr (MetricsRec mw (OtelRec ow (Conn c))) \<and>
     sr_status sr = settled_status ops \<and> mw_status mw = settled_status ops \<and>
     ow_status ow = settled_status ops \<and>
     (if cn_wrote c then cn_status c else 200) = settled_status ops"
proof -
  have start: "in_step full_stack" "guarded full_stack" "\<not> header_sent full_stack"
    by (simp_all add: full_stack_def new_conn_def)
  obtain sr mw ow c where stack:
    "run_ops ops full_stack = AccessRec sr (MetricsRec mw (OtelRec ow (Conn c)))"
    unfolding full_stack_def
    by (metis access_run_ops metrics_run_ops otel_run_ops conn_run_ops)
  have "in_step (run_ops ops full_stack)" using start by (simp add: in_step_run_ops)
  moreover have "status_view (run_ops ops full_stack) = settled_status ops"
    using start by (simp add: status_settles)
  ultimately show ?thesis using stack by auto
qed

end
