(* ===== verification/Correlation.thy ===== *)
theory Correlation
  imports Writers
begin

unbundle bit_operations_syntax

text \<open>
  \<open>internal/middleware/correlationid.go\<close>: the correlation ID a request carries, read from
  \<open>X-Correlation-ID\<close> or minted as a version 4 UUID from 16 random bytes.
\<close>

section \<open>Minting\<close>

definition hex_digits :: string where
  "hex_digits = ''0123456789abcdef''"

definition hex_byte :: "byte \<Rightarrow> string" where
  "hex_byte b = [hex_digits ! (unat b div 16), hex_digits ! (unat b mod 16)]"

text \<open>\<open>encoding/hex.Encode\<close>.\<close>

definition hex_Encode :: "byte list \<Rightarrow> string" where
  "hex_Encode bs = concat (map hex_byte bs)"

definition slice :: "nat \<Rightarrow> nat \<Rightarrow> 'a list \<Rightarrow> 'a list" where
  "slice i j xs = take (j - i) (drop i xs)"

definition sentinel :: string where
  "sentinel = ''00000000-0000-4000-8000-000000000000''"

text \<open>\<open>var b [16]byte\<close> after \<open>randRead(b[:])\<close>: what the source delivered, over zeros.\<close>

definition fill16 :: "byte list \<Rightarrow> byte list" where
  "fill16 bs = take 16 (bs @ replicate 16 0)"

text \<open>The version and variant bits.\<close>

definition set_v4 :: "byte list \<Rightarrow> byte list" where
  "set_v4 b = b[6 := (b ! 6 AND 0x0f) OR 0x40, 8 := (b ! 8 AND 0x3f) OR 0x80]"

definition format_uuid :: "byte list \<Rightarrow> string" where
  "format_uuid b =
     hex_Encode (slice 0 4 b) @ ''-'' @ hex_Encode (slice 4 6 b) @ ''-'' @
     hex_Encode (slice 6 8 b) @ ''-'' @ hex_Encode (slice 8 10 b) @ ''-'' @
     hex_Encode (slice 10 16 b)"

definition newUUID :: "env \<Rightarrow> world \<Rightarrow> string \<times> world" where
  "newUUID e s =
     (let (r, s) = rand_Read e s in
      case r of
        None \<Rightarrow> (sentinel, s)
      | Some bs \<Rightarrow> (format_uuid (set_v4 (fill16 bs)), s))"

text \<open>\<open>SetRandReadForTesting\<close> swaps the random source and returns the previous one.\<close>

definition SetRandReadForTesting ::
  "(nat \<Rightarrow> byte list option) \<Rightarrow> env \<Rightarrow> (nat \<Rightarrow> byte list option) \<times> env" where
  "SetRandReadForTesting next e = (e_rand e, e\<lparr>e_rand := next\<rparr>)"

section \<open>The middleware\<close>

definition CorrelationIDHeader :: string where
  "CorrelationIDHeader = ''X-Correlation-ID''"

definition CorrelationIDFromContext :: "context \<Rightarrow> string" where
  "CorrelationIDFromContext c = (case cx_correlation c of None \<Rightarrow> '''' | Some i \<Rightarrow> i)"

definition CorrelationID :: "env \<Rightarrow> handler \<Rightarrow> handler" where
  "CorrelationID e next r w s =
     (let id0 = hdr_Get (w_reqhdr s) CorrelationIDHeader;
          (cid, s) = (if id0 = '''' then newUUID e s else (id0, s));
          w = on_header (hdr_Set CorrelationIDHeader cid) w;
          ctx = (r_ctx r)\<lparr>cx_correlation := Some cid\<rparr> in
      next (r\<lparr>r_ctx := ctx\<rparr>) w s)"

section \<open>Lemmas\<close>

lemma length_hex_Encode [simp]: "length (hex_Encode bs) = 2 * length bs"
  by (induction bs) (auto simp: hex_Encode_def hex_byte_def)

lemma hex_Encode_simps [simp]:
  "hex_Encode [] = []"
  "hex_Encode (b # bs) = hex_byte b @ hex_Encode bs"
  by (simp_all add: hex_Encode_def)

lemma hex_digits_nth: "n < 16 \<Longrightarrow> hex_digits ! n \<in> set hex_digits"
proof -
  have "length hex_digits = 16" by code_simp
  then show "n < 16 \<Longrightarrow> ?thesis" by simp
qed

lemma hex_digits_inj: "m < 16 \<Longrightarrow> n < 16 \<Longrightarrow> hex_digits ! m = hex_digits ! n \<Longrightarrow> m = n"
proof -
  have "distinct hex_digits" and "length hex_digits = 16" by code_simp+
  then show "m < 16 \<Longrightarrow> n < 16 \<Longrightarrow> hex_digits ! m = hex_digits ! n \<Longrightarrow> m = n"
    by (simp add: nth_eq_iff_index_eq)
qed

lemma unat_byte_less: "unat (b :: byte) < 256"
  using unsigned_less [of b, where ?'a = nat] by simp

lemma hex_byte_set: "set (hex_byte b) \<subseteq> set hex_digits"
proof -
  have "unat b div 16 < 16" "unat b mod 16 < 16" using unat_byte_less [of b] by auto
  then show ?thesis by (simp add: hex_byte_def hex_digits_nth)
qed

lemma hex_Encode_set: "set (hex_Encode bs) \<subseteq> set hex_digits"
  using hex_byte_set by (induction bs) auto

lemma hex_byte_inj: "hex_byte a = hex_byte b \<Longrightarrow> a = b"
proof -
  assume eq: "hex_byte a = hex_byte b"
  have "unat a div 16 < 16" "unat b div 16 < 16" "unat a mod 16 < 16" "unat b mod 16 < 16"
    using unat_byte_less [of a] unat_byte_less [of b] by auto
  moreover have "hex_digits ! (unat a div 16) = hex_digits ! (unat b div 16)"
    and "hex_digits ! (unat a mod 16) = hex_digits ! (unat b mod 16)"
    using eq by (simp_all add: hex_byte_def)
  ultimately have "unat a div 16 = unat b div 16" "unat a mod 16 = unat b mod 16"
    by (metis hex_digits_inj)+
  then have "unat a = unat b" by (metis div_mult_mod_eq)
  then show "a = b" by (simp only: word_unat_eq_iff)
qed

lemma hex_Encode_inj: "hex_Encode as = hex_Encode bs \<Longrightarrow> as = bs"
proof (induction "as" arbitrary: bs)
  case Nil
  then show ?case by (cases bs) (auto simp: hex_byte_def)
next
  case (Cons a as)
  then obtain b bs' where bs: "bs = b # bs'" by (cases bs) (auto simp: hex_byte_def)
  with Cons.prems have "hex_byte a = hex_byte b" "hex_Encode as = hex_Encode bs'"
    by (auto simp: hex_byte_def)
  with Cons.IH bs show ?case using hex_byte_inj by blast
qed

lemma length_fill16 [simp]: "length (fill16 bs) = 16"
  by (simp add: fill16_def)

lemma length_set_v4 [simp]: "length (set_v4 b) = length b"
  by (simp add: set_v4_def)

lemma length_slice [simp]: "length (slice i j xs) = min (j - i) (length xs - i)"
  by (auto simp: slice_def min_def)

lemma length_format_uuid: "length b = 16 \<Longrightarrow> length (format_uuid b) = 36"
  by (simp add: format_uuid_def)

text \<open>The nibbles that carry version and variant.\<close>

lemma version_nibble: "unat ((b AND 0x0f) OR 0x40 :: byte) div 16 = 4"
proof -
  have "drop_bit 4 (unat ((b AND 0x0f) OR 0x40 :: byte)) = 4"
    by (simp add: unsigned_or_eq unsigned_and_eq)
  then show ?thesis by (simp add: drop_bit_eq_div)
qed

lemma variant_nibble: "unat ((b AND 0x3f) OR 0x80 :: byte) div 16 \<in> {8, 9, 10, 11}"
proof -
  have "drop_bit 4 (unat ((b AND 0x3f) OR 0x80 :: byte)) = (drop_bit 4 (unat b) AND 3) OR 8"
    by (simp add: unsigned_or_eq unsigned_and_eq)
  moreover have "drop_bit 4 (unat b) AND 3 \<in> {0, 1, 2, 3}"
  proof -
    have "drop_bit 4 (unat b) AND 3 = take_bit 2 (drop_bit 4 (unat b))"
      by (simp add: take_bit_eq_mask mask_eq_exp_minus_1)
    also have "\<dots> < 4" using take_bit_nat_less_exp [of 2] by simp
    finally show ?thesis by auto
  qed
  ultimately have "drop_bit 4 (unat ((b AND 0x3f) OR 0x80 :: byte)) \<in> {8, 9, 10, 11}"
    by auto
  then show ?thesis by (simp add: drop_bit_eq_div)
qed

text \<open>Sixteen bytes, one by one.\<close>

lemma sixteen:
  assumes "length b = 16"
  shows "b = [b ! 0, b ! 1, b ! 2, b ! 3, b ! 4, b ! 5, b ! 6, b ! 7, b ! 8, b ! 9, b ! 10,
    b ! 11, b ! 12, b ! 13, b ! 14, b ! 15]"
  using assms by (intro nth_equalityI) (auto simp: nth_Cons' less_Suc_eq numeral_eq_Suc)

text \<open>The shape of a version 4 UUID in lower-case 8-4-4-4-12 form.\<close>

definition is_uuid_v4 :: "string \<Rightarrow> bool" where
  "is_uuid_v4 u =
     (length u = 36 \<and> list_all (\<lambda>i. u ! i = CHR ''-'') [8, 13, 18, 23] \<and>
      u ! 14 = CHR ''4'' \<and> u ! 19 \<in> set ''89ab'' \<and>
      list_all (\<lambda>i. u ! i \<in> set hex_digits)
        ([0..<8] @ [9..<13] @ [14..<18] @ [19..<23] @ [24..<36]))"

lemma format_uuid_v4:
  assumes "length b = 16"
  shows "is_uuid_v4 (format_uuid (set_v4 b))"
proof -
  obtain b0 b1 b2 b3 b4 b5 b6 b7 b8 b9 b10 b11 b12 b13 b14 b15 where
    b: "b = [b0, b1, b2, b3, b4, b5, b6, b7, b8, b9, b10, b11, b12, b13, b14, b15]"
    using sixteen [OF assms] by blast
  let ?v = "(b6 AND 0x0f) OR 0x40" and ?w = "(b8 AND 0x3f) OR 0x80"
  have nib: "hex_digits ! (unat x div 16) \<in> set hex_digits"
    "hex_digits ! (unat x mod 16) \<in> set hex_digits" for x :: byte
    using unat_byte_less [of x] by (auto intro: hex_digits_nth)
  have v: "hex_digits ! (unat ?v div 16) = CHR ''4''"
    by (simp only: version_nibble) code_simp
  have four: "CHR ''4'' \<in> set hex_digits" by code_simp
  have w: "hex_digits ! (unat ?w div 16) \<in> set ''89ab''"
    using variant_nibble [of b8] by (auto simp: hex_digits_def)
  have "format_uuid (set_v4 b) = concat (map hex_byte [b0, b1, b2, b3]) @ ''-'' @
     concat (map hex_byte [b4, b5]) @ ''-'' @ concat (map hex_byte [?v, b7]) @ ''-'' @
     concat (map hex_byte [?w, b9]) @ ''-'' @
     concat (map hex_byte [b10, b11, b12, b13, b14, b15])"
    by (simp add: b format_uuid_def set_v4_def slice_def hex_Encode_def)
  then show ?thesis
    using v w four by (simp add: is_uuid_v4_def hex_byte_def nib upt_rec)
qed

lemma sentinel_v4: "is_uuid_v4 sentinel"
  by code_simp

lemma hex_byte_inj_iff: "hex_byte x = hex_byte y \<longleftrightarrow> x = y"
  using hex_byte_inj by blast

lemma hex_byte_append_eq [simp]:
  "hex_byte x @ s = hex_byte y @ t \<longleftrightarrow> x = y \<and> s = t"
proof -
  have "length (hex_byte x) = length (hex_byte y)" by (simp add: hex_byte_def)
  then show ?thesis using hex_byte_inj by auto
qed

lemma format_uuid_inj:
  assumes "length a = 16" and "length b = 16" and "format_uuid a = format_uuid b"
  shows "a = b"
proof -
  obtain a0 a1 a2 a3 a4 a5 a6 a7 a8 a9 a10 a11 a12 a13 a14 a15 where
    a: "a = [a0, a1, a2, a3, a4, a5, a6, a7, a8, a9, a10, a11, a12, a13, a14, a15]"
    using sixteen [OF assms(1)] by blast
  obtain b0 b1 b2 b3 b4 b5 b6 b7 b8 b9 b10 b11 b12 b13 b14 b15 where
    b: "b = [b0, b1, b2, b3, b4, b5, b6, b7, b8, b9, b10, b11, b12, b13, b14, b15]"
    using sixteen [OF assms(2)] by blast
  from assms(3) show ?thesis
    by (simp add: a b format_uuid_def slice_def hex_byte_inj_iff)
qed

text \<open>The fixed bits hide nothing else: what \<open>set_v4\<close> keeps of the 16 bytes.\<close>

definition same_free_bits :: "byte list \<Rightarrow> byte list \<Rightarrow> bool" where
  "same_free_bits a b =
     (list_all (\<lambda>i. a ! i = b ! i) [0, 1, 2, 3, 4, 5, 7, 9, 10, 11, 12, 13, 14, 15] \<and>
      a ! 6 AND 0x0f = b ! 6 AND 0x0f \<and> a ! 8 AND 0x3f = b ! 8 AND 0x3f)"

lemma masked_eq_iff:
  "(x AND 0x0f) OR 0x40 = (y AND 0x0f) OR (0x40 :: byte) \<longleftrightarrow> x AND 0x0f = y AND 0x0f"
  "(x AND 0x3f) OR 0x80 = (y AND 0x3f) OR (0x80 :: byte) \<longleftrightarrow> x AND 0x3f = y AND 0x3f"
proof -
  have "((z AND 0x0f) OR 0x40) AND 0x0f = z AND (0x0f :: byte)" for z
    by (simp add: bit.conj_disj_distrib2 and.assoc)
  then show "(x AND 0x0f) OR 0x40 = (y AND 0x0f) OR (0x40 :: byte) \<longleftrightarrow> x AND 0x0f = y AND 0x0f"
    by metis
  have "((z AND 0x3f) OR 0x80) AND 0x3f = z AND (0x3f :: byte)" for z
    by (simp add: bit.conj_disj_distrib2 and.assoc)
  then show "(x AND 0x3f) OR 0x80 = (y AND 0x3f) OR (0x80 :: byte) \<longleftrightarrow> x AND 0x3f = y AND 0x3f"
    by metis
qed

lemma set_v4_eq_iff:
  assumes "length a = 16" and "length b = 16"
  shows "set_v4 a = set_v4 b \<longleftrightarrow> same_free_bits a b"
proof -
  obtain a0 a1 a2 a3 a4 a5 a6 a7 a8 a9 a10 a11 a12 a13 a14 a15 where
    a: "a = [a0, a1, a2, a3, a4, a5, a6, a7, a8, a9, a10, a11, a12, a13, a14, a15]"
    using sixteen [OF assms(1)] by blast
  obtain b0 b1 b2 b3 b4 b5 b6 b7 b8 b9 b10 b11 b12 b13 b14 b15 where
    b: "b = [b0, b1, b2, b3, b4, b5, b6, b7, b8, b9, b10, b11, b12, b13, b14, b15]"
    using sixteen [OF assms(2)] by blast
  show ?thesis
    by (auto simp: a b set_v4_def same_free_bits_def masked_eq_iff)
qed

section \<open>The middleware keeps the handler contract\<close>

lemma resolve_header:
  obtains cid s1 where
    "CorrelationID e next r w s =
       next (r\<lparr>r_ctx := (r_ctx r)\<lparr>cx_correlation := Some cid\<rparr>\<rparr>)
         (on_header (hdr_Set CorrelationIDHeader cid) w) s1"
    and "if hdr_Get (w_reqhdr s) CorrelationIDHeader = ''''
         then newUUID e s = (cid, s1)
         else cid = hdr_Get (w_reqhdr s) CorrelationIDHeader \<and> s1 = s"
proof (cases "hdr_Get (w_reqhdr s) CorrelationIDHeader = ''''")
  case True
  obtain cid s1 where "newUUID e s = (cid, s1)" by fastforce
  with True that [of cid s1] show ?thesis by (simp add: CorrelationID_def)
next
  case False
  with that [of "hdr_Get (w_reqhdr s) CorrelationIDHeader" s] show ?thesis
    by (simp add: CorrelationID_def Let_def)
qed

interpretation correlation: middleware "CorrelationID e" for e
proof unfold_locales
  fix nxt r w s out w' s'
  assume nxt: "http_handler nxt" and run: "CorrelationID e nxt r w s = (out, w', s')"
  obtain cid s1 where "CorrelationID e nxt r w s =
      nxt (r\<lparr>r_ctx := (r_ctx r)\<lparr>cx_correlation := Some cid\<rparr>\<rparr>)
        (on_header (hdr_Set CorrelationIDHeader cid) w) s1"
    using resolve_header by metis
  then obtain ops where "w' = run_ops ops (on_header (hdr_Set CorrelationIDHeader cid) w)"
    using http_handler.only_calls [OF nxt] run by metis
  then have "w' = run_ops (OpHeader (hdr_Set CorrelationIDHeader cid) # ops) w" by simp
  then show "\<exists>ops. w' = run_ops ops w" by blast
qed

section \<open>Properties\<close>

lemma newUUID_v4: "is_uuid_v4 (fst (newUUID e s))"
  by (auto simp: newUUID_def rand_Read_def sentinel_v4 format_uuid_v4 split: option.splits)

lemma newUUID_well_formed_facts:
  "is_uuid_v4 (fst (newUUID e s))" "w_reqhdr (snd (newUUID e s)) = w_reqhdr s"
  using newUUID_v4 [of e s] by (auto simp: newUUID_def rand_Read_def split: option.splits)

lemma is_uuid_v4_nonempty: "is_uuid_v4 u \<Longrightarrow> u \<noteq> ''''"
  by (auto simp: is_uuid_v4_def)

text \<open>C27: every minted ID, the sentinel included, is a version 4 UUID: 36 bytes, hyphens after
  8, 12, 16 and 20 digits, lower-case hexadecimal elsewhere, version digit 4 and variant
  digit 8, 9, a or b, whatever the random source delivers.\<close>

theorem newUUID_well_formed:
  "is_uuid_v4 (fst (newUUID e s)) \<and> snd (newUUID e s) = s\<lparr>w_draws := Suc (w_draws s)\<rparr>"
  using newUUID_v4 [of e s] by (simp add: newUUID_def rand_Read_def split: option.splits)

text \<open>The fixed bits are the only loss: two successful draws give the same ID exactly when
  they agree on the 122 bits that are not version or variant.\<close>

theorem newUUID_collision:
  assumes "e_rand e (w_draws s) = Some as" and "e_rand e (w_draws t) = Some bs"
  shows "fst (newUUID e s) = fst (newUUID e t) \<longleftrightarrow> same_free_bits (fill16 as) (fill16 bs)"
proof -
  have "fst (newUUID e s) = fst (newUUID e t) \<longleftrightarrow>
      format_uuid (set_v4 (fill16 as)) = format_uuid (set_v4 (fill16 bs))"
    using assms by (simp add: newUUID_def rand_Read_def)
  also have "\<dots> \<longleftrightarrow> set_v4 (fill16 as) = set_v4 (fill16 bs)"
    using format_uuid_inj [of "set_v4 (fill16 as)" "set_v4 (fill16 bs)"] by auto
  also have "\<dots> \<longleftrightarrow> same_free_bits (fill16 as) (fill16 bs)"
    by (simp add: set_v4_eq_iff)
  finally show ?thesis .
qed

definition quiet_world :: world where
  "quiet_world =
     \<lparr>w_reqhdr = Map.empty, w_ticks = 0, w_draws = 0, w_sent = [], w_spans = 0, w_otel = [],
      w_metrics = [], w_stdout = [], w_readyState = 0, w_current = None,
      w_globals = no_globals\<rparr>"

text \<open>An environment whose clock advances 1.5 ms per reading, whose random bytes are the draw's
  number repeated, and whose backends answer 200 with a fixed body.\<close>

definition demo_env :: env where
  "demo_env =
     \<lparr>e_now = (\<lambda>n. 1500000 * int n),
      e_rand = (\<lambda>n. Some (replicate 16 (word_of_nat n))),
      e_backend = (\<lambda>n t q. Inr \<lparr>rs_StatusCode = 200, rs_Status = ''200 OK'',
         rs_Header = Map.empty, rs_Body = ''ok'', rs_copy_fails = False\<rparr>),
      e_extract = (\<lambda>sc h. sc), e_start = (\<lambda>n sc. sc), e_inject = (\<lambda>sc h. h),
      e_rfc3339 = (\<lambda>t. ''1970-01-01T00:00:00Z''), e_float = (\<lambda>q. ''1.5''),
      e_duration = (\<lambda>d. ''5s''), e_IsPrint = (\<lambda>u. True)\<rparr>"

definition demo_request :: "string \<Rightarrow> string \<Rightarrow> request" where
  "demo_request meth path =
     \<lparr>r_Method = meth, r_URL = empty_url\<lparr>u_path := path\<rparr>, r_Host = ''gw'',
      r_RemoteAddr = ''10.0.0.1:4711'', r_RequestURI = path, r_Body = '''',
      r_ctx = \<lparr>cx_correlation = None, cx_span = no_span\<rparr>\<rparr>"

theorem newUUID_collision_witness:
  "fst (newUUID demo_env quiet_world) \<noteq> fst (newUUID demo_env (quiet_world\<lparr>w_draws := 1\<rparr>))"
proof -
  have a: "e_rand demo_env (w_draws quiet_world) = Some (replicate 16 0)"
    by (simp add: demo_env_def quiet_world_def)
  have b: "e_rand demo_env (w_draws (quiet_world\<lparr>w_draws := 1\<rparr>)) = Some (replicate 16 1)"
    by (simp add: demo_env_def)
  have "\<not> same_free_bits (fill16 (replicate 16 0)) (fill16 (replicate 16 1))"
    by (simp add: same_free_bits_def fill16_def)
  with newUUID_collision [OF a b] show ?thesis by blast
qed

text \<open>C26: the middleware runs the inner handler once, with a non-empty ID in the request context
  and the same ID set on the response: the inbound header's value when there is one, else a
  freshly minted UUID; the request's own headers are left alone.\<close>

theorem CorrelationID_resolves:
  "\<exists>cid s1.
     CorrelationID e next r w s =
       next (r\<lparr>r_ctx := (r_ctx r)\<lparr>cx_correlation := Some cid\<rparr>\<rparr>)
         (on_header (hdr_Set CorrelationIDHeader cid) w) s1 \<and>
     cid \<noteq> '''' \<and> w_reqhdr s1 = w_reqhdr s \<and>
     (if hdr_Get (w_reqhdr s) CorrelationIDHeader = '''' then is_uuid_v4 cid
      else cid = hdr_Get (w_reqhdr s) CorrelationIDHeader)"
proof -
  obtain cid s1 where run: "CorrelationID e next r w s =
      next (r\<lparr>r_ctx := (r_ctx r)\<lparr>cx_correlation := Some cid\<rparr>\<rparr>)
        (on_header (hdr_Set CorrelationIDHeader cid) w) s1"
    and res: "if hdr_Get (w_reqhdr s) CorrelationIDHeader = '''' then newUUID e s = (cid, s1)
      else cid = hdr_Get (w_reqhdr s) CorrelationIDHeader \<and> s1 = s"
    by (rule resolve_header)
  have "cid \<noteq> '''' \<and> w_reqhdr s1 = w_reqhdr s \<and>
     (if hdr_Get (w_reqhdr s) CorrelationIDHeader = '''' then is_uuid_v4 cid
      else cid = hdr_Get (w_reqhdr s) CorrelationIDHeader)"
  proof (cases "hdr_Get (w_reqhdr s) CorrelationIDHeader = ''''")
    case True
    with res newUUID_well_formed_facts [of e s] show ?thesis
      by (auto dest: is_uuid_v4_nonempty)
  next
    case False
    with res show ?thesis by simp
  qed
  with run show ?thesis by blast
qed

end
