(* ===== verification/Json.thy ===== *)
theory Json
  imports Url
begin

text \<open>
  Go's \<open>encoding/json\<close> as the gateway writes it: \<open>json.NewEncoder(w).Encode(v)\<close> produces the
  compact text of \<open>v\<close> and a newline in one \<open>Write\<close>. Strings are escaped with HTML escaping on:
  control bytes, quotes, backslashes, angle brackets and ampersands become escapes, bytes
  that are not UTF-8 become U+FFFD.
\<close>

section \<open>UTF-8\<close>

text \<open>The length of the UTF-8 sequence at the head of a string whose first byte is not ASCII, as
  \<open>utf8.DecodeRuneInString\<close> accepts it; \<open>None\<close> is its \<open>RuneError\<close> of width 1.\<close>

definition cont_byte :: "char \<Rightarrow> bool" where
  "cont_byte c = (128 \<le> byte_of c \<and> byte_of c \<le> 191)"

definition second_ok :: "nat \<Rightarrow> nat \<Rightarrow> bool" where
  "second_ok b0 b1 =
     ((if b0 = 224 then 160 else if b0 = 240 then 144 else 128) \<le> b1 \<and>
      b1 \<le> (if b0 = 237 then 159 else if b0 = 244 then 143 else 191))"

definition rune_len :: "string \<Rightarrow> nat option" where
  "rune_len s =
     (case s of
        [] \<Rightarrow> None
      | c # t \<Rightarrow>
          (let b0 = byte_of c in
           if b0 < 128 then Some 1
           else if 194 \<le> b0 \<and> b0 \<le> 223 then
             (case t of c1 # _ \<Rightarrow> if cont_byte c1 then Some 2 else None | _ \<Rightarrow> None)
           else if 224 \<le> b0 \<and> b0 \<le> 239 then
             (case t of c1 # c2 # _ \<Rightarrow>
                if second_ok b0 (byte_of c1) \<and> cont_byte c2 then Some 3 else None | _ \<Rightarrow> None)
           else if 240 \<le> b0 \<and> b0 \<le> 244 then
             (case t of c1 # c2 # c3 # _ \<Rightarrow>
                if second_ok b0 (byte_of c1) \<and> cont_byte c2 \<and> cont_byte c3 then Some 4
                else None | _ \<Rightarrow> None)
           else None))"

section \<open>Values and their text\<close>

text \<open>A number is kept as its text.\<close>

datatype json =
    JStr string
  | JNum string
  | JArr "json list"
  | JObj "(string \<times> json) list"

definition lowerhex :: string where
  "lowerhex = ''0123456789abcdef''"

definition backslash :: char where
  "backslash = CHR 0x5C"

definition quote :: char where
  "quote = CHR 0x22"

definition newline :: char where
  "newline = CHR 0x0A"

definition hex4 :: "nat \<Rightarrow> string" where
  "hex4 n = [backslash, CHR ''u'', lowerhex ! (n div 4096 mod 16), lowerhex ! (n div 256 mod 16),
             lowerhex ! (n div 16 mod 16), lowerhex ! (n mod 16)]"

text \<open>One ASCII byte.\<close>

definition ascii_escape :: "char \<Rightarrow> string" where
  "ascii_escape c =
     (if c = backslash \<or> c = quote then [backslash, c]
      else if c = newline then [backslash, CHR ''n'']
      else if c = CHR 0x0D then [backslash, CHR ''r'']
      else if c = CHR 0x09 then [backslash, CHR ''t'']
      else if byte_of c < 32 \<or> c \<in> set ''<>&'' then hex4 (byte_of c)
      else [c])"

text \<open>The body of a string literal; U+2028 and U+2029 are the two escaped runes.\<close>

function string_body :: "string \<Rightarrow> string" where
  "string_body [] = []"
| "string_body (c # s) =
     (if byte_of c < 128 then ascii_escape c @ string_body s
      else case rune_len (c # s) of
             None \<Rightarrow> hex4 65533 @ string_body s
           | Some n \<Rightarrow>
               (if take n (c # s) = [CHR 0xE2, CHR 0x80, CHR 0xA8] then hex4 8232
                else if take n (c # s) = [CHR 0xE2, CHR 0x80, CHR 0xA9] then hex4 8233
                else take n (c # s)) @ string_body (drop (n - 1) s))"
  by pat_completeness auto
termination
  by (relation "measure length") (auto simp: le_imp_less_Suc)

definition json_string :: "string \<Rightarrow> string" where
  "json_string s = quote # string_body s @ [quote]"

fun render :: "json \<Rightarrow> string"
and render_fields :: "(string \<times> json) list \<Rightarrow> string"
and render_items :: "json list \<Rightarrow> string" where
  "render (JStr s) = json_string s"
| "render (JNum t) = t"
| "render (JArr xs) = ''['' @ render_items xs @ '']''"
| "render (JObj fs) = ''{'' @ render_fields fs @ ''}''"
| "render_fields [] = ''''"
| "render_fields ((k, v) # fs) =
     json_string k @ '':'' @ render v @ (if fs = [] then '''' else '','' @ render_fields fs)"
| "render_items [] = ''''"
| "render_items (v # vs) = render v @ (if vs = [] then '''' else '','' @ render_items vs)"

text \<open>\<open>json.NewEncoder(w).Encode(v)\<close>.\<close>

definition Encode :: "json \<Rightarrow> string" where
  "Encode v = render v @ [newline]"

section \<open>No control bytes in the text\<close>

text \<open>Bytes that may stand in one log line: nothing below the space.\<close>

definition printable :: "string \<Rightarrow> bool" where
  "printable s = list_all (\<lambda>c. 32 \<le> byte_of c) s"

lemma printable_simps [simp]:
  "printable []"
  "printable (c # s) \<longleftrightarrow> 32 \<le> byte_of c \<and> printable s"
  "printable (s @ t) \<longleftrightarrow> printable s \<and> printable t"
  by (auto simp: printable_def)

lemma lowerhex_printable: "n < 16 \<Longrightarrow> 32 \<le> byte_of (lowerhex ! n)"
proof -
  assume "n < 16"
  moreover have "length lowerhex = 16" by code_simp
  ultimately have "lowerhex ! n \<in> set lowerhex" by simp
  moreover have "list_all (\<lambda>c. 32 \<le> byte_of c) lowerhex" by code_simp
  ultimately show ?thesis by (simp add: list_all_iff)
qed

lemma hex4_printable [simp]: "printable (hex4 n)"
proof -
  have "32 \<le> byte_of backslash" "32 \<le> byte_of (CHR ''u'')" by code_simp+
  then show ?thesis by (simp add: hex4_def lowerhex_printable)
qed

lemma ascii_escape_printable [simp]: "printable (ascii_escape c)"
proof -
  have "32 \<le> byte_of backslash" "32 \<le> byte_of quote"
    "32 \<le> byte_of (CHR ''n'')" "32 \<le> byte_of (CHR ''r'')" "32 \<le> byte_of (CHR ''t'')"
    by code_simp+
  then show ?thesis by (auto simp: ascii_escape_def not_less)
qed

lemma rune_printable:
  assumes "rune_len (c # s) = Some n" and "128 \<le> byte_of c"
  shows "printable (take n (c # s))"
proof -
  have cont: "cont_byte x \<Longrightarrow> 32 \<le> byte_of x" for x by (simp add: cont_byte_def)
  have second: "second_ok b (byte_of x) \<Longrightarrow> 32 \<le> byte_of x" for b x
    by (auto simp: second_ok_def split: if_splits)
  from assms show ?thesis
    by (auto simp: rune_len_def Let_def cont second split: if_splits list.splits)
qed

lemma string_body_printable [simp]: "printable (string_body s)"
proof (induction s rule: string_body.induct)
  case 1
  show ?case by simp
next
  case (2 c s)
  then show ?case
    by (auto simp: rune_printable not_less simp del: take_Suc_Cons split: option.splits)
qed

lemma json_string_printable [simp]: "printable (json_string s)"
proof -
  have "32 \<le> byte_of quote" by code_simp
  then show ?thesis by (simp add: json_string_def)
qed

text \<open>Numbers whose text is printable keep the whole value printable.\<close>

fun nums_printable :: "json \<Rightarrow> bool" where
  "nums_printable (JStr s) = True"
| "nums_printable (JNum t) = printable t"
| "nums_printable (JArr xs) = list_all nums_printable xs"
| "nums_printable (JObj fs) = list_all (\<lambda>kv. nums_printable (snd kv)) fs"

lemma render_printable:
  "nums_printable v \<Longrightarrow> printable (render v)"
  "list_all (\<lambda>kv. nums_printable (snd kv)) fs \<Longrightarrow> printable (render_fields fs)"
  "list_all nums_printable vs \<Longrightarrow> printable (render_items vs)"
proof (induction v and fs and vs rule: render_render_fields_render_items.induct)
qed (auto simp: byte_of_def)

text \<open>One \<open>Encode\<close> is one line: its only byte below the space is the newline that ends it.\<close>

lemma Encode_one_line: "nums_printable v \<Longrightarrow> \<exists>t. Encode v = t @ [newline] \<and> printable t"
  by (auto simp: Encode_def render_printable)

end
