(* ===== verification/AccessLog.thy ===== *)
theory AccessLog
  imports Correlation Json
begin

text \<open>
  \<open>internal/middleware/accesslog.go\<close>: one JSON line per served request on the structured log.
  The line is written with one \<open>Write\<close> under the middleware's mutex, so an item of
  \<open>w_stdout\<close> is one line.
\<close>

section \<open>The entry\<close>

record accessAttrs =
  aa_Method :: string
  aa_Path :: string
  aa_Status :: int
  aa_DurationMS :: rat
  aa_Route :: string
  aa_CorrelationID :: string
  aa_TraceID :: string
  aa_SpanID :: string

record accessEntry =
  ae_Time :: string
  ae_Level :: string
  ae_Msg :: string
  ae_Attrs :: accessAttrs

text \<open>\<open>strconv.Itoa\<close>, which is also how \<open>encoding/json\<close> writes an integer.\<close>

fun digits_of :: "nat \<Rightarrow> string" where
  "digits_of n =
     (if n < 10 then [char_of (48 + n)] else digits_of (n div 10) @ [char_of (48 + n mod 10)])"

declare digits_of.simps [simp del]

definition Itoa :: "int \<Rightarrow> string" where
  "Itoa i = (if i < 0 then CHR ''-'' # digits_of (nat (- i)) else digits_of (nat i))"

text \<open>\<open>omitempty\<close> on a string field.\<close>

definition omitempty :: "string \<Rightarrow> string \<Rightarrow> (string \<times> json) list" where
  "omitempty k v = (if v = '''' then [] else [(k, JStr v)])"

definition attrs_json :: "env \<Rightarrow> accessAttrs \<Rightarrow> json" where
  "attrs_json e a =
     JObj ([(''method'', JStr (aa_Method a)),
            (''path'', JStr (aa_Path a)),
            (''status'', JNum (Itoa (aa_Status a))),
            (''duration_ms'', JNum (e_float e (aa_DurationMS a)))] @
           omitempty ''route'' (aa_Route a) @
           omitempty ''correlation_id'' (aa_CorrelationID a) @
           omitempty ''trace_id'' (aa_TraceID a) @
           omitempty ''span_id'' (aa_SpanID a))"

definition entry_json :: "env \<Rightarrow> accessEntry \<Rightarrow> json" where
  "entry_json e a =
     JObj [(''time'', JStr (ae_Time a)),
           (''level'', JStr (ae_Level a)),
           (''msg'', JStr (ae_Msg a)),
           (''attrs'', attrs_json e (ae_Attrs a))]"

section \<open>The middleware\<close>

definition fresh_recorder :: statusRecorder where
  "fresh_recorder = \<lparr>sr_status = 200, sr_wroteHeader = False, sr_route = ''''\<rparr>"

text \<open>\<open>wrapped\<close> after the inner handler returned: the recorder the closure still points to.\<close>

fun recorder_of :: "writer \<Rightarrow> statusRecorder" where
  "recorder_of (AccessRec s w) = s"
| "recorder_of _ = fresh_recorder"

definition access_attrs ::
  "request \<Rightarrow> statusRecorder \<Rightarrow> int \<Rightarrow> accessAttrs" where
  "access_attrs r wrapped elapsed =
     (let sc = cx_span (r_ctx r) in
      \<lparr>aa_Method = r_Method r,
       aa_Path = u_path (r_URL r),
       aa_Status = sr_status wrapped,
       aa_DurationMS = of_int elapsed / 1000000,
       aa_Route = sr_route wrapped,
       aa_CorrelationID = CorrelationIDFromContext (r_ctx r),
       aa_TraceID = (if sc_IsValid sc then hex_Encode (sc_TraceID sc) else ''''),
       aa_SpanID = (if sc_IsValid sc then hex_Encode (sc_SpanID sc) else '''')\<rparr>)"

definition access_line ::
  "env \<Rightarrow> request \<Rightarrow> statusRecorder \<Rightarrow> int \<Rightarrow> int \<Rightarrow> string" where
  "access_line e r wrapped start stop =
     Encode (entry_json e
       \<lparr>ae_Time = e_rfc3339 e start, ae_Level = ''info'', ae_Msg = ''gateway.access'',
        ae_Attrs = access_attrs r wrapped (stop - start)\<rparr>)"

definition AccessLog :: "env \<Rightarrow> handler \<Rightarrow> handler" where
  "AccessLog e next r w s =
     (let (start, s) = time_Now e s;
          (out, wrapped, s) = next r (AccessRec fresh_recorder w) s in
      case out of
        Panicked \<Rightarrow> (Panicked, under_writer wrapped, s)
      | Returned \<Rightarrow>
          (let (stop, s) = time_Now e s in
           (Returned, under_writer wrapped,
            s\<lparr>w_stdout := w_stdout s @ [access_line e r (recorder_of wrapped) start stop]\<rparr>)))"

section \<open>Lemmas\<close>

lemma digits_of_digits: "set (digits_of n) \<subseteq> char_of ` {48..57 :: nat}"
proof (induction n rule: digits_of.induct)
  case (1 n)
  then show ?case by (subst digits_of.simps) auto
qed

lemma char_of_digit_ge: "n \<in> {48..57 :: nat} \<Longrightarrow> 32 \<le> byte_of (char_of n)"
  by (auto simp: byte_of_def)

lemma Itoa_printable [simp]: "printable (Itoa i)"
proof -
  have "printable (digits_of n)" for n
    using digits_of_digits [of n] char_of_digit_ge by (auto simp: printable_def list_all_iff)
  moreover have "32 \<le> byte_of (CHR ''-'')" by code_simp
  ultimately show ?thesis by (simp add: Itoa_def)
qed

lemma access_line_one_line:
  assumes "\<And>q. printable (e_float e q)"
  shows "\<exists>t. access_line e r sr start stop = t @ [newline] \<and> printable t"
  unfolding access_line_def
  by (rule Encode_one_line)
    (auto simp: entry_json_def attrs_json_def omitempty_def assms)

text \<open>What one run does to the writer and the log.\<close>

lemma AccessLog_run:
  assumes "http_handler nxt" and "AccessLog e nxt r w s = (out, w', s')"
  obtains sr ops s1 where
    "nxt r (AccessRec fresh_recorder w) (s\<lparr>w_ticks := Suc (w_ticks s)\<rparr>)
       = (out, AccessRec sr (run_ops ops w), s1)"
    and "w' = run_ops ops w"
    and "s' = (case out of Panicked \<Rightarrow> s1 | Returned \<Rightarrow>
           s1\<lparr>w_ticks := Suc (w_ticks s1),
              w_stdout := w_stdout s1 @
                [access_line e r sr (e_now e (w_ticks s)) (e_now e (w_ticks s1))]\<rparr>)"
proof -
  obtain out1 w1 s1 where n:
    "nxt r (AccessRec fresh_recorder w) (s\<lparr>w_ticks := Suc (w_ticks s)\<rparr>) = (out1, w1, s1)"
    by (metis prod_cases3)
  obtain sr ops where w1: "w1 = AccessRec sr (run_ops ops w)"
    using http_handler.on_access [OF assms(1) n] by blast
  from assms(2) n w1 have "out = out1 \<and> w' = run_ops ops w \<and>
    s' = (case out1 of Panicked \<Rightarrow> s1 | Returned \<Rightarrow>
           s1\<lparr>w_ticks := Suc (w_ticks s1),
              w_stdout := w_stdout s1 @
                [access_line e r sr (e_now e (w_ticks s)) (e_now e (w_ticks s1))]\<rparr>)"
    by (auto simp: AccessLog_def time_Now_def split: outcome.splits)
  with n w1 that show thesis by blast
qed

interpretation access: middleware "AccessLog e" for e
  by unfold_locales (metis AccessLog_run)

lemma fresh_recorder_in_step:
  "in_step w \<Longrightarrow> \<not> header_sent w \<Longrightarrow> in_step (AccessRec fresh_recorder w)"
  by (simp add: fresh_recorder_def in_step_unsent)

section \<open>Properties\<close>

text \<open>A handler for the witnesses: it stamps a route, answers 404 and tries 200 after that.\<close>

definition demo_handler :: handler where
  "demo_handler r w s =
     (Returned, WriteHeader (WriteHeader (stamp_route w ''/decide'') 404) 200, s)"

lemma demo_handler_contract: "http_handler demo_handler"
  by (rule http_handlerI)
    (auto simp: demo_handler_def
      intro!: exI [of _ "[OpStamp ''/decide'', OpWriteHeader 404, OpWriteHeader 200]"])

text \<open>A request the inner handler answers is logged with exactly one line, the last one
  written, and the status in it is the status the client gets, whichever calls the handler
  made and in whatever order.\<close>

theorem access_log_status_is_clients:
  assumes "http_handler next" and "in_step w" and "\<not> header_sent w"
    and "AccessLog e next r w s = (Returned, w', s')"
  shows "\<exists>sr t0 t1 s1.
    next r (AccessRec fresh_recorder w) (s\<lparr>w_ticks := Suc (w_ticks s)\<rparr>)
      = (Returned, AccessRec sr w', s1) \<and>
    w_stdout s' = w_stdout s1 @ [access_line e r sr t0 t1] \<and>
    sr_status sr = (if cn_wrote (conn_of w') then cn_status (conn_of w') else 200)"
proof -
  obtain sr ops s1 where n:
    "next r (AccessRec fresh_recorder w) (s\<lparr>w_ticks := Suc (w_ticks s)\<rparr>)
       = (Returned, AccessRec sr (run_ops ops w), s1)"
    and w': "w' = run_ops ops w"
    and s': "s' = s1\<lparr>w_ticks := Suc (w_ticks s1), w_stdout := w_stdout s1 @
                [access_line e r sr (e_now e (w_ticks s)) (e_now e (w_ticks s1))]\<rparr>"
    using AccessLog_run [OF assms(1,4)] by auto
  have "in_step (AccessRec sr w')"
    using http_handler.keeps_in_step [OF assms(1) n] fresh_recorder_in_step [OF assms(2,3)] w'
    by simp
  then have "sr_status sr = (if cn_wrote (conn_of w') then cn_status (conn_of w') else 200)"
    using in_step_conn [of w'] by simp
  with n w' s' show ?thesis by auto
qed

theorem access_log_status_is_clients_witness:
  "\<exists>sr t0 t1. w_stdout (snd (snd (AccessLog demo_env demo_handler (demo_request ''GET'' ''/x'')
       (Conn new_conn) quiet_world)))
       = [access_line demo_env (demo_request ''GET'' ''/x'') sr t0 t1] \<and> sr_status sr = 404"
proof -
  let ?r = "demo_request ''GET'' ''/x''"
  let ?c = "conn_WriteHeader new_conn 404"
  obtain s' where run: "AccessLog demo_env demo_handler ?r (Conn new_conn) quiet_world =
      (Returned, Conn ?c, s')"
    by (simp add: AccessLog_def time_Now_def demo_handler_def stamp_route_def method_defs
        fresh_recorder_def)
  have w: "in_step (Conn new_conn)" "\<not> header_sent (Conn new_conn)"
    by (simp_all add: new_conn_def)
  from access_log_status_is_clients [OF demo_handler_contract w run] obtain sr t0 t1 s1 where
    n: "demo_handler ?r (AccessRec fresh_recorder (Conn new_conn))
         (quiet_world\<lparr>w_ticks := Suc (w_ticks quiet_world)\<rparr>) = (Returned, AccessRec sr (Conn ?c), s1)"
    and out: "w_stdout s' = w_stdout s1 @ [access_line demo_env ?r sr t0 t1]"
    and st: "sr_status sr = (if cn_wrote ?c then cn_status ?c else 200)"
    by auto
  have "w_stdout s1 = []" using n by (auto simp: demo_handler_def quiet_world_def)
  moreover have "sr_status sr = 404" using st by (simp add: conn_WriteHeader_def new_conn_def)
  ultimately show ?thesis using out run by auto
qed

text \<open>C29: a log record cannot be forged from inside a request: whatever bytes the method, the
  path, the route and the correlation ID hold, the text of an entry is one line whose only
  byte below the space is the newline that ends it.\<close>

theorem access_line_no_injection:
  assumes "\<And>q. printable (e_float e q)"
  shows "\<exists>t. access_line e r sr t0 t1 = t @ [newline] \<and> list_all (\<lambda>c. 32 \<le> byte_of c) t"
  using access_line_one_line [OF assms] by (simp add: printable_def)

theorem access_line_no_injection_witness:
  "\<exists>t. access_line demo_env (demo_request ''GET'' (''/x'' @ [newline] @ ''forged'')) fresh_recorder 0 9
     = t @ [newline] \<and> list_all (\<lambda>c. 32 \<le> byte_of c) t"
proof -
  have "printable (e_float demo_env q)" for q
    unfolding demo_env_def by (simp, code_simp)
  then show ?thesis by (rule access_line_no_injection)
qed

text \<open>A handler that panics leaves no access line: the entry is written after the inner
  handler returns and nothing is deferred.\<close>

theorem access_log_silent_on_panic:
  assumes "next r (AccessRec fresh_recorder w) (s\<lparr>w_ticks := Suc (w_ticks s)\<rparr>) = (Panicked, w1, s1)"
  shows "AccessLog e next r w s = (Panicked, under_writer w1, s1)"
  using assms by (simp add: AccessLog_def time_Now_def)

theorem access_log_silent_on_panic_witness:
  "AccessLog demo_env (\<lambda>r w s. (Panicked, w, s)) (demo_request ''GET'' ''/x'') (Conn new_conn)
     quiet_world = (Panicked, Conn new_conn, quiet_world\<lparr>w_ticks := 1\<rparr>)"
  by (subst access_log_silent_on_panic) (auto simp: quiet_world_def)

end
