(* ===== verification/Metrics.thy ===== *)
theory Metrics
  imports AccessLog
begin

text \<open>
  \<open>internal/observability/metrics/metrics.go\<close>: the Prometheus instrumentation. The client
  library is not under \<open>src/\<close>: a \<open>Sink\<close> is the descriptions the code hands to it, and a
  call on a counter or histogram is an event in \<open>w_metrics\<close>.
\<close>

section \<open>The sink\<close>

record metric_desc =
  md_name :: string
  md_help :: string
  md_buckets :: "rat list"
  md_labels :: "string list"

record Sink =
  sk_count :: metric_desc
  sk_dur :: metric_desc

definition gatewayBuckets :: "rat list" where
  "gatewayBuckets =
     [1/10000, 25/100000, 5/10000,
      1/1000, 25/10000, 5/1000, 1/100,
      25/1000, 5/100, 1/10, 25/100, 5/10, 1, 25/10]"

definition metrics_New :: Sink where
  "metrics_New =
     \<lparr>sk_count =
        \<lparr>md_name = ''gateway_requests_total'',
         md_help = ''Total gateway HTTP requests labeled by method / route / status.'',
         md_buckets = [],
         md_labels = [''method'', ''route'', ''status'']\<rparr>,
      sk_dur =
        \<lparr>md_name = ''gateway_request_duration_seconds'',
         md_help = ''Gateway HTTP request duration in seconds labeled by method / route / status.'',
         md_buckets = gatewayBuckets,
         md_labels = [''method'', ''route'', ''status'']\<rparr>\<rparr>"

section \<open>The middleware\<close>

definition fresh_metrics :: metricsWriter where
  "fresh_metrics = \<lparr>mw_status = 200, mw_route = '''', mw_wroteHeader = False\<rparr>"

fun metrics_of :: "writer \<Rightarrow> metricsWriter" where
  "metrics_of (MetricsRec s w) = s"
| "metrics_of _ = fresh_metrics"

definition request_labels :: "request \<Rightarrow> metricsWriter \<Rightarrow> labels" where
  "request_labels r sw =
     \<lparr>l_method = r_Method r, l_route = mw_route sw, l_status = Itoa (mw_status sw)\<rparr>"

definition metrics_Middleware :: "env \<Rightarrow> handler \<Rightarrow> handler" where
  "metrics_Middleware e next r w s =
     (let (start, s) = time_Now e s;
          (out, sw, s) = next r (MetricsRec fresh_metrics w) s in
      case out of
        Panicked \<Rightarrow> (Panicked, under_writer sw, s)
      | Returned \<Rightarrow>
          (let labels = request_labels r (metrics_of sw);
               s = s\<lparr>w_metrics := w_metrics s @ [CounterInc labels]\<rparr>;
               (stop, s) = time_Now e s;
               s = s\<lparr>w_metrics := w_metrics s @
                        [HistogramObserve labels (of_int (stop - start) / 1000000000)]\<rparr> in
           (Returned, under_writer sw, s)))"

section \<open>Lemmas\<close>

lemma metrics_run:
  assumes "http_handler nxt" and "metrics_Middleware e nxt r w s = (out, w', s')"
  obtains mw ops s1 where
    "nxt r (MetricsRec fresh_metrics w) (s\<lparr>w_ticks := Suc (w_ticks s)\<rparr>)
       = (out, MetricsRec mw (run_ops ops w), s1)"
    and "w' = run_ops ops w"
    and "s' = (case out of Panicked \<Rightarrow> s1 | Returned \<Rightarrow>
           s1\<lparr>w_ticks := Suc (w_ticks s1),
              w_metrics := w_metrics s1 @
                [CounterInc (request_labels r mw),
                 HistogramObserve (request_labels r mw)
                   (of_int (e_now e (w_ticks s1) - e_now e (w_ticks s)) / 1000000000)]\<rparr>)"
proof -
  obtain out1 w1 s1 where n:
    "nxt r (MetricsRec fresh_metrics w) (s\<lparr>w_ticks := Suc (w_ticks s)\<rparr>) = (out1, w1, s1)"
    by (metis prod_cases3)
  obtain mw ops where w1: "w1 = MetricsRec mw (run_ops ops w)"
    using http_handler.on_metrics [OF assms(1) n] by blast
  from assms(2) n w1 have "out = out1 \<and> w' = run_ops ops w \<and>
    s' = (case out1 of Panicked \<Rightarrow> s1 | Returned \<Rightarrow>
           s1\<lparr>w_ticks := Suc (w_ticks s1),
              w_metrics := w_metrics s1 @
                [CounterInc (request_labels r mw),
                 HistogramObserve (request_labels r mw)
                   (of_int (e_now e (w_ticks s1) - e_now e (w_ticks s)) / 1000000000)]\<rparr>)"
    by (auto simp: metrics_Middleware_def time_Now_def Let_def split: outcome.splits)
  with n w1 that show thesis by blast
qed

interpretation metrics: middleware "metrics_Middleware e" for e
  by unfold_locales (metis metrics_run)

lemma fresh_metrics_in_step:
  "in_step w \<Longrightarrow> \<not> header_sent w \<Longrightarrow> in_step (MetricsRec fresh_metrics w)"
  by (simp add: fresh_metrics_def in_step_unsent)

text \<open>The decimal text of a number determines it, so the status label determines the status.\<close>

fun decimal_value :: "nat \<Rightarrow> string \<Rightarrow> nat" where
  "decimal_value acc [] = acc"
| "decimal_value acc (c # s) = decimal_value (10 * acc + (byte_of c - 48)) s"

lemma decimal_value_append:
  "decimal_value acc (s @ t) = decimal_value (decimal_value acc s) t"
  by (induction s arbitrary: acc) auto

lemma byte_of_digit: "n < 10 \<Longrightarrow> byte_of (char_of (48 + n)) - 48 = (n :: nat)"
  by (simp add: byte_of_def)

lemma decimal_value_digits_of: "decimal_value 0 (digits_of n) = n"
proof (induction n rule: digits_of.induct)
  case (1 n)
  show ?case
  proof (cases "n < 10")
    case True
    then show ?thesis by (subst digits_of.simps) (simp add: byte_of_digit)
  next
    case False
    with 1 show ?thesis
      by (subst digits_of.simps) (simp add: decimal_value_append byte_of_digit)
  qed
qed

lemma minus_not_in_digits: "CHR ''-'' \<notin> set (digits_of n)"
proof
  assume "CHR ''-'' \<in> set (digits_of n)"
  then obtain k :: nat where "CHR ''-'' = char_of k" and k: "k \<in> {48..57}"
    using digits_of_digits [of n] by auto
  then have "byte_of (CHR ''-'') = k" by (auto simp: byte_of_def)
  moreover have "byte_of (CHR ''-'') = 45" by code_simp
  ultimately show False using k by simp
qed

lemma Itoa_inj: "Itoa i = Itoa j \<Longrightarrow> i = j"
proof -
  have pos: "digits_of m = digits_of n \<Longrightarrow> m = n" for m n
    by (metis decimal_value_digits_of)
  have mixed: "CHR ''-'' # digits_of m \<noteq> digits_of n" for m n
    using minus_not_in_digits [of n] by (metis list.set_intros(1))
  assume "Itoa i = Itoa j"
  then show "i = j"
    using mixed mixed [symmetric] by (auto simp: Itoa_def split: if_splits dest!: pos)
qed

section \<open>Properties\<close>

text \<open>The histogram's bucket bounds are positive, strictly increasing and end at 2.5 seconds,
  as the Prometheus client requires and the design asks, and the counter and the histogram
  carry the same three labels.\<close>

theorem metrics_New_buckets:
  "sorted_wrt (<) (md_buckets (sk_dur metrics_New)) \<and>
   list_all (\<lambda>b. 0 < b) (md_buckets (sk_dur metrics_New)) \<and>
   length (md_buckets (sk_dur metrics_New)) = 14 \<and>
   last (md_buckets (sk_dur metrics_New)) = 5 / 2 \<and>
   md_labels (sk_count metrics_New) = md_labels (sk_dur metrics_New)"
  by (simp add: metrics_New_def gatewayBuckets_def)

text \<open>Each answered request adds one to one counter series and one observation to the
  histogram series with the same labels, in that order; the status label is the decimal text
  of the status the client gets, and no other status has that text. A panicking handler
  leaves no sample.\<close>

theorem metrics_one_sample:
  assumes "http_handler next" and "in_step w" and "\<not> header_sent w"
    and "metrics_Middleware e next r w s = (out, w', s')"
  shows "\<exists>mw s1.
    next r (MetricsRec fresh_metrics w) (s\<lparr>w_ticks := Suc (w_ticks s)\<rparr>)
      = (out, MetricsRec mw w', s1) \<and>
    (case out of
       Panicked \<Rightarrow> w_metrics s' = w_metrics s1
     | Returned \<Rightarrow> \<exists>lb d. w_metrics s' = w_metrics s1 @ [CounterInc lb, HistogramObserve lb d] \<and>
         l_method lb = r_Method r \<and> l_route lb = mw_route mw \<and>
         (\<forall>i. l_status lb = Itoa i \<longleftrightarrow> i = status_view (Conn (conn_of w'))))"
proof -
  obtain mw ops s1 where n:
    "next r (MetricsRec fresh_metrics w) (s\<lparr>w_ticks := Suc (w_ticks s)\<rparr>)
       = (out, MetricsRec mw (run_ops ops w), s1)"
    and w': "w' = run_ops ops w"
    and s': "s' = (case out of Panicked \<Rightarrow> s1 | Returned \<Rightarrow>
           s1\<lparr>w_ticks := Suc (w_ticks s1),
              w_metrics := w_metrics s1 @
                [CounterInc (request_labels r mw),
                 HistogramObserve (request_labels r mw)
                   (of_int (e_now e (w_ticks s1) - e_now e (w_ticks s)) / 1000000000)]\<rparr>)"
    using metrics_run [OF assms(1,4)] by metis
  have "in_step (MetricsRec mw w')"
    using http_handler.keeps_in_step [OF assms(1) n] fresh_metrics_in_step [OF assms(2,3)] w'
    by simp
  then have "mw_status mw = status_view (Conn (conn_of w'))"
    using in_step_conn [of w'] by simp
  then have lb: "l_method (request_labels r mw) = r_Method r \<and>
      l_route (request_labels r mw) = mw_route mw \<and>
      (\<forall>i. l_status (request_labels r mw) = Itoa i \<longleftrightarrow> i = status_view (Conn (conn_of w')))"
    by (auto simp: request_labels_def dest: Itoa_inj)
  show ?thesis
  proof (cases out)
    case Returned
    then have "\<exists>d. w_metrics s' = w_metrics s1 @
        [CounterInc (request_labels r mw), HistogramObserve (request_labels r mw) d]"
      using s' by (intro exI [of _ "of_int (e_now e (w_ticks s1) - e_now e (w_ticks s)) / 1000000000"])
        simp
    with n w' lb Returned show ?thesis by (simp only: outcome.case) blast
  next
    case Panicked
    with n w' s' show ?thesis by simp
  qed
qed

theorem metrics_one_sample_witness:
  "\<exists>s' lb d. metrics_Middleware demo_env demo_handler (demo_request ''GET'' ''/x'') (Conn new_conn)
       quiet_world = (Returned, Conn (conn_WriteHeader new_conn 404), s') \<and>
     w_metrics s' = [CounterInc lb, HistogramObserve lb d] \<and> l_status lb = Itoa 404"
proof -
  let ?r = "demo_request ''GET'' ''/x''"
  let ?c = "conn_WriteHeader new_conn 404"
  obtain s' where run: "metrics_Middleware demo_env demo_handler ?r (Conn new_conn) quiet_world =
      (Returned, Conn ?c, s')"
    by (simp add: metrics_Middleware_def time_Now_def demo_handler_def stamp_route_def method_defs
        fresh_metrics_def Let_def)
  have w: "in_step (Conn new_conn)" "\<not> header_sent (Conn new_conn)"
    by (simp_all add: new_conn_def)
  from metrics_one_sample [OF demo_handler_contract w run] obtain mw s1 lb d where
    n: "demo_handler ?r (MetricsRec fresh_metrics (Conn new_conn))
         (quiet_world\<lparr>w_ticks := Suc (w_ticks quiet_world)\<rparr>) = (Returned, MetricsRec mw (Conn ?c), s1)"
    and m: "w_metrics s' = w_metrics s1 @ [CounterInc lb, HistogramObserve lb d]"
    and l: "\<forall>i. l_status lb = Itoa i \<longleftrightarrow> i = status_view (Conn ?c)"
    by auto
  have "w_metrics s1 = []" using n by (auto simp: demo_handler_def quiet_world_def)
  moreover have "l_status lb = Itoa 404" using l by (simp add: conn_WriteHeader_def new_conn_def)
  ultimately show ?thesis using run m by auto
qed

end
