(* ===== verification/Otel.thy ===== *)
theory Otel
  imports Metrics
begin

text \<open>
  \<open>internal/observability/otel\<close>: the server span around a request (\<open>middleware.go\<close>), the
  client span around an upstream call (\<open>transport.go\<close>) and the error code (\<open>codes.go\<close>).
  The SDK is not under \<open>src/\<close>: extracting and injecting trace context and starting a span
  are parameters of the environment, and every call on a span is an event in \<open>w_otel\<close>.
  \<open>bootstrap.go\<close> only wires SDK objects together; its result is the tracer.
\<close>

section \<open>Codes and status text\<close>

definition codeError :: string where
  "codeError = ''Error''"

text \<open>\<open>http.StatusText\<close> on the range the code calls it for (500 and up).\<close>

definition StatusText :: "int \<Rightarrow> string" where
  "StatusText c =
     (if c = 500 then ''Internal Server Error''
      else if c = 501 then ''Not Implemented''
      else if c = 502 then ''Bad Gateway''
      else if c = 503 then ''Service Unavailable''
      else if c = 504 then ''Gateway Timeout''
      else if c = 505 then ''HTTP Version Not Supported''
      else if c = 506 then ''Variant Also Negotiates''
      else if c = 507 then ''Insufficient Storage''
      else if c = 508 then ''Loop Detected''
      else if c = 510 then ''Not Extended''
      else if c = 511 then ''Network Authentication Required''
      else '''')"

section \<open>The server span\<close>

definition fresh_otel :: otelWriter where
  "fresh_otel = \<lparr>ow_status = 200, ow_matchedRoute = ''''\<rparr>"

fun otel_of :: "writer \<Rightarrow> otelWriter" where
  "otel_of (OtelRec s w) = s"
| "otel_of _ = fresh_otel"

text \<open>\<open>Duration.Microseconds()\<close> truncates towards zero.\<close>

definition Microseconds :: "duration \<Rightarrow> int" where
  "Microseconds d = sgn d * (\<bar>d\<bar> div 1000)"

text \<open>What the code does with the span after the handler returned; \<open>defer span.End()\<close> comes
  last, and also after a panic.\<close>

definition finish_span :: "nat \<Rightarrow> otelWriter \<Rightarrow> duration \<Rightarrow> world \<Rightarrow> world" where
  "finish_span i sw dur s =
     (let s = span_call (SetAttributes i
                [(''http.status_code'', AInt (ow_status sw)),
                 (''gateway.duration_ms'', AFloat (of_int (Microseconds dur) / 1000))]) s;
          s = (if ow_matchedRoute sw \<noteq> ''''
               then span_call (SetAttributes i [(''http.route'', AString (ow_matchedRoute sw))]) s
               else s);
          s = (if ow_status sw \<ge> 500
               then span_call (SetStatus i codeError (StatusText (ow_status sw))) s
               else s) in
      span_call (SpanEnd i) s)"

definition otel_Middleware :: "env \<Rightarrow> tracer option \<Rightarrow> handler \<Rightarrow> handler" where
  "otel_Middleware e tr h =
     (case tr of
        None \<Rightarrow> h
      | Some t \<Rightarrow>
          (\<lambda>r w s.
             let parent = e_extract e (cx_span (r_ctx r)) (w_reqhdr s);
                 (sc, i, s) = tracer_Start e parent ''gateway.request'' ''server''
                    [(''http.method'', AString (r_Method r)),
                     (''http.target'', AString (u_path (r_URL r)))] s;
                 (start, s) = time_Now e s;
                 (out, sw, s) = h (r\<lparr>r_ctx := (r_ctx r)\<lparr>cx_span := sc\<rparr>\<rparr>) (OtelRec fresh_otel w) s in
             case out of
               Panicked \<Rightarrow> (Panicked, under_writer sw, span_call (SpanEnd i) s)
             | Returned \<Rightarrow>
                 (let (stop, s) = time_Now e s in
                  (Returned, under_writer sw, finish_span i (otel_of sw) (stop - start) s))))"

section \<open>The client span\<close>

text \<open>\<open>InstrumentedTransport.RoundTrip\<close> around the inner transport's round trip \<open>inner\<close>.\<close>

definition instrumented_RoundTrip ::
  "env \<Rightarrow> tracer option \<Rightarrow> (outreq \<Rightarrow> world \<Rightarrow> (string + response) \<times> world)
     \<Rightarrow> outreq \<Rightarrow> world \<Rightarrow> (string + response) \<times> world" where
  "instrumented_RoundTrip e tr inner req s =
     (case tr of
        None \<Rightarrow> inner req s
      | Some t \<Rightarrow>
          (let (sc, i, s) = tracer_Start e (o_span req) ''gateway.proxy.upstream'' ''client''
                 [(''http.method'', AString (o_Method req)),
                  (''http.url'', AString (url_String (o_URL req))),
                  (''upstream.host'', AString (u_host (o_URL req)))] s;
               req = req\<lparr>o_Header := e_inject e sc (o_Header req), o_span := sc\<rparr>;
               (res, s) = inner req s in
           case res of
             Inl err \<Rightarrow> (Inl err, span_call (SpanEnd i) (span_call (SetStatus i codeError err) s))
           | Inr resp \<Rightarrow>
               (let s = span_call (SetAttributes i
                          [(''upstream.status_code'', AInt (rs_StatusCode resp))]) s;
                    s = (if rs_StatusCode resp \<ge> 500
                         then span_call (SetStatus i codeError (rs_Status resp)) s else s) in
                (Inr resp, span_call (SpanEnd i) s))))"

text \<open>A round trip over the network is one request on the wire and the backend's answer.\<close>

definition wire_RoundTrip ::
  "env \<Rightarrow> transport \<Rightarrow> outreq \<Rightarrow> world \<Rightarrow> (string + response) \<times> world" where
  "wire_RoundTrip e t req s =
     (e_backend e (length (w_sent s)) t req, s\<lparr>w_sent := w_sent s @ [(t, req)]\<rparr>)"

text \<open>Dispatch of the \<open>http.RoundTripper\<close> interface; a \<open>nil\<close> \<open>Inner\<close> is the default transport.\<close>

fun RoundTrip :: "env \<Rightarrow> transport \<Rightarrow> outreq \<Rightarrow> world \<Rightarrow> (string + response) \<times> world" where
  "RoundTrip e (InstrumentedTransport tr None) =
     instrumented_RoundTrip e tr (wire_RoundTrip e DefaultTransport)"
| "RoundTrip e (InstrumentedTransport tr (Some t)) =
     instrumented_RoundTrip e tr (RoundTrip e t)"
| "RoundTrip e t = wire_RoundTrip e t"

text \<open>The transports that talk to the network themselves.\<close>

definition on_wire :: "transport \<Rightarrow> bool" where
  "on_wire t = (case t of InstrumentedTransport tr inner \<Rightarrow> False | _ \<Rightarrow> True)"

section \<open>Bracketing of spans\<close>

text \<open>A monitor over span events: the stack of open spans, or \<open>None\<close> when a span is ended
  that is not the innermost open one, or touched while it is not open.\<close>

fun monitor :: "nat list \<Rightarrow> span_event list \<Rightarrow> nat list option" where
  "monitor st [] = Some st"
| "monitor st (SpanStart i n k a p c # evs) = monitor (i # st) evs"
| "monitor st (SetAttributes i a # evs) = (if i \<in> set st then monitor st evs else None)"
| "monitor st (SetStatus i c d # evs) = (if i \<in> set st then monitor st evs else None)"
| "monitor st (SpanEnd i # evs) =
     (case st of [] \<Rightarrow> None | j # st' \<Rightarrow> if i = j then monitor st' evs else None)"

definition well_bracketed :: "span_event list \<Rightarrow> bool" where
  "well_bracketed evs = (\<forall>st. monitor st evs = Some st)"

lemma monitor_append:
  "monitor st (a @ b) = (case monitor st a of None \<Rightarrow> None | Some st' \<Rightarrow> monitor st' b)"
  by (induction st a rule: monitor.induct) (auto split: list.splits)

lemma well_bracketed_Nil [simp]: "well_bracketed []"
  by (simp add: well_bracketed_def)

lemma well_bracketed_append: "well_bracketed a \<Longrightarrow> well_bracketed b \<Longrightarrow> well_bracketed (a @ b)"
  by (simp add: well_bracketed_def monitor_append)

text \<open>Events that only describe one span.\<close>

definition about :: "nat \<Rightarrow> span_event list \<Rightarrow> bool" where
  "about i evs = list_all (\<lambda>ev. (\<exists>a. ev = SetAttributes i a) \<or> (\<exists>c d. ev = SetStatus i c d)) evs"

lemma monitor_about: "about i evs \<Longrightarrow> i \<in> set st \<Longrightarrow> monitor st evs = Some st"
  by (induction evs) (auto simp: about_def)

lemma well_bracketed_span:
  assumes "well_bracketed evs" and "about i own"
  shows "well_bracketed (SpanStart i n k a p c # evs @ own @ [SpanEnd i])"
  using assms by (simp add: well_bracketed_def monitor_append monitor_about)

lemma finish_span_events:
  obtains own where "w_otel (finish_span i sw dur s) = w_otel s @ own @ [SpanEnd i]"
    and "about i own"
    and "(\<exists>d. SetStatus i codeError d \<in> set own) \<longleftrightarrow> 500 \<le> ow_status sw"
    and "finish_span i sw dur s = s\<lparr>w_otel := w_otel s @ own @ [SpanEnd i]\<rparr>"
proof -
  let ?own = "[SetAttributes i [(''http.status_code'', AInt (ow_status sw)),
                 (''gateway.duration_ms'', AFloat (of_int (Microseconds dur) / 1000))]] @
     (if ow_matchedRoute sw \<noteq> ''''
      then [SetAttributes i [(''http.route'', AString (ow_matchedRoute sw))]] else []) @
     (if ow_status sw \<ge> 500 then [SetStatus i codeError (StatusText (ow_status sw))] else [])"
  have "finish_span i sw dur s = s\<lparr>w_otel := w_otel s @ ?own @ [SpanEnd i]\<rparr>"
    by (simp add: finish_span_def span_call_def Let_def)
  moreover have "about i ?own" by (simp add: about_def)
  moreover have "(\<exists>d. SetStatus i codeError d \<in> set ?own) \<longleftrightarrow> 500 \<le> ow_status sw" by simp
  ultimately show thesis by (intro that [of ?own]) simp_all
qed

section \<open>Lemmas\<close>

text \<open>Whatever wraps it, a round trip puts one request on the wire, returns the backend's
  answer unchanged, touches nothing but trace context on the way and brackets its spans.\<close>

definition same_call :: "outreq \<Rightarrow> outreq \<Rightarrow> bool" where
  "same_call a b =
     (o_Method a = o_Method b \<and> o_URL a = o_URL b \<and> o_Host a = o_Host b \<and> o_Body a = o_Body b)"

definition sends_once ::
  "env \<Rightarrow> (outreq \<Rightarrow> world \<Rightarrow> (string + response) \<times> world) \<Rightarrow> bool" where
  "sends_once e rt =
     (\<forall>req s. \<exists>t req' evs n.
        rt req s = (e_backend e (length (w_sent s)) t req',
          s\<lparr>w_sent := w_sent s @ [(t, req')], w_spans := n, w_otel := w_otel s @ evs\<rparr>) \<and>
        same_call req' req \<and> well_bracketed evs)"

lemma wire_sends_once: "sends_once e (wire_RoundTrip e t)"
  unfolding sends_once_def
proof (intro allI)
  fix req :: outreq and s :: world
  have "wire_RoundTrip e t req s = (e_backend e (length (w_sent s)) t req,
      s\<lparr>w_sent := w_sent s @ [(t, req)], w_spans := w_spans s, w_otel := w_otel s @ []\<rparr>)"
    by (simp add: wire_RoundTrip_def)
  moreover have "same_call req req" by (simp add: same_call_def)
  ultimately show "\<exists>t' req' evs n. wire_RoundTrip e t req s =
      (e_backend e (length (w_sent s)) t' req',
       s\<lparr>w_sent := w_sent s @ [(t', req')], w_spans := n, w_otel := w_otel s @ evs\<rparr>) \<and>
      same_call req' req \<and> well_bracketed evs"
    using well_bracketed_Nil by blast
qed

lemma instrumented_sends_once:
  assumes "sends_once e rt"
  shows "sends_once e (instrumented_RoundTrip e tr rt)"
proof (cases tr)
  case None
  then have "instrumented_RoundTrip e tr rt = rt"
    by (simp add: instrumented_RoundTrip_def fun_eq_iff)
  with assms show ?thesis by simp
next
  case (Some tname)
  show ?thesis unfolding sends_once_def
  proof (intro allI)
    fix req :: outreq and s :: world
    let ?i = "w_spans s" and ?sc = "e_start e (w_spans s) (o_span req)"
    let ?ev = "SpanStart ?i ''gateway.proxy.upstream'' ''client''
         [(''http.method'', AString (o_Method req)),
          (''http.url'', AString (url_String (o_URL req))),
          (''upstream.host'', AString (u_host (o_URL req)))] (o_span req) ?sc"
    let ?req = "req\<lparr>o_Header := e_inject e ?sc (o_Header req), o_span := ?sc\<rparr>"
    let ?s = "s\<lparr>w_spans := Suc ?i, w_otel := w_otel s @ [?ev]\<rparr>"
    obtain t req' evs n where
      inner: "rt ?req ?s = (e_backend e (length (w_sent s)) t req',
        ?s\<lparr>w_sent := w_sent s @ [(t, req')], w_spans := n, w_otel := w_otel ?s @ evs\<rparr>)"
      and same: "same_call req' ?req" and evs: "well_bracketed evs"
      using assms [unfolded sends_once_def, rule_format, of ?req ?s] by auto
    define own where "own = (case e_backend e (length (w_sent s)) t req' of
        Inl err \<Rightarrow> [SetStatus ?i codeError err]
      | Inr resp \<Rightarrow> SetAttributes ?i [(''upstream.status_code'', AInt (rs_StatusCode resp))] #
          (if rs_StatusCode resp \<ge> 500 then [SetStatus ?i codeError (rs_Status resp)] else []))"
    have own: "about ?i own" by (auto simp: own_def about_def split: sum.splits)
    have "instrumented_RoundTrip e tr rt req s = (e_backend e (length (w_sent s)) t req',
        s\<lparr>w_sent := w_sent s @ [(t, req')], w_spans := n,
          w_otel := w_otel s @ (?ev # evs @ own @ [SpanEnd ?i])\<rparr>)"
      using inner Some
      by (simp add: instrumented_RoundTrip_def tracer_Start_def span_call_def Let_def own_def
          split: sum.splits)
    moreover have "same_call req' req" using same by (simp add: same_call_def)
    moreover have "well_bracketed (?ev # evs @ own @ [SpanEnd ?i])"
      using evs own by (rule well_bracketed_span)
    ultimately show "\<exists>t' q evs' n'. instrumented_RoundTrip e tr rt req s =
        (e_backend e (length (w_sent s)) t' q,
         s\<lparr>w_sent := w_sent s @ [(t', q)], w_spans := n', w_otel := w_otel s @ evs'\<rparr>) \<and>
        same_call q req \<and> well_bracketed evs'"
      by blast
  qed
qed

lemma RoundTrip_sends_once: "sends_once e (RoundTrip e t)"
proof (induction e t rule: RoundTrip.induct)
  case (1 e tr)
  show ?case by (simp add: instrumented_sends_once wire_sends_once)
next
  case (2 e tr t)
  then show ?case by (simp add: instrumented_sends_once)
qed (simp_all add: wire_sends_once)

section \<open>Handlers inside the observability layers\<close>

text \<open>What the mux's handlers promise the layers around them: they write no log line and no
  metric of their own, and every span they open they close.\<close>

locale inner_handler = http_handler +
  assumes keeps_stdout: "h r w s = (out, w', s') \<Longrightarrow> w_stdout s' = w_stdout s"
    and keeps_metrics: "h r w s = (out, w', s') \<Longrightarrow> w_metrics s' = w_metrics s"
    and brackets: "h r w s = (out, w', s') \<Longrightarrow>
      \<exists>evs. w_otel s' = w_otel s @ evs \<and> well_bracketed evs"

text \<open>A handler that changes no observability state.\<close>

lemma inner_handlerI:
  assumes "\<And>r w s. \<exists>ops. fst (snd (h r w s)) = run_ops ops w"
    and "\<And>r w s. w_stdout (snd (snd (h r w s))) = w_stdout s"
    and "\<And>r w s. w_metrics (snd (snd (h r w s))) = w_metrics s"
    and "\<And>r w s. w_otel (snd (snd (h r w s))) = w_otel s"
  shows "inner_handler h"
proof (intro inner_handler.intro inner_handler_axioms.intro)
  show "http_handler h" using assms(1) by (rule http_handlerI)
  fix r w s out w' s'
  assume run: "h r w s = (out, w', s')"
  show "w_stdout s' = w_stdout s" using assms(2) [of r w s] run by simp
  show "w_metrics s' = w_metrics s" using assms(3) [of r w s] run by simp
  show "\<exists>evs. w_otel s' = w_otel s @ evs \<and> well_bracketed evs"
    using assms(4) [of r w s] run by (intro exI [of _ "[]"]) simp
qed

section \<open>The middleware\<close>

definition span_start_event :: "env \<Rightarrow> request \<Rightarrow> world \<Rightarrow> span_event" where
  "span_start_event e r s =
     (let parent = e_extract e (cx_span (r_ctx r)) (w_reqhdr s) in
      SpanStart (w_spans s) ''gateway.request'' ''server''
        [(''http.method'', AString (r_Method r)), (''http.target'', AString (u_path (r_URL r)))]
        parent (e_start e (w_spans s) parent))"

definition traced_request :: "env \<Rightarrow> request \<Rightarrow> world \<Rightarrow> request" where
  "traced_request e r s =
     r\<lparr>r_ctx := (r_ctx r)\<lparr>cx_span :=
       e_start e (w_spans s) (e_extract e (cx_span (r_ctx r)) (w_reqhdr s))\<rparr>\<rparr>"

definition traced_world :: "env \<Rightarrow> request \<Rightarrow> world \<Rightarrow> world" where
  "traced_world e r s =
     s\<lparr>w_spans := Suc (w_spans s), w_otel := w_otel s @ [span_start_event e r s],
       w_ticks := Suc (w_ticks s)\<rparr>"

lemma otel_run:
  assumes "http_handler nxt" and "otel_Middleware e (Some t) nxt r w s = (out, w', s')"
  obtains ow ops s1 where
    "nxt (traced_request e r s) (OtelRec fresh_otel w) (traced_world e r s)
       = (out, OtelRec ow (run_ops ops w), s1)"
    and "w' = run_ops ops w"
    and "s' = (case out of
         Panicked \<Rightarrow> span_call (SpanEnd (w_spans s)) s1
       | Returned \<Rightarrow> finish_span (w_spans s) ow (e_now e (w_ticks s1) - e_now e (w_ticks s))
           (s1\<lparr>w_ticks := Suc (w_ticks s1)\<rparr>))"
proof -
  obtain out1 w1 s1 where n:
    "nxt (traced_request e r s) (OtelRec fresh_otel w) (traced_world e r s) = (out1, w1, s1)"
    by (metis prod_cases3)
  obtain ow ops where w1: "w1 = OtelRec ow (run_ops ops w)"
    using http_handler.on_otel [OF assms(1) n] by blast
  from assms(2) n w1 have "out = out1 \<and> w' = run_ops ops w \<and>
    s' = (case out1 of
         Panicked \<Rightarrow> span_call (SpanEnd (w_spans s)) s1
       | Returned \<Rightarrow> finish_span (w_spans s) ow (e_now e (w_ticks s1) - e_now e (w_ticks s))
           (s1\<lparr>w_ticks := Suc (w_ticks s1)\<rparr>))"
    by (auto simp: otel_Middleware_def tracer_Start_def time_Now_def Let_def traced_request_def
        traced_world_def span_start_event_def split: outcome.splits)
  with n w1 that show thesis by blast
qed

interpretation tracing: middleware "otel_Middleware e tr" for e tr
proof unfold_locales
  fix nxt r w s out w' s'
  assume n: "http_handler nxt" and run: "otel_Middleware e tr nxt r w s = (out, w', s')"
  show "\<exists>ops. w' = run_ops ops w"
  proof (cases tr)
    case None
    with run http_handler.only_calls [OF n] show ?thesis by (simp add: otel_Middleware_def)
  next
    case (Some t)
    with run otel_run [OF n] show ?thesis by metis
  qed
qed

lemma otel_events:
  assumes "inner_handler nxt" and "otel_Middleware e (Some t) nxt r w s = (out, w', s')"
  obtains inner own ow s1 where
    "nxt (traced_request e r s) (OtelRec fresh_otel w) (traced_world e r s) = (out, OtelRec ow w', s1)"
    and "w_otel s' = w_otel s @ span_start_event e r s # inner @ own @ [SpanEnd (w_spans s)]"
    and "well_bracketed inner" and "about (w_spans s) own"
    and "(\<exists>d. SetStatus (w_spans s) codeError d \<in> set own) \<longleftrightarrow> out = Returned \<and> 500 \<le> ow_status ow"
    and "w_stdout s' = w_stdout s1" and "w_metrics s' = w_metrics s1"
proof -
  have h: "http_handler nxt" using assms(1) by (simp add: inner_handler_def)
  obtain ow ops s1 where n:
    "nxt (traced_request e r s) (OtelRec fresh_otel w) (traced_world e r s)
       = (out, OtelRec ow (run_ops ops w), s1)"
    and w': "w' = run_ops ops w"
    and s': "s' = (case out of
         Panicked \<Rightarrow> span_call (SpanEnd (w_spans s)) s1
       | Returned \<Rightarrow> finish_span (w_spans s) ow (e_now e (w_ticks s1) - e_now e (w_ticks s))
           (s1\<lparr>w_ticks := Suc (w_ticks s1)\<rparr>))"
    using otel_run [OF h assms(2)] by metis
  obtain inner where i: "w_otel s1 = w_otel (traced_world e r s) @ inner" "well_bracketed inner"
    using inner_handler.brackets [OF assms(1) n] by blast
  show thesis
  proof (cases out)
    case Panicked
    with n w' s' i show thesis
      by (intro that [of ow s1 inner "[]"])
        (simp_all add: span_call_def traced_world_def about_def)
  next
    case Returned
    obtain own where "w_otel s' = w_otel s1 @ own @ [SpanEnd (w_spans s)]" "about (w_spans s) own"
      "(\<exists>d. SetStatus (w_spans s) codeError d \<in> set own) \<longleftrightarrow> 500 \<le> ow_status ow"
      "w_stdout s' = w_stdout s1" "w_metrics s' = w_metrics s1"
      using finish_span_events [of "w_spans s" ow "e_now e (w_ticks s1) - e_now e (w_ticks s)"
          "s1\<lparr>w_ticks := Suc (w_ticks s1)\<rparr>"] s' Returned
      by (metis (no_types, lifting) outcome.case(1) world.select_convs(6,7,8) world.surjective
          world.update_convs(2,6))
    with n w' i Returned show thesis
      by (intro that [of ow s1 inner own]) (simp_all add: traced_world_def)
  qed
qed

text \<open>The attribute keys an event sets.\<close>

fun attr_keys :: "span_event \<Rightarrow> string list" where
  "attr_keys (SpanStart i n k a p c) = map fst a"
| "attr_keys (SetAttributes i a) = map fst a"
| "attr_keys (SetStatus i c d) = []"
| "attr_keys (SpanEnd i) = []"

lemma demo_inner: "inner_handler demo_handler"
  by (rule inner_handlerI)
    (auto simp: demo_handler_def
      intro!: exI [of _ "[OpStamp ''/decide'', OpWriteHeader 404, OpWriteHeader 200]"])

section \<open>Properties\<close>

text \<open>C33: every traced request opens one server span and closes it last, whether the handler
  returns or panics, and all spans in between are properly nested; the span is marked as an
  error exactly when the handler returned and the recorded status is 500 or more.\<close>

theorem server_span_closed:
  assumes "inner_handler next" and "otel_Middleware e (Some t) next r w s = (out, w', s')"
  shows "\<exists>inner own ow s1.
    next (traced_request e r s) (OtelRec fresh_otel w) (traced_world e r s) = (out, OtelRec ow w', s1) \<and>
    w_otel s' = w_otel s @ span_start_event e r s # inner @ own @ [SpanEnd (w_spans s)] \<and>
    well_bracketed (span_start_event e r s # inner @ own @ [SpanEnd (w_spans s)]) \<and>
    about (w_spans s) own \<and>
    ((\<exists>d. SetStatus (w_spans s) codeError d \<in> set own) \<longleftrightarrow> out = Returned \<and> 500 \<le> ow_status ow)"
proof -
  obtain inner own ow s1 where ev:
    "next (traced_request e r s) (OtelRec fresh_otel w) (traced_world e r s) = (out, OtelRec ow w', s1)"
    "w_otel s' = w_otel s @ span_start_event e r s # inner @ own @ [SpanEnd (w_spans s)]"
    "well_bracketed inner" "about (w_spans s) own"
    "(\<exists>d. SetStatus (w_spans s) codeError d \<in> set own) \<longleftrightarrow> out = Returned \<and> 500 \<le> ow_status ow"
    using otel_events [OF assms] by metis
  have "well_bracketed (span_start_event e r s # inner @ own @ [SpanEnd (w_spans s)])"
    unfolding span_start_event_def Let_def using ev(3,4) by (rule well_bracketed_span)
  with ev show ?thesis by blast
qed

theorem server_span_closed_witness:
  "\<exists>w' s'. otel_Middleware demo_env (Some ''gw'') demo_handler (demo_request ''GET'' ''/x'')
      (Conn new_conn) quiet_world = (Returned, w', s') \<and>
     (\<exists>evs. w_otel s' = evs \<and> well_bracketed evs \<and> last evs = SpanEnd 0)"
proof -
  let ?r = "demo_request ''GET'' ''/x''"
  obtain w' s' where run: "otel_Middleware demo_env (Some ''gw'') demo_handler ?r (Conn new_conn)
      quiet_world = (Returned, w', s')"
    by (simp add: otel_Middleware_def tracer_Start_def time_Now_def Let_def demo_handler_def)
  from server_span_closed [OF demo_inner run] obtain inner own where
    "w_otel s' = w_otel quiet_world @ span_start_event demo_env ?r quiet_world # inner @ own @
       [SpanEnd (w_spans quiet_world)]"
    "well_bracketed (span_start_event demo_env ?r quiet_world # inner @ own @
       [SpanEnd (w_spans quiet_world)])"
    by blast
  then have "well_bracketed (w_otel s') \<and> last (w_otel s') = SpanEnd 0"
    by (simp add: quiet_world_def)
  with run show ?thesis by blast
qed

text \<open>The attributes a server span can get are the request's method and path, the response
  status, the duration and the matched route; no other key is ever set on it.\<close>

theorem server_span_attribute_keys:
  "set (concat (map attr_keys
     (span_start_event e r s # drop (length (w_otel s1)) (w_otel (finish_span i sw dur s1)))))
   = {''http.method'', ''http.target'', ''http.status_code'', ''gateway.duration_ms''} \<union>
     (if ow_matchedRoute sw = '''' then {} else {''http.route''})"
  by (auto simp: span_start_event_def finish_span_def span_call_def Let_def)

text \<open>C32: whatever transport is built, a round trip puts exactly one request on the wire, with
  the caller's method, URL, host and body, returns the backend's answer or error unchanged,
  and closes the spans it opens; nothing else of the gateway's state changes.\<close>

theorem RoundTrip_transparent:
  "\<exists>t' req' evs n.
     RoundTrip e t req s = (e_backend e (length (w_sent s)) t' req',
       s\<lparr>w_sent := w_sent s @ [(t', req')], w_spans := n, w_otel := w_otel s @ evs\<rparr>) \<and>
     o_Method req' = o_Method req \<and> o_URL req' = o_URL req \<and> o_Host req' = o_Host req \<and>
     o_Body req' = o_Body req \<and> well_bracketed evs"
proof -
  obtain t' req' evs n where
    "RoundTrip e t req s = (e_backend e (length (w_sent s)) t' req',
       s\<lparr>w_sent := w_sent s @ [(t', req')], w_spans := n, w_otel := w_otel s @ evs\<rparr>)"
    "same_call req' req" "well_bracketed evs"
    using RoundTrip_sends_once [of e t] unfolding sends_once_def by meson
  then show ?thesis unfolding same_call_def by blast
qed

text \<open>The client span around an upstream call: its context, a child of the request's span,
  is what goes on the wire; a transport error marks the span with the error's text, a
  response is recorded with its status and marked as an error exactly from 500 on.\<close>

theorem client_span_around_wire:
  assumes "on_wire t"
  shows "RoundTrip e (InstrumentedTransport (Some tr) (Some t)) req s =
    (let i = w_spans s; sc = e_start e i (o_span req);
         req' = req\<lparr>o_Header := e_inject e sc (o_Header req), o_span := sc\<rparr>;
         res = e_backend e (length (w_sent s)) t req';
         own = (case res of
                  Inl err \<Rightarrow> [SetStatus i ''Error'' err]
                | Inr resp \<Rightarrow>
                    SetAttributes i [(''upstream.status_code'', AInt (rs_StatusCode resp))] #
                    (if 500 \<le> rs_StatusCode resp then [SetStatus i ''Error'' (rs_Status resp)]
                     else [])) in
     (res, s\<lparr>w_sent := w_sent s @ [(t, req')], w_spans := Suc i,
            w_otel := w_otel s @ SpanStart i ''gateway.proxy.upstream'' ''client''
               [(''http.method'', AString (o_Method req)),
                (''http.url'', AString (url_String (o_URL req))),
                (''upstream.host'', AString (u_host (o_URL req)))] (o_span req) sc
              # own @ [SpanEnd i]\<rparr>))"
proof -
  have rt: "RoundTrip e t = wire_RoundTrip e t" using assms by (cases t) (auto simp: on_wire_def)
  show ?thesis
    by (simp add: rt instrumented_RoundTrip_def tracer_Start_def wire_RoundTrip_def span_call_def
        codeError_def Let_def split: sum.splits)
qed

definition demo_outreq :: outreq where
  "demo_outreq =
     \<lparr>o_Method = ''GET'', o_URL = demo_url ''svc:8080'', o_Host = ''gw'', o_Header = Map.empty,
      o_Body = '''', o_span = no_span\<rparr>"

theorem client_span_around_wire_witness:
  "w_sent (snd (RoundTrip demo_env (InstrumentedTransport (Some ''gw'') (Some newH2CTransport))
     demo_outreq quiet_world)) = [(newH2CTransport, demo_outreq)]"
proof -
  have h: "on_wire newH2CTransport" by (simp add: on_wire_def newH2CTransport_def)
  show ?thesis
    by (subst client_span_around_wire [OF h])
      (simp add: Let_def demo_env_def quiet_world_def demo_outreq_def)
qed

end
