(* ===== verification/Proxy.thy ===== *)
theory Proxy
  imports Otel
begin

text \<open>
  The serving half of \<open>internal/proxy/proxy.go\<close>: \<open>Handler.ServeHTTP\<close> and \<open>notFound\<close>, on a
  model of \<open>httputil.ReverseProxy\<close> (Go 1.18): the Director of \<open>NewSingleHostReverseProxy\<close>,
  hop-by-hop headers, \<open>X-Forwarded-For\<close>, the round trip, the default error handler (502),
  and the copy of the response. A 101 answer ends in the error handler because none of the
  gateway's writers is an \<open>http.Hijacker\<close>. Trailers and flushing are not modelled: they do
  not go through the gateway's own code.
\<close>

section \<open>Director\<close>

definition singleJoiningSlash :: "string \<Rightarrow> string \<Rightarrow> string" where
  "singleJoiningSlash a b =
     (let aslash = HasSuffix a ''/''; bslash = HasPrefix b ''/'' in
      if aslash \<and> bslash then a @ tl b
      else if \<not> aslash \<and> \<not> bslash then a @ ''/'' @ b
      else a @ b)"

definition joinURLPath :: "url \<Rightarrow> url \<Rightarrow> string \<times> string" where
  "joinURLPath a b =
     (if u_rawpath a = '''' \<and> u_rawpath b = '''' then (singleJoiningSlash (u_path a) (u_path b), '''')
      else
        (let apath = EscapedPath a; bpath = EscapedPath b;
             aslash = HasSuffix apath ''/''; bslash = HasPrefix bpath ''/'' in
         if aslash \<and> bslash then (u_path a @ drop 1 (u_path b), apath @ drop 1 bpath)
         else if \<not> aslash \<and> \<not> bslash then (u_path a @ ''/'' @ u_path b, apath @ ''/'' @ bpath)
         else (u_path a @ u_path b, apath @ bpath)))"

definition Director :: "url \<Rightarrow> outreq \<Rightarrow> outreq" where
  "Director target req =
     (let u = o_URL req;
          (p, rp) = joinURLPath target u;
          q = (if u_rawquery target = '''' \<or> u_rawquery u = ''''
               then u_rawquery target @ u_rawquery u
               else u_rawquery target @ ''&'' @ u_rawquery u);
          h = o_Header req in
      req\<lparr>o_URL := u\<lparr>u_scheme := u_scheme target, u_host := u_host target, u_path := p,
                       u_rawpath := rp, u_rawquery := q\<rparr>,
          o_Header := (if h (CanonicalHeaderKey ''User-Agent'') = None
                       then hdr_Set ''User-Agent'' '''' h else h)\<rparr>)"

section \<open>Header hygiene\<close>

definition hopHeaders :: "string list" where
  "hopHeaders =
     [''Connection'', ''Proxy-Connection'', ''Keep-Alive'', ''Proxy-Authenticate'',
      ''Proxy-Authorization'', ''Te'', ''Trailer'', ''Transfer-Encoding'', ''Upgrade'']"

definition is_ows :: "char \<Rightarrow> bool" where
  "is_ows c = (c = CHR '' '' \<or> c = CHR 0x09)"

text \<open>\<open>textproto.TrimString\<close> trims space, tab and line ends; a header value has no line ends.\<close>

definition TrimString :: "string \<Rightarrow> string" where
  "TrimString s = rev (dropWhile is_ows (rev (dropWhile is_ows s)))"

text \<open>The field names the \<open>Connection\<close> header lists, and their removal.\<close>

definition connection_names :: "header \<Rightarrow> string list" where
  "connection_names h =
     filter (\<lambda>n. n \<noteq> '''')
       (map TrimString (concat (map (split_on (CHR '','')) (hdr_values h ''Connection''))))"

definition removeConnectionHeaders :: "header \<Rightarrow> header" where
  "removeConnectionHeaders h = fold hdr_Del (connection_names h) h"

definition remove_hop_headers :: "header \<Rightarrow> header" where
  "remove_hop_headers h = fold hdr_Del hopHeaders (removeConnectionHeaders h)"

definition EqualFold :: "string \<Rightarrow> string \<Rightarrow> bool" where
  "EqualFold a b = (map to_lower a = map to_lower b)"

definition HeaderValuesContainsToken :: "string list \<Rightarrow> string \<Rightarrow> bool" where
  "HeaderValuesContainsToken vs tok =
     list_ex (\<lambda>v. list_ex (\<lambda>t. EqualFold (TrimString t) tok) (split_on (CHR '','') v)) vs"

definition upgradeType :: "header \<Rightarrow> string" where
  "upgradeType h =
     (if HeaderValuesContainsToken (hdr_values h ''Connection'') ''Upgrade''
      then hdr_Get h ''Upgrade'' else '''')"

definition IsPrint :: "string \<Rightarrow> bool" where
  "IsPrint s = list_all (\<lambda>c. 32 \<le> byte_of c \<and> byte_of c \<le> 126) s"

text \<open>\<open>net.SplitHostPort\<close>, host part only; \<open>None\<close> is its error.\<close>

definition SplitHost :: "string \<Rightarrow> string option" where
  "SplitHost hp =
     (case LastIndexByte hp (CHR '':'') of
        None \<Rightarrow> None
      | Some i \<Rightarrow>
          if HasPrefix hp ''['' then
            (case Index hp '']'' of
               None \<Rightarrow> None
             | Some j \<Rightarrow>
                 if j + 1 = i \<and> CHR ''['' \<notin> set (drop 1 hp) \<and> CHR '']'' \<notin> set (drop (j + 1) hp)
                 then Some (take (j - 1) (drop 1 hp)) else None)
          else if CHR '':'' \<in> set (take i hp) \<or> CHR ''['' \<in> set hp \<or> CHR '']'' \<in> set hp then None
          else Some (take i hp))"

definition forwarded_for :: "string \<Rightarrow> header \<Rightarrow> header" where
  "forwarded_for remote h =
     (case SplitHost remote of
        None \<Rightarrow> h
      | Some ip \<Rightarrow>
          (let prior = hdr_values h ''X-Forwarded-For'';
               v = (if prior = [] then ip else Join prior '', '' @ '', '' @ ip) in
           hdr_Set ''X-Forwarded-For'' v h))"

section \<open>The reverse proxy\<close>

text \<open>The outgoing request: a clone of the inbound one through the Director and the header
  steps, in the order of \<open>ReverseProxy.ServeHTTP\<close>.\<close>

definition outbound_base :: "url \<Rightarrow> request \<Rightarrow> header \<Rightarrow> outreq" where
  "outbound_base target r h =
     Director target
       \<lparr>o_Method = r_Method r, o_URL = r_URL r, o_Host = r_Host r, o_Header = h,
        o_Body = r_Body r, o_span = cx_span (r_ctx r)\<rparr>"

definition outbound :: "url \<Rightarrow> request \<Rightarrow> header \<Rightarrow> outreq" where
  "outbound target r h =
     (let q = outbound_base target r h;
          up = upgradeType (o_Header q);
          hd = remove_hop_headers (o_Header q);
          hd = (if HeaderValuesContainsToken (hdr_values h ''Te'') ''trailers''
                then hdr_Set ''Te'' ''trailers'' hd else hd);
          hd = (if up \<noteq> '''' then hdr_Set ''Upgrade'' up (hdr_Set ''Connection'' ''Upgrade'' hd)
                else hd);
          hd = forwarded_for (r_RemoteAddr r) hd in
      q\<lparr>o_Header := hd\<rparr>)"

text \<open>\<open>copyHeader\<close>: every value is added to the response's header.\<close>

definition copyHeader :: "header \<Rightarrow> header \<Rightarrow> header" where
  "copyHeader src dst =
     (\<lambda>k. case src k of
            None \<Rightarrow> dst k
          | Some [] \<Rightarrow> dst k
          | Some (v # vs) \<Rightarrow> Some ((case dst k of None \<Rightarrow> [] | Some old \<Rightarrow> old) @ v # vs))"

text \<open>The default error handler.\<close>

definition error_502 :: "writer \<Rightarrow> writer" where
  "error_502 w = WriteHeader w 502"

text \<open>\<open>WriteHeader\<close> of the server's writer panics on codes outside 100 to 999, before it sends
  anything; the wrappers' own fields are lost with the unwinding stack.\<close>

definition valid_code :: "int \<Rightarrow> bool" where
  "valid_code c = (100 \<le> c \<and> c \<le> 999)"

definition deliver :: "response \<Rightarrow> writer \<Rightarrow> outcome \<times> writer" where
  "deliver res w =
     (let w = on_header (copyHeader (remove_hop_headers (rs_Header res))) w in
      if \<not> valid_code (rs_StatusCode res) then (Panicked, w)
      else
        (let w = WriteHeader w (rs_StatusCode res);
             w = (if rs_Body res = '''' then w else Write w (rs_Body res)) in
         if rs_copy_fails res then (Panicked, w) else (Returned, w)))"

definition ReverseProxy_ServeHTTP :: "env \<Rightarrow> ReverseProxy \<Rightarrow> handler" where
  "ReverseProxy_ServeHTTP e p r w s =
     (let h = w_reqhdr s in
      if \<not> IsPrint (upgradeType (o_Header (outbound_base (rp_target p) r h)))
      then (Returned, error_502 w, s)
      else
        (let (res, s) = RoundTrip e (rp_Transport p) (outbound (rp_target p) r h) s in
         case res of
           Inl err \<Rightarrow> (Returned, error_502 w, s)
         | Inr resp \<Rightarrow>
             if rs_StatusCode resp = 101 then (Returned, error_502 w, s)
             else (let (out, w) = deliver resp w in (out, w, s))))"

section \<open>The gateway's handler\<close>

definition notFound_body :: string where
  "notFound_body =
     [CHR ''{'', quote] @ ''error'' @ [quote, CHR '':'', quote] @ ''no route matched'' @
     [quote, CHR ''}'', newline]"

definition notFound :: handler where
  "notFound r w s =
     (let w = on_header (hdr_Set ''Content-Type'' ''application/json'') w;
          w = WriteHeader w 404;
          w = Write w notFound_body in
      (Returned, w, s))"

text \<open>\<open>h.proxies[route.Prefix]\<close> of a missing key is \<open>nil\<close>, and serving with it panics.\<close>

definition Handler_ServeHTTP :: "env \<Rightarrow> Handler \<Rightarrow> handler" where
  "Handler_ServeHTTP e h r w s =
     (case Match (hd_router h) (u_path (r_URL r)) of
        None \<Rightarrow> notFound r w s
      | Some route \<Rightarrow>
          (let w = stamp_route w (Prefix route);
               cid = CorrelationIDFromContext (r_ctx r);
               s = (if cid \<noteq> ''''
                    then s\<lparr>w_reqhdr := hdr_Set CorrelationIDHeader cid (w_reqhdr s)\<rparr> else s) in
           case hd_proxies h (Prefix route) of
             None \<Rightarrow> (Panicked, w, s)
           | Some p \<Rightarrow> ReverseProxy_ServeHTTP e p r w s))"

section \<open>Lemmas\<close>

subsection \<open>Headers\<close>

lemma fold_hdr_Del:
  "fold hdr_Del ks h k = (if k \<in> CanonicalHeaderKey ` set ks then None else h k)"
  by (induction ks arbitrary: h) (auto simp: hdr_Del_def)

lemma remove_hop_headers_apply:
  "remove_hop_headers h k =
     (if k \<in> CanonicalHeaderKey ` (set hopHeaders \<union> set (connection_names h)) then None else h k)"
  by (simp add: remove_hop_headers_def removeConnectionHeaders_def fold_hdr_Del image_Un)

text \<open>The canonical spellings of the names the code and the library use.\<close>

lemma canonical_names [simp]:
  "CanonicalHeaderKey ''X-Correlation-ID'' = ''X-Correlation-Id''"
  "CanonicalHeaderKey ''Connection'' = ''Connection''"
  "CanonicalHeaderKey ''Upgrade'' = ''Upgrade''"
  "CanonicalHeaderKey ''Te'' = ''Te''"
  "CanonicalHeaderKey ''User-Agent'' = ''User-Agent''"
  "CanonicalHeaderKey ''X-Forwarded-For'' = ''X-Forwarded-For''"
  "CanonicalHeaderKey ''Content-Type'' = ''Content-Type''"
  "CanonicalHeaderKey ''Allow'' = ''Allow''"
  by code_simp+

lemma canonical_hop_headers: "CanonicalHeaderKey ` set hopHeaders = set hopHeaders"
  by code_simp

lemma connection_names_cong:
  "h ''Connection'' = h' ''Connection'' \<Longrightarrow> connection_names h = connection_names h'"
  by (simp add: connection_names_def hdr_values_def)

text \<open>The end-to-end headers: those the library neither strips nor sets on an outgoing request.\<close>

definition end_to_end :: "string \<Rightarrow> bool" where
  "end_to_end k = (k \<notin> set hopHeaders \<and> k \<noteq> ''User-Agent'' \<and> k \<noteq> ''X-Forwarded-For'')"

lemma end_to_endD:
  "end_to_end k \<Longrightarrow> k \<noteq> ''Connection'' \<and> k \<noteq> ''Upgrade'' \<and> k \<noteq> ''Te'' \<and> k \<noteq> ''User-Agent'' \<and>
     k \<noteq> ''X-Forwarded-For''"
  by (auto simp: end_to_end_def hopHeaders_def)

lemma Director_fields:
  "o_Method (Director t q) = o_Method q" "o_Host (Director t q) = o_Host q"
  "o_Body (Director t q) = o_Body q" "o_span (Director t q) = o_span q"
  "u_scheme (o_URL (Director t q)) = u_scheme t" "u_host (o_URL (Director t q)) = u_host t"
  "k \<noteq> ''User-Agent'' \<Longrightarrow> o_Header (Director t q) k = o_Header q k"
  by (auto simp: Director_def Let_def hdr_Set_def split: prod.splits)

lemma outbound_base_header:
  "k \<noteq> ''User-Agent'' \<Longrightarrow> o_Header (outbound_base t r h) k = h k"
  by (simp add: outbound_base_def Director_fields)

lemma outbound_fields:
  "o_Method (outbound t r h) = r_Method r" "o_Host (outbound t r h) = r_Host r"
  "o_Body (outbound t r h) = r_Body r" "o_span (outbound t r h) = cx_span (r_ctx r)"
  "o_URL (outbound t r h) = o_URL (outbound_base t r h)"
  "u_scheme (o_URL (outbound_base t r h)) = u_scheme t"
  "u_host (o_URL (outbound_base t r h)) = u_host t"
  by (simp_all add: outbound_def outbound_base_def Director_fields Let_def)

lemma forwarded_for_other:
  "k \<noteq> ''X-Forwarded-For'' \<Longrightarrow> forwarded_for remote h k = h k"
  by (simp add: forwarded_for_def hdr_Set_def Let_def split: option.splits)

lemma outbound_header:
  assumes "end_to_end k"
  shows "o_Header (outbound t r h) k =
    (if k \<in> CanonicalHeaderKey ` set (connection_names h) then None else h k)"
proof -
  note ne = end_to_endD [OF assms]
  have "connection_names (o_Header (outbound_base t r h)) = connection_names h"
    by (rule connection_names_cong) (simp add: outbound_base_header)
  then have "remove_hop_headers (o_Header (outbound_base t r h)) k =
      (if k \<in> CanonicalHeaderKey ` set (connection_names h) then None else h k)"
    using assms ne
    by (simp add: remove_hop_headers_apply image_Un canonical_hop_headers outbound_base_header
        end_to_end_def)
  then show ?thesis
    using ne by (simp add: outbound_def Let_def forwarded_for_other hdr_Set_def)
qed

lemma correlation_end_to_end [simp]: "end_to_end ''X-Correlation-Id''"
  by code_simp

lemma singleJoiningSlash_absolute:
  assumes "HasPrefix b ''/''"
  shows "singleJoiningSlash a b = (if HasSuffix a ''/'' then butlast a else a) @ b"
proof -
  obtain b' where b: "b = CHR ''/'' # b'"
    using assms by (cases b) (auto simp: HasPrefix_iff)
  show ?thesis
  proof (cases "HasSuffix a ''/''")
    case True
    then obtain a' where "a = a' @ ''/''" by (auto simp: HasSuffix_iff suffix_def)
    with b True show ?thesis by (simp add: singleJoiningSlash_def HasPrefix_iff)
  next
    case False
    with b show ?thesis by (simp add: singleJoiningSlash_def HasPrefix_iff)
  qed
qed

subsection \<open>One run of the reverse proxy\<close>

text \<open>Trace context is the only thing an instrumented transport may change on the wire.\<close>

lemma instrumented_keeps_header:
  assumes "\<And>sc h. e_inject e sc h k = h k"
    and "\<And>req s. \<exists>t q. w_sent (snd (rt req s)) = w_sent s @ [(t, q)] \<and> o_Header q k = o_Header req k"
  shows "\<exists>t q. w_sent (snd (instrumented_RoundTrip e tr rt req s)) = w_sent s @ [(t, q)] \<and>
    o_Header q k = o_Header req k"
proof (cases tr)
  case None
  with assms(2) show ?thesis by (simp add: instrumented_RoundTrip_def)
next
  case (Some nm)
  let ?sc = "e_start e (w_spans s) (o_span req)"
  let ?req = "req\<lparr>o_Header := e_inject e ?sc (o_Header req), o_span := ?sc\<rparr>"
  let ?s = "snd (snd (tracer_Start e (o_span req) ''gateway.proxy.upstream'' ''client''
                 [(''http.method'', AString (o_Method req)),
                  (''http.url'', AString (url_String (o_URL req))),
                  (''upstream.host'', AString (u_host (o_URL req)))] s))"
  obtain res s2 where rt: "rt ?req ?s = (res, s2)" by fastforce
  obtain t q where "w_sent s2 = w_sent ?s @ [(t, q)]" and "o_Header q k = o_Header ?req k"
    using assms(2) [of ?req ?s] rt by auto
  then have "w_sent (snd (instrumented_RoundTrip e tr rt req s)) = w_sent s @ [(t, q)] \<and>
      o_Header q k = o_Header req k"
    using Some assms(1) rt
    by (cases res) (simp_all add: instrumented_RoundTrip_def tracer_Start_def span_call_def Let_def)
  then show ?thesis by blast
qed

lemma RoundTrip_keeps_header:
  assumes "\<And>sc h. e_inject e sc h k = h k"
  shows "\<exists>t' q. w_sent (snd (RoundTrip e t req s)) = w_sent s @ [(t', q)] \<and>
    o_Header q k = o_Header req k"
  using assms
proof (induction e t arbitrary: req s rule: RoundTrip.induct)
  case (1 e tr)
  show ?case
    using instrumented_keeps_header [of e k "wire_RoundTrip e DefaultTransport" tr req s] 1
    by (simp add: wire_RoundTrip_def)
next
  case (2 e tr t)
  show ?case
    using instrumented_keeps_header [of e k "RoundTrip e t" tr req s] 2 by simp
qed (simp_all add: wire_RoundTrip_def)

text \<open>The calls a delivered response makes on the writer.\<close>

definition deliver_ops :: "response \<Rightarrow> writer_op list" where
  "deliver_ops res =
     OpHeader (copyHeader (remove_hop_headers (rs_Header res))) #
     (if valid_code (rs_StatusCode res)
      then OpWriteHeader (rs_StatusCode res) #
        (if rs_Body res = '''' then [] else [OpWrite (rs_Body res)])
      else [])"

lemma deliver_eq:
  "deliver res w =
     (if valid_code (rs_StatusCode res) \<and> \<not> rs_copy_fails res then Returned else Panicked,
      run_ops (deliver_ops res) w)"
  by (simp add: deliver_def deliver_ops_def Let_def)

text \<open>The answer to the client as a function of the round trip's result.\<close>

definition answer :: "string + response \<Rightarrow> outcome \<times> writer_op list" where
  "answer res =
     (case res of
        Inl err \<Rightarrow> (Returned, [OpWriteHeader 502])
      | Inr resp \<Rightarrow>
          if rs_StatusCode resp = 101 then (Returned, [OpWriteHeader 502])
          else (if valid_code (rs_StatusCode resp) \<and> \<not> rs_copy_fails resp then Returned
                else Panicked, deliver_ops resp))"

definition sane_upgrade :: "header \<Rightarrow> bool" where
  "sane_upgrade h = IsPrint (upgradeType h)"

lemma upgradeType_cong:
  "h ''Connection'' = h' ''Connection'' \<Longrightarrow> h ''Upgrade'' = h' ''Upgrade'' \<Longrightarrow>
     upgradeType h = upgradeType h'"
  by (simp add: upgradeType_def hdr_values_def hdr_Get_def)

lemma upgradeType_outbound_base: "upgradeType (o_Header (outbound_base t r h)) = upgradeType h"
  by (rule upgradeType_cong) (simp_all add: outbound_base_header)

lemma ReverseProxy_run:
  "ReverseProxy_ServeHTTP e p r w s =
     (if sane_upgrade (w_reqhdr s)
      then (let (res, s') = RoundTrip e (rp_Transport p) (outbound (rp_target p) r (w_reqhdr s)) s;
                (out, ops) = answer res in
            (out, run_ops ops w, s'))
      else (Returned, WriteHeader w 502, s))"
  by (auto simp: ReverseProxy_ServeHTTP_def sane_upgrade_def upgradeType_outbound_base answer_def
      error_502_def deliver_eq Let_def split: prod.splits sum.splits)

lemma ReverseProxy_effect:
  assumes "sane_upgrade (w_reqhdr s)"
  obtains t q evs n where
    "ReverseProxy_ServeHTTP e p r w s =
       (let (out, ops) = answer (e_backend e (length (w_sent s)) t q) in
        (out, run_ops ops w,
         s\<lparr>w_sent := w_sent s @ [(t, q)], w_spans := n, w_otel := w_otel s @ evs\<rparr>))"
    and "same_call q (outbound (rp_target p) r (w_reqhdr s))" and "well_bracketed evs"
proof -
  let ?q = "outbound (rp_target p) r (w_reqhdr s)"
  obtain t q evs n where
    "RoundTrip e (rp_Transport p) ?q s = (e_backend e (length (w_sent s)) t q,
       s\<lparr>w_sent := w_sent s @ [(t, q)], w_spans := n, w_otel := w_otel s @ evs\<rparr>)"
    and "same_call q ?q" and "well_bracketed evs"
    using RoundTrip_sends_once [of e "rp_Transport p"] unfolding sends_once_def by meson
  with assms that show thesis by (simp add: ReverseProxy_run)
qed

subsection \<open>One run of the gateway's handler\<close>

definition notFound_ops :: "writer_op list" where
  "notFound_ops =
     [OpHeader (hdr_Set ''Content-Type'' ''application/json''), OpWriteHeader 404,
      OpWrite notFound_body]"

lemma notFound_eq: "notFound r w s = (Returned, run_ops notFound_ops w, s)"
  by (simp add: notFound_def notFound_ops_def Let_def)

text \<open>The state after the correlation ID went into the request's header map.\<close>

definition with_id :: "request \<Rightarrow> world \<Rightarrow> world" where
  "with_id r s =
     (let cid = CorrelationIDFromContext (r_ctx r) in
      if cid \<noteq> '''' then s\<lparr>w_reqhdr := hdr_Set CorrelationIDHeader cid (w_reqhdr s)\<rparr> else s)"

lemma with_id_fields:
  "w_sent (with_id r s) = w_sent s" "w_spans (with_id r s) = w_spans s"
  "w_otel (with_id r s) = w_otel s"
  by (simp_all add: with_id_def Let_def)

lemma with_id_other:
  "k \<noteq> ''X-Correlation-Id'' \<Longrightarrow> w_reqhdr (with_id r s) k = w_reqhdr s k"
  by (simp add: with_id_def Let_def hdr_Set_def CorrelationIDHeader_def)

lemma with_id_update: "\<exists>h'. with_id r s = s\<lparr>w_reqhdr := h'\<rparr>"
proof (cases "CorrelationIDFromContext (r_ctx r) = ''''")
  case True
  then have "with_id r s = s\<lparr>w_reqhdr := w_reqhdr s\<rparr>" by (simp add: with_id_def)
  then show ?thesis by blast
next
  case False
  then show ?thesis by (auto simp: with_id_def Let_def)
qed

lemma sane_upgrade_with_id [simp]: "sane_upgrade (w_reqhdr (with_id r s)) = sane_upgrade (w_reqhdr s)"
proof -
  have "upgradeType (w_reqhdr (with_id r s)) = upgradeType (w_reqhdr s)"
    by (rule upgradeType_cong) (simp_all add: with_id_other)
  then show ?thesis by (simp add: sane_upgrade_def)
qed

lemma Handler_run:
  "Handler_ServeHTTP e h r w s =
     (case Match (hd_router h) (u_path (r_URL r)) of
        None \<Rightarrow> (Returned, run_ops notFound_ops w, s)
      | Some x \<Rightarrow>
          (case hd_proxies h (Prefix x) of
             None \<Rightarrow> (Panicked, stamp_route w (Prefix x), with_id r s)
           | Some p \<Rightarrow> ReverseProxy_ServeHTTP e p r (stamp_route w (Prefix x)) (with_id r s)))"
  by (simp add: Handler_ServeHTTP_def notFound_eq with_id_def Let_def split: option.splits)

text \<open>Whatever it does, it only calls methods of its writer and changes only the request's
  header map, the wire and the trace.\<close>

lemma Handler_effect:
  obtains out ops h' sent n evs where
    "Handler_ServeHTTP e h r w s = (out, run_ops ops w,
       s\<lparr>w_reqhdr := h', w_sent := w_sent s @ sent, w_spans := n, w_otel := w_otel s @ evs\<rparr>)"
    and "well_bracketed evs" and "length sent \<le> 1"
proof (cases "Match (hd_router h) (u_path (r_URL r))")
  case None
  with that [where out = Returned and ops = notFound_ops and h' = "w_reqhdr s" and sent = "[]"
        and n = "w_spans s" and evs = "[]"] show thesis
    by (simp add: Handler_run)
next
  case (Some x)
  let ?st = "OpStamp (Prefix x)"
  obtain h' where s: "with_id r s = s\<lparr>w_reqhdr := h'\<rparr>" using with_id_update by blast
  have same: "s\<lparr>w_reqhdr := h'\<rparr> = s\<lparr>w_reqhdr := h', w_sent := w_sent s @ [],
      w_spans := w_spans s, w_otel := w_otel s @ []\<rparr>" by simp
  show thesis
  proof (cases "hd_proxies h (Prefix x)")
    case None
    with that [where out = Panicked and ops = "[?st]" and h' = h' and sent = "[]"
        and n = "w_spans s" and evs = "[]"] Some same show thesis
      by (simp add: Handler_run s)
  next
    case (Some p)
    with \<open>Match _ _ = Some x\<close> have run: "Handler_ServeHTTP e h r w s =
        ReverseProxy_ServeHTTP e p r (stamp_route w (Prefix x)) (s\<lparr>w_reqhdr := h'\<rparr>)"
      by (simp add: Handler_run s)
    show thesis
    proof (cases "sane_upgrade h'")
      case True
      then have "sane_upgrade (w_reqhdr (s\<lparr>w_reqhdr := h'\<rparr>))" by simp
      then obtain t q evs n where rp:
        "ReverseProxy_ServeHTTP e p r (stamp_route w (Prefix x)) (s\<lparr>w_reqhdr := h'\<rparr>) =
          (let (out, ops) = answer (e_backend e (length (w_sent (s\<lparr>w_reqhdr := h'\<rparr>))) t q) in
           (out, run_ops ops (stamp_route w (Prefix x)),
            s\<lparr>w_reqhdr := h', w_sent := w_sent (s\<lparr>w_reqhdr := h'\<rparr>) @ [(t, q)], w_spans := n,
              w_otel := w_otel (s\<lparr>w_reqhdr := h'\<rparr>) @ evs\<rparr>))"
        and evs: "well_bracketed evs"
        by (rule ReverseProxy_effect)
      obtain out ops where "answer (e_backend e (length (w_sent s)) t q) = (out, ops)"
        by fastforce
      with that [where out = out and ops = "?st # ops" and h' = h' and sent = "[(t, q)]"
          and n = n and evs = evs] rp evs run show thesis
        by simp
    next
      case False
      with that [where out = Returned and ops = "[?st, OpWriteHeader 502]" and h' = h'
          and sent = "[]" and n = "w_spans s" and evs = "[]"] run same show thesis
        by (simp add: ReverseProxy_run)
    qed
  qed
qed

interpretation not_found: inner_handler notFound
  by (rule inner_handlerI) (auto simp: notFound_eq)

interpretation proxy: inner_handler "Handler_ServeHTTP e h" for e h
proof unfold_locales
  fix r w s out w' s'
  assume run: "Handler_ServeHTTP e h r w s = (out, w', s')"
  obtain out1 ops h' sent n evs where eff:
    "Handler_ServeHTTP e h r w s = (out1, run_ops ops w,
       s\<lparr>w_reqhdr := h', w_sent := w_sent s @ sent, w_spans := n, w_otel := w_otel s @ evs\<rparr>)"
    "well_bracketed evs"
    using Handler_effect by metis
  show "\<exists>ops. w' = run_ops ops w" using run eff by auto
  show "w_stdout s' = w_stdout s" "w_metrics s' = w_metrics s" using run eff by auto
  show "\<exists>evs. w_otel s' = w_otel s @ evs \<and> well_bracketed evs" using run eff by auto
qed

lemma Handler_matched:
  assumes "good_handler cfg h" and "Match (hd_router h) (u_path (r_URL r)) = Some x"
  obtains b p where "Backend x = Some b" and "hd_proxies h (Prefix x) = Some p" and "rp_target p = b"
    and "\<And>w s. Handler_ServeHTTP e h r w s =
      ReverseProxy_ServeHTTP e p r (stamp_route w (Prefix x)) (with_id r s)"
proof -
  obtain b where b: "Backend x = Some b" and p: "hd_proxies h (Prefix x) =
      Some (newReverseProxy b (bc_BackendTimeout cfg) (bc_Pool cfg) (bc_Protocol cfg)
        (bc_TransportWrapper cfg))"
    using good_handler_proxy [OF assms] by blast
  from that [OF b p] p assms(2) show thesis by (simp add: Handler_run newReverseProxy_def)
qed

lemma with_id_header:
  assumes "CorrelationIDFromContext (r_ctx r) = cid" and "cid \<noteq> ''''"
  shows "w_reqhdr (with_id r s) ''X-Correlation-Id'' = Some [cid]"
  using assms by (simp add: with_id_def Let_def hdr_Set_def CorrelationIDHeader_def)

text \<open>What the connection holds after an answer was delivered on an untouched writer.\<close>

lemma deliver_conn:
  assumes "in_step w" and "\<not> header_sent w" and "valid_code (rs_StatusCode res)"
  defines "c \<equiv> conn_of (run_ops (deliver_ops res) w)"
  shows "cn_status c = rs_StatusCode res" and "cn_body c = cn_body (conn_of w) @ rs_Body res"
    and "cn_sent c = copyHeader (remove_hop_headers (rs_Header res)) (cn_header (conn_of w))"
    and "cn_wrote c"
  using assms
  by (simp_all add: deliver_ops_def conn_of_first_WriteHeader header_sent_conn conn_WriteHeader_def
      conn_Write_def Let_def)

lemma error_conn:
  assumes "in_step w" and "\<not> header_sent w"
  shows "cn_status (conn_of (WriteHeader w 502)) = 502"
    and "cn_body (conn_of (WriteHeader w 502)) = cn_body (conn_of w)"
  using assms by (simp_all add: conn_of_first_WriteHeader header_sent_conn conn_WriteHeader_def)

lemma copyHeader_values:
  "hdr_values (copyHeader src dst) k = hdr_values dst k @ hdr_values src k"
  by (auto simp: hdr_values_def copyHeader_def split: option.splits list.splits)

lemma remove_hop_headers_values:
  "CanonicalHeaderKey k \<notin> set hopHeaders \<Longrightarrow>
   hdr_values (remove_hop_headers h) k =
     (if CanonicalHeaderKey k \<in> CanonicalHeaderKey ` set (connection_names h) then []
      else hdr_values h k)"
  by (simp add: hdr_values_def remove_hop_headers_apply image_Un canonical_hop_headers)

text \<open>A matched request that is forwarded, from its run.\<close>

lemma matched_run:
  assumes "good_handler cfg h" and "Match (hd_router h) (u_path (r_URL r)) = Some x"
    and "sane_upgrade (w_reqhdr s)" and "Handler_ServeHTTP e h r w s = (out, w', s')"
  obtains t q ops where "w_sent s' = w_sent s @ [(t, q)]"
    and "answer (e_backend e (length (w_sent s)) t q) = (out, ops)"
    and "w' = run_ops ops (stamp_route w (Prefix x))"
proof -
  obtain p where run: "\<And>w s. Handler_ServeHTTP e h r w s =
      ReverseProxy_ServeHTTP e p r (stamp_route w (Prefix x)) (with_id r s)"
    using Handler_matched [OF assms(1,2)] by metis
  have sane: "sane_upgrade (w_reqhdr (with_id r s))" using assms(3) by simp
  obtain t q evs n where
    "ReverseProxy_ServeHTTP e p r (stamp_route w (Prefix x)) (with_id r s) =
       (let (out, ops) = answer (e_backend e (length (w_sent (with_id r s))) t q) in
        (out, run_ops ops (stamp_route w (Prefix x)),
         with_id r s\<lparr>w_sent := w_sent (with_id r s) @ [(t, q)], w_spans := n,
           w_otel := w_otel (with_id r s) @ evs\<rparr>))"
    using ReverseProxy_effect [OF sane] by metis
  moreover obtain out1 ops where a: "answer (e_backend e (length (w_sent s)) t q) = (out1, ops)"
    by fastforce
  ultimately show thesis
    using that [of t q ops] assms(4) run by (auto simp: with_id_fields)
qed

lemma matched_effect:
  assumes "good_handler cfg h" and "Match (hd_router h) (u_path (r_URL r)) = Some x"
    and "Handler_ServeHTTP e h r w s = (out, w', s')"
  shows "\<exists>b. Backend x = Some b \<and>
    (if sane_upgrade (w_reqhdr s)
     then \<exists>t q. w_sent s' = w_sent s @ [(t, q)] \<and>
       u_scheme (o_URL q) = u_scheme b \<and> u_host (o_URL q) = u_host b \<and>
       o_Method q = r_Method r \<and> o_Body q = r_Body r \<and> o_Host q = r_Host r
     else w_sent s' = w_sent s \<and> w' = WriteHeader (stamp_route w (Prefix x)) 502)"
proof -
  obtain b p where bp: "Backend x = Some b" "rp_target p = b"
    and run: "\<And>w s. Handler_ServeHTTP e h r w s =
      ReverseProxy_ServeHTTP e p r (stamp_route w (Prefix x)) (with_id r s)"
    using Handler_matched [OF assms(1,2)] by metis
  show ?thesis
  proof (cases "sane_upgrade (w_reqhdr s)")
    case True
    then have sane: "sane_upgrade (w_reqhdr (with_id r s))" by simp
    obtain t q evs n where
      "ReverseProxy_ServeHTTP e p r (stamp_route w (Prefix x)) (with_id r s) =
         (let (out, ops) = answer (e_backend e (length (w_sent (with_id r s))) t q) in
          (out, run_ops ops (stamp_route w (Prefix x)),
           with_id r s\<lparr>w_sent := w_sent (with_id r s) @ [(t, q)], w_spans := n,
             w_otel := w_otel (with_id r s) @ evs\<rparr>))"
      and "same_call q (outbound (rp_target p) r (w_reqhdr (with_id r s)))"
      using ReverseProxy_effect [OF sane] by metis
    with assms(3) run have "w_sent s' = w_sent s @ [(t, q)]"
      and "same_call q (outbound b r (w_reqhdr (with_id r s)))"
      using bp by (auto simp: with_id_fields split: prod.splits)
    with True bp(1) show ?thesis by (auto simp: same_call_def outbound_fields)
  next
    case False
    with assms(3) run bp(1) show ?thesis by (auto simp: ReverseProxy_run with_id_fields)
  qed
qed

lemma forwarded_id:
  assumes "good_handler cfg h" and "Match (hd_router h) (u_path (r_URL r)) = Some x"
    and "sane_upgrade (w_reqhdr s)"
    and "CorrelationIDFromContext (r_ctx r) = cid" and "cid \<noteq> ''''"
    and "\<And>sc hd. e_inject e sc hd ''X-Correlation-Id'' = hd ''X-Correlation-Id''"
  shows "\<exists>t q. w_sent (snd (snd (Handler_ServeHTTP e h r w s))) = w_sent s @ [(t, q)] \<and>
    hdr_values (o_Header q) CorrelationIDHeader =
      (if ''X-Correlation-Id'' \<in> CanonicalHeaderKey ` set (connection_names (w_reqhdr s))
       then [] else [cid])"
proof -
  obtain p where run: "\<And>w s. Handler_ServeHTTP e h r w s =
      ReverseProxy_ServeHTTP e p r (stamp_route w (Prefix x)) (with_id r s)"
    using Handler_matched [OF assms(1,2)] by metis
  let ?h = "w_reqhdr (with_id r s)"
  let ?q = "outbound (rp_target p) r ?h"
  have "connection_names ?h = connection_names (w_reqhdr s)"
    by (rule connection_names_cong) (simp add: with_id_other)
  then have hdr: "o_Header ?q ''X-Correlation-Id'' =
      (if ''X-Correlation-Id'' \<in> CanonicalHeaderKey ` set (connection_names (w_reqhdr s))
       then None else Some [cid])"
    using with_id_header [OF assms(4,5)] by (simp add: outbound_header)
  obtain t q where "w_sent (snd (RoundTrip e (rp_Transport p) ?q (with_id r s))) = w_sent s @ [(t, q)]"
    and "o_Header q ''X-Correlation-Id'' = o_Header ?q ''X-Correlation-Id''"
    using RoundTrip_keeps_header [OF assms(6), of "rp_Transport p" ?q "with_id r s"]
    by (auto simp: with_id_fields)
  then show ?thesis
    using assms(3) hdr
    by (auto simp: run ReverseProxy_run hdr_values_def CorrelationIDHeader_def split: prod.splits)
qed

lemma client_answer:
  assumes "good_handler cfg h" and "Match (hd_router h) (u_path (r_URL r)) = Some x"
    and "sane_upgrade (w_reqhdr s)" and "in_step w" and "\<not> header_sent w"
    and "Handler_ServeHTTP e h r w s = (out, w', s')"
  shows "\<exists>t q. w_sent s' = w_sent s @ [(t, q)] \<and>
    (case e_backend e (length (w_sent s)) t q of
       Inl err \<Rightarrow> out = Returned \<and> cn_status (conn_of w') = 502 \<and>
         cn_body (conn_of w') = cn_body (conn_of w)
     | Inr resp \<Rightarrow>
         if rs_StatusCode resp = 101
         then out = Returned \<and> cn_status (conn_of w') = 502 \<and>
           cn_body (conn_of w') = cn_body (conn_of w)
         else (out = Panicked \<longleftrightarrow> rs_copy_fails resp \<or> \<not> valid_code (rs_StatusCode resp)) \<and>
           (valid_code (rs_StatusCode resp) \<longrightarrow>
              cn_status (conn_of w') = rs_StatusCode resp \<and>
              cn_body (conn_of w') = cn_body (conn_of w) @ rs_Body resp))"
proof -
  let ?w = "stamp_route w (Prefix x)"
  have w: "in_step ?w" "\<not> header_sent ?w" using assms(4,5) by simp_all
  obtain t q ops where sent: "w_sent s' = w_sent s @ [(t, q)]"
    and a: "answer (e_backend e (length (w_sent s)) t q) = (out, ops)" and w': "w' = run_ops ops ?w"
    using matched_run [OF assms(1-3,6)] .
  show ?thesis
    using a w' error_conn [OF w] deliver_conn [OF w]
    by (intro exI [of _ t] exI [of _ q] conjI sent)
      (auto simp: answer_def split: sum.splits if_splits)
qed

lemma merged_headers:
  assumes "good_handler cfg h" and "Match (hd_router h) (u_path (r_URL r)) = Some x"
    and "sane_upgrade (w_reqhdr s)" and "in_step w" and "\<not> header_sent w"
    and "Handler_ServeHTTP e h r w s = (Returned, w', s')"
    and "CanonicalHeaderKey k \<notin> set hopHeaders"
  shows "\<exists>t q. w_sent s' = w_sent s @ [(t, q)] \<and>
    (\<forall>resp. e_backend e (length (w_sent s)) t q = Inr resp \<and> rs_StatusCode resp \<noteq> 101 \<longrightarrow>
       hdr_values (cn_sent (conn_of w')) k = hdr_values (cn_header (conn_of w)) k @
         (if CanonicalHeaderKey k \<in> CanonicalHeaderKey ` set (connection_names (rs_Header resp))
          then [] else hdr_values (rs_Header resp) k))"
proof -
  let ?w = "stamp_route w (Prefix x)"
  have w: "in_step ?w" "\<not> header_sent ?w" using assms(4,5) by simp_all
  obtain t q ops where sent: "w_sent s' = w_sent s @ [(t, q)]"
    and a: "answer (e_backend e (length (w_sent s)) t q) = (Returned, ops)"
    and w': "w' = run_ops ops ?w"
    using matched_run [OF assms(1-3,6)] .
  have "hdr_values (cn_sent (conn_of w')) k = hdr_values (cn_header (conn_of w)) k @
      hdr_values (remove_hop_headers (rs_Header resp)) k"
    if "e_backend e (length (w_sent s)) t q = Inr resp" "rs_StatusCode resp \<noteq> 101" for resp
    using a w' that deliver_conn(3) [OF w]
    by (auto simp: answer_def copyHeader_values split: if_splits)
  with sent show ?thesis
    by (intro exI [of _ t] exI [of _ q]) (simp add: remove_hop_headers_values [OF assms(7)])
qed

text \<open>A gateway for the witnesses.\<close>

definition demo_cfg :: BuildConfig where
  "demo_cfg =
     \<lparr>bc_BackendTimeout = 5 * Second,
      bc_Pool = \<lparr>pc_MaxIdleConnsPerHost = 128, pc_IdleConnTimeout = 90 * Second\<rparr>,
      bc_Protocol = UpstreamHTTP1, bc_TransportWrapper = None\<rparr>"

definition demo_gateway :: Handler where
  "demo_gateway =
     (case New_with demo_cfg (Some \<lparr>routes = rev demo_routes\<rparr>) of
        Inl e \<Rightarrow> \<lparr>hd_router = \<lparr>routes = []\<rparr>, hd_proxies = Map.empty\<rparr>
      | Inr h \<Rightarrow> h)"

lemma demo_gateway_good:
  "good_handler demo_cfg demo_gateway" "hd_router demo_gateway = \<lparr>routes = rev demo_routes\<rparr>"
proof -
  obtain h where "New_with demo_cfg (Some \<lparr>routes = rev demo_routes\<rparr>) = Inr h"
    "hd_router h = \<lparr>routes = rev demo_routes\<rparr>" "good_handler demo_cfg h"
    using New_with_good [OF NewRouter_well_formed [OF demo_routes_accepted]] .
  then show "good_handler demo_cfg demo_gateway"
    "hd_router demo_gateway = \<lparr>routes = rev demo_routes\<rparr>"
    by (simp_all add: demo_gateway_def)
qed

lemma demo_gateway_match:
  "Match (hd_router demo_gateway) (u_path (r_URL (demo_request ''POST'' ''/decide/x'')))
     = Some (demo_routes ! 1)"
  "Match (hd_router demo_gateway) (u_path (r_URL (demo_request ''OPTIONS'' ''*''))) = None"
  unfolding demo_gateway_good(2) by code_simp+

lemma quiet_world_sane: "sane_upgrade (w_reqhdr quiet_world)"
  by code_simp

lemma new_conn_ready [simp]: "in_step (Conn new_conn)" "\<not> header_sent (Conn new_conn)"
  by (simp_all add: new_conn_def)

section \<open>Properties\<close>

text \<open>A request no route matches is answered by the gateway itself with status 404, JSON
  content type and one constant body, whatever the request holds; no backend is called and
  nothing of the gateway's state changes.\<close>

theorem unmatched_is_404:
  assumes "Match (hd_router h) (u_path (r_URL r)) = None" and "in_step w" and "\<not> header_sent w"
  shows "\<exists>w'. Handler_ServeHTTP e h r w s = (Returned, w', s) \<and>
    cn_status (conn_of w') = 404 \<and> cn_body (conn_of w') = cn_body (conn_of w) @ notFound_body \<and>
    hdr_values (cn_sent (conn_of w')) ''Content-Type'' = [''application/json'']"
  using assms
  by (simp add: Handler_run notFound_ops_def conn_of_first_WriteHeader header_sent_conn
      conn_WriteHeader_def conn_Write_def Let_def)

theorem unmatched_is_404_witness:
  "\<exists>w'. Handler_ServeHTTP demo_env demo_gateway (demo_request ''OPTIONS'' ''*'') (Conn new_conn)
     quiet_world = (Returned, w', quiet_world) \<and> cn_status (conn_of w') = 404"
  using unmatched_is_404 [OF demo_gateway_match(2) new_conn_ready, of demo_env quiet_world] by blast

text \<open>A matched request goes to the backend of the matched route and to no other: one
  request, with that backend's scheme and host and the client's method, body and \<open>Host\<close>
  header. The only matched requests not forwarded are those asking for an upgrade to an
  unprintable protocol; they are answered with 502.\<close>

theorem matched_goes_to_its_backend:
  assumes "good_handler cfg h" and "Match (hd_router h) (u_path (r_URL r)) = Some x"
    and "Handler_ServeHTTP e h r w s = (out, w', s')"
  shows "\<exists>b. Backend x = Some b \<and>
    (if sane_upgrade (w_reqhdr s)
     then \<exists>t q. w_sent s' = w_sent s @ [(t, q)] \<and>
       u_scheme (o_URL q) = u_scheme b \<and> u_host (o_URL q) = u_host b \<and>
       o_Method q = r_Method r \<and> o_Body q = r_Body r \<and> o_Host q = r_Host r
     else w_sent s' = w_sent s \<and> w' = WriteHeader (stamp_route w (Prefix x)) 502)"
  using assms by (rule matched_effect)

theorem matched_goes_to_its_backend_witness:
  "\<exists>t q. w_sent (snd (snd (Handler_ServeHTTP demo_env demo_gateway
      (demo_request ''POST'' ''/decide/x'') (Conn new_conn) quiet_world))) = [(t, q)] \<and>
     u_host (o_URL q) = ''svc:8080''"
proof -
  obtain out w' s' where run: "Handler_ServeHTTP demo_env demo_gateway
      (demo_request ''POST'' ''/decide/x'') (Conn new_conn) quiet_world = (out, w', s')"
    by (metis prod_cases3)
  have b: "Backend (demo_routes ! 1) = Some (demo_url ''svc:8080'')" by code_simp
  have "w_sent quiet_world = []" "u_host (demo_url ''svc:8080'') = ''svc:8080''" by code_simp+
  then show ?thesis
    using matched_goes_to_its_backend [OF demo_gateway_good(1) demo_gateway_match(1) run]
      quiet_world_sane b run by auto
qed

text \<open>The correlation ID in the request's context, the one echoed to the client and logged,
  is the only \<open>X-Correlation-ID\<close> the backend sees, whatever the client sent; the exception
  is a client that names the header in \<open>Connection\<close>: then the backend sees none. (The
  OpenTelemetry propagator is taken to leave that header alone.)\<close>

theorem correlation_id_forwarded:
  assumes "good_handler cfg h" and "Match (hd_router h) (u_path (r_URL r)) = Some x"
    and "sane_upgrade (w_reqhdr s)"
    and "CorrelationIDFromContext (r_ctx r) = cid" and "cid \<noteq> ''''"
    and "\<And>sc hd. e_inject e sc hd ''X-Correlation-Id'' = hd ''X-Correlation-Id''"
  shows "\<exists>t q. w_sent (snd (snd (Handler_ServeHTTP e h r w s))) = w_sent s @ [(t, q)] \<and>
    hdr_values (o_Header q) CorrelationIDHeader =
      (if ''X-Correlation-Id'' \<in> CanonicalHeaderKey ` set (connection_names (w_reqhdr s))
       then [] else [cid])"
  using assms by (rule forwarded_id)

theorem correlation_id_forwarded_witness:
  "\<exists>t q. w_sent (snd (snd (Handler_ServeHTTP demo_env demo_gateway
      (demo_request ''POST'' ''/decide/x''\<lparr>r_ctx := \<lparr>cx_correlation = Some ''id-1'',
         cx_span = no_span\<rparr>\<rparr>) (Conn new_conn) quiet_world))) = [(t, q)] \<and>
     hdr_values (o_Header q) CorrelationIDHeader = [''id-1'']"
proof -
  let ?r = "demo_request ''POST'' ''/decide/x''\<lparr>r_ctx := \<lparr>cx_correlation = Some ''id-1'',
         cx_span = no_span\<rparr>\<rparr>"
  have m: "Match (hd_router demo_gateway) (u_path (r_URL ?r)) = Some (demo_routes ! 1)"
    using demo_gateway_match(1) by simp
  have c: "CorrelationIDFromContext (r_ctx ?r) = ''id-1''" by code_simp
  have i: "e_inject demo_env sc hd ''X-Correlation-Id'' = hd ''X-Correlation-Id''" for sc hd
    by (simp add: demo_env_def)
  have "w_sent quiet_world = []" "connection_names (w_reqhdr quiet_world) = []" by code_simp+
  then show ?thesis
    using correlation_id_forwarded [OF demo_gateway_good(1) m quiet_world_sane c _ i,
      of "Conn new_conn"] by simp
qed

text \<open>What the client gets for a forwarded request, case by case. A failed round trip or an
  attempted protocol switch (101) becomes 502 with no body. Any other answer passes through:
  the client gets the backend's status and body. The handler panics, which aborts the
  connection, exactly when copying the body breaks off or the backend's status is no valid
  status code.\<close>

theorem client_gets_backend_answer:
  assumes "good_handler cfg h" and "Match (hd_router h) (u_path (r_URL r)) = Some x"
    and "sane_upgrade (w_reqhdr s)" and "in_step w" and "\<not> header_sent w"
    and "Handler_ServeHTTP e h r w s = (out, w', s')"
  shows "\<exists>t q. w_sent s' = w_sent s @ [(t, q)] \<and>
    (case e_backend e (length (w_sent s)) t q of
       Inl err \<Rightarrow> out = Returned \<and> cn_status (conn_of w') = 502 \<and>
         cn_body (conn_of w') = cn_body (conn_of w)
     | Inr resp \<Rightarrow>
         if rs_StatusCode resp = 101
         then out = Returned \<and> cn_status (conn_of w') = 502 \<and>
           cn_body (conn_of w') = cn_body (conn_of w)
         else (out = Panicked \<longleftrightarrow> rs_copy_fails resp \<or> \<not> valid_code (rs_StatusCode resp)) \<and>
           (valid_code (rs_StatusCode resp) \<longrightarrow>
              cn_status (conn_of w') = rs_StatusCode resp \<and>
              cn_body (conn_of w') = cn_body (conn_of w) @ rs_Body resp))"
  using assms by (rule client_answer)

theorem client_gets_backend_answer_witness:
  "\<exists>out w' s'. Handler_ServeHTTP demo_env demo_gateway (demo_request ''POST'' ''/decide/x'')
      (Conn new_conn) quiet_world = (out, w', s') \<and> cn_status (conn_of w') = 200 \<and>
      cn_body (conn_of w') = ''ok''"
proof -
  obtain out w' s' where run: "Handler_ServeHTTP demo_env demo_gateway
      (demo_request ''POST'' ''/decide/x'') (Conn new_conn) quiet_world = (out, w', s')"
    by (metis prod_cases3)
  then show ?thesis
    using client_gets_backend_answer [OF demo_gateway_good(1) demo_gateway_match(1)
        quiet_world_sane new_conn_ready run]
    by (auto simp: demo_env_def valid_code_def new_conn_def)
qed

text \<open>C34: response headers are merged, not replaced: for every header that is not hop-by-hop the
  client gets the values the gateway had already set followed by the backend's. So a backend
  that echoes \<open>X-Correlation-ID\<close> makes the header appear twice, the gateway's value first.\<close>

theorem response_headers_merged:
  assumes "good_handler cfg h" and "Match (hd_router h) (u_path (r_URL r)) = Some x"
    and "sane_upgrade (w_reqhdr s)" and "in_step w" and "\<not> header_sent w"
    and "Handler_ServeHTTP e h r w s = (Returned, w', s')"
    and "CanonicalHeaderKey k \<notin> set hopHeaders"
  shows "\<exists>t q. w_sent s' = w_sent s @ [(t, q)] \<and>
    (\<forall>resp. e_backend e (length (w_sent s)) t q = Inr resp \<and> rs_StatusCode resp \<noteq> 101 \<longrightarrow>
       hdr_values (cn_sent (conn_of w')) k = hdr_values (cn_header (conn_of w)) k @
         (if CanonicalHeaderKey k \<in> CanonicalHeaderKey ` set (connection_names (rs_Header resp))
          then [] else hdr_values (rs_Header resp) k))"
  using assms by (rule merged_headers)

definition echo_env :: env where
  "echo_env = demo_env\<lparr>e_backend := (\<lambda>n t q. Inr \<lparr>rs_StatusCode = 200, rs_Status = ''200 OK'',
     rs_Header = o_Header q, rs_Body = ''ok'', rs_copy_fails = False\<rparr>)\<rparr>"

theorem response_headers_merged_witness:
  "let w = on_header (hdr_Set CorrelationIDHeader ''id-1'') (Conn new_conn);
       r = demo_request ''POST'' ''/decide/x''\<lparr>r_ctx := \<lparr>cx_correlation = Some ''id-1'',
             cx_span = no_span\<rparr>\<rparr> in
   \<exists>w' s'. Handler_ServeHTTP echo_env demo_gateway r w quiet_world = (Returned, w', s') \<and>
     take 1 (hdr_values (cn_sent (conn_of w')) CorrelationIDHeader) = [''id-1'']"
proof -
  let ?w = "on_header (hdr_Set CorrelationIDHeader ''id-1'') (Conn new_conn)"
  let ?r = "demo_request ''POST'' ''/decide/x''\<lparr>r_ctx := \<lparr>cx_correlation = Some ''id-1'',
             cx_span = no_span\<rparr>\<rparr>"
  have m: "Match (hd_router demo_gateway) (u_path (r_URL ?r)) = Some (demo_routes ! 1)"
    using demo_gateway_match(1) by simp
  have ready: "in_step ?w" "\<not> header_sent ?w" by (simp_all add: new_conn_def)
  obtain out w' s' where run:
    "Handler_ServeHTTP echo_env demo_gateway ?r ?w quiet_world = (out, w', s')"
    by (metis prod_cases3)
  note answer = client_answer [OF demo_gateway_good(1) m quiet_world_sane ready run]
  have "out \<noteq> Panicked" using answer by (auto simp: echo_env_def valid_code_def)
  then have out: "out = Returned" by (cases out) auto
  have k: "CanonicalHeaderKey CorrelationIDHeader \<notin> set hopHeaders" by code_simp
  obtain t q where all: "\<forall>resp. e_backend echo_env (length (w_sent quiet_world)) t q = Inr resp \<and>
      rs_StatusCode resp \<noteq> 101 \<longrightarrow>
      hdr_values (cn_sent (conn_of w')) CorrelationIDHeader =
        hdr_values (cn_header (conn_of ?w)) CorrelationIDHeader @
        (if CanonicalHeaderKey CorrelationIDHeader
            \<in> CanonicalHeaderKey ` set (connection_names (rs_Header resp))
         then [] else hdr_values (rs_Header resp) CorrelationIDHeader)"
    using response_headers_merged [OF demo_gateway_good(1) m quiet_world_sane ready
        run [unfolded out] k] by blast
  have "\<exists>resp. e_backend echo_env (length (w_sent quiet_world)) t q = Inr resp \<and>
      rs_StatusCode resp \<noteq> 101"
    by (simp add: echo_env_def)
  then have "\<exists>xs. hdr_values (cn_sent (conn_of w')) CorrelationIDHeader =
      hdr_values (cn_header (conn_of ?w)) CorrelationIDHeader @ xs"
    using all by blast
  then show ?thesis using run out by auto
qed

text \<open>An absolute request path (without escapes) is appended to the backend's path without
  its trailing slash, so it reaches the backend verbatim exactly when the backend's URL has
  no path or just a slash. The \<open>Host\<close> header is the client's, not the backend's.\<close>

theorem Director_path:
  assumes "HasPrefix (u_path (o_URL q)) ''/''"
    and "u_rawpath target = ''''" and "u_rawpath (o_URL q) = ''''"
  shows "o_Host (Director target q) = o_Host q \<and>
    u_path (o_URL (Director target q)) =
      (if HasSuffix (u_path target) ''/'' then butlast (u_path target) else u_path target)
      @ u_path (o_URL q) \<and>
    (u_path (o_URL (Director target q)) = u_path (o_URL q) \<longleftrightarrow>
       u_path target = '''' \<or> u_path target = ''/'')"
proof -
  let ?a = "if HasSuffix (u_path target) ''/'' then butlast (u_path target) else u_path target"
  have "u_path (o_URL (Director target q)) = ?a @ u_path (o_URL q)"
    using assms
    by (simp add: Director_def joinURLPath_def singleJoiningSlash_absolute Let_def)
  moreover have "?a = '''' \<longleftrightarrow> u_path target = '''' \<or> u_path target = ''/''"
    by (auto simp: HasSuffix_iff suffix_def butlast_append split: if_splits)
  ultimately show ?thesis by (simp add: Director_fields)
qed

theorem Director_path_witness:
  "u_path (o_URL (Director (demo_url ''svc''\<lparr>u_path := ''/api/''\<rparr>)
     (demo_outreq\<lparr>o_URL := empty_url\<lparr>u_path := ''/decide''\<rparr>\<rparr>))) = ''/api/decide''"
proof -
  have "HasPrefix ''/decide'' ''/''" "HasSuffix ''/api/'' ''/''" by code_simp+
  then show ?thesis
    using Director_path [of "demo_outreq\<lparr>o_URL := empty_url\<lparr>u_path := ''/decide''\<rparr>\<rparr>"
        "demo_url ''svc''\<lparr>u_path := ''/api/''\<rparr>"]
    by (simp add: empty_url_def demo_url_def)
qed

end
