(* ===== verification/Holder.thy ===== *)
theory Holder
  imports Proxy
begin

text \<open>
  \<open>internal/proxy/holder.go\<close>: the \<open>Holder\<close> that lets the route table be replaced under
  traffic. This is the behaviour of its methods one call after another; the mutable field
  \<open>current\<close> is \<open>w_current\<close> of the state, the build options are \<open>ho_cfg\<close>. The interface
  \<open>table_store\<close> says what a store of route tables promises; the holder provides it. Calls that
  overlap, statement by statement under the lock, are the subject of \<open>Swap\<close>.
\<close>

section \<open>The methods\<close>

record Holder =
  ho_cfg :: BuildConfig

definition NewHolder ::
  "router option \<Rightarrow> BuildConfig \<Rightarrow> world \<Rightarrow> (proxy_error + Holder) \<times> world" where
  "NewHolder initialRouter cfg s =
     (case New_with cfg initialRouter of
        Inl err \<Rightarrow> (Inl err, s)
      | Inr h \<Rightarrow> (Inr \<lparr>ho_cfg = cfg\<rparr>, s\<lparr>w_current := Some h\<rparr>))"

text \<open>A \<open>nil\<close> handler would panic when served with.\<close>

definition Holder_ServeHTTP :: "env \<Rightarrow> handler" where
  "Holder_ServeHTTP e r w s =
     (case w_current s of
        None \<Rightarrow> (Panicked, w, s)
      | Some cur \<Rightarrow> Handler_ServeHTTP e cur r w s)"

text \<open>The returned error, if any.\<close>

definition Replace :: "Holder \<Rightarrow> router option \<Rightarrow> world \<Rightarrow> proxy_error option \<times> world" where
  "Replace h router s =
     (case New_with (ho_cfg h) router of
        Inl err \<Rightarrow> (Some err, s)
      | Inr next \<Rightarrow> (None, s\<lparr>w_current := Some next\<rparr>))"

text \<open>\<open>None\<close> is the dereference of a \<open>nil\<close> handler.\<close>

definition Holder_Routes :: "world \<Rightarrow> route list option" where
  "Holder_Routes s = map_option (\<lambda>cur. Routes (hd_router cur)) (w_current s)"

section \<open>The interface of a replaceable table\<close>

text \<open>What the admin endpoint relies on: a table can be read and replaced; a replacement that
  succeeds is what the next read returns, one that fails changes nothing, and in a good state
  there is a table and replacing it with a good router succeeds.\<close>

locale table_store =
  fixes get :: "'s \<Rightarrow> route list option"
    and put :: "router \<Rightarrow> 's \<Rightarrow> 'e option \<times> 's"
    and good :: "'s \<Rightarrow> bool"
  assumes get_good: "good s \<Longrightarrow> \<exists>rs. get s = Some rs \<and> valid_table rs"
    and put_total: "well_formed_router r \<Longrightarrow> \<exists>s'. put r s = (None, s')"
    and get_put: "put r s = (None, s') \<Longrightarrow> get s' = Some (Routes r)"
    and put_good: "well_formed_router r \<Longrightarrow> put r s = (None, s') \<Longrightarrow> good s'"
    and put_error: "put r s = (Some err, s') \<Longrightarrow> s' = s"
begin

lemma put_installs:
  assumes "well_formed_router r"
  obtains s' where "put r s = (None, s')" and "get s' = Some (Routes r)" and "good s'"
  using assms put_total get_put put_good by metis

lemma put_keeps_good:
  "well_formed_router r \<Longrightarrow> put r s = (res, s') \<Longrightarrow> good s \<Longrightarrow> good s'"
  by (cases res) (auto dest: put_good put_error)

text \<open>After a run of replacements the table is the last one that succeeded.\<close>

lemma run_puts_good:
  "list_all well_formed_router rs \<Longrightarrow> good s \<Longrightarrow> good (fold (\<lambda>r s. snd (put r s)) rs s)"
proof (induction rs arbitrary: s)
  case (Cons r rs)
  then show ?case using put_keeps_good [of r s "fst (put r s)" "snd (put r s)"] by simp
qed simp

lemma last_put_wins:
  assumes "well_formed_router r"
  shows "get (fold (\<lambda>r s. snd (put r s)) (rs @ [r]) s) = Some (Routes r)"
proof -
  obtain s' where "put r (fold (\<lambda>r s. snd (put r s)) rs s) = (None, s')"
    and "get s' = Some (Routes r)"
    using put_installs [OF assms] by metis
  then show ?thesis by simp
qed

end

text \<open>A state whose current handler was built with the holder's options.\<close>

definition good_state :: "BuildConfig \<Rightarrow> world \<Rightarrow> bool" where
  "good_state cfg s = (case w_current s of None \<Rightarrow> False | Some h \<Rightarrow> good_handler cfg h)"

lemma New_with_Inr_good:
  assumes "New_with cfg (Some r) = Inr h" and "well_formed_router r"
  shows "good_handler cfg h" and "hd_router h = r"
proof -
  obtain h' where "New_with cfg (Some r) = Inr h'" "hd_router h' = r" "good_handler cfg h'"
    using New_with_good [OF assms(2)] .
  with assms(1) show "good_handler cfg h" "hd_router h = r" by simp_all
qed

lemma well_formed_routerE:
  assumes "well_formed_router r"
  shows "valid_table (Routes r)"
  using assms by (auto simp: well_formed_router_def Routes_def)

lemma Replace_good:
  assumes "well_formed_router r"
  obtains h' where "Replace h (Some r) s = (None, s\<lparr>w_current := Some h'\<rparr>)"
    and "good_handler (ho_cfg h) h'" and "hd_router h' = r"
proof -
  obtain h' where "New_with (ho_cfg h) (Some r) = Inr h'" "hd_router h' = r"
    "good_handler (ho_cfg h) h'"
    using New_with_good [OF assms] .
  with that show thesis by (simp add: Replace_def)
qed

lemma New_with_router: "New_with cfg (Some r) = Inr h \<Longrightarrow> hd_router h = r"
  by (auto simp: New_with_def New_def split: sum.splits)

interpretation store: table_store Holder_Routes "\<lambda>r. Replace h (Some r)" "good_state (ho_cfg h)"
  for h
proof unfold_locales
  fix s assume "good_state (ho_cfg h) s"
  then obtain cur where cur: "w_current s = Some cur" "good_handler (ho_cfg h) cur"
    by (auto simp: good_state_def split: option.splits)
  then have "well_formed_router (hd_router cur)" by (simp add: good_handler_def)
  with cur(1) show "\<exists>rs. Holder_Routes s = Some rs \<and> valid_table rs"
    by (simp add: Holder_Routes_def well_formed_routerE)
next
  fix r s assume "well_formed_router r"
  then obtain h' where "Replace h (Some r) s = (None, s\<lparr>w_current := Some h'\<rparr>)"
    using Replace_good by metis
  then show "\<exists>s'. Replace h (Some r) s = (None, s')" by blast
next
  fix r s s' assume "Replace h (Some r) s = (None, s')"
  then obtain h' where h': "New_with (ho_cfg h) (Some r) = Inr h'" "s' = s\<lparr>w_current := Some h'\<rparr>"
    by (auto simp: Replace_def split: sum.splits)
  then show "Holder_Routes s' = Some (Routes r)"
    using New_with_router by (simp add: Holder_Routes_def)
next
  fix r s s' assume wf: "well_formed_router r" and put: "Replace h (Some r) s = (None, s')"
  obtain h' where "Replace h (Some r) s = (None, s\<lparr>w_current := Some h'\<rparr>)"
    and "good_handler (ho_cfg h) h'"
    using Replace_good [OF wf] by metis
  with put show "good_state (ho_cfg h) s'" by (auto simp: good_state_def)
next
  fix r s err s' assume "Replace h (Some r) s = (Some err, s')"
  then show "s' = s" by (auto simp: Replace_def split: sum.splits)
qed

interpretation holder: inner_handler "Holder_ServeHTTP e" for e
proof unfold_locales
  fix r w s out w' s'
  assume run: "Holder_ServeHTTP e r w s = (out, w', s')"
  have "(\<exists>ops. w' = run_ops ops w) \<and> w_stdout s' = w_stdout s \<and> w_metrics s' = w_metrics s \<and>
      (\<exists>evs. w_otel s' = w_otel s @ evs \<and> well_bracketed evs)"
  proof (cases "w_current s")
    case None
    with run show ?thesis by (auto simp: Holder_ServeHTTP_def intro: exI [of _ "[]"])
  next
    case (Some cur)
    with run have h: "Handler_ServeHTTP e cur r w s = (out, w', s')"
      by (simp add: Holder_ServeHTTP_def)
    from proxy.only_calls [OF h] proxy.keeps_stdout [OF h] proxy.keeps_metrics [OF h]
      proxy.brackets [OF h] show ?thesis by blast
  qed
  then show "\<exists>ops. w' = run_ops ops w" "w_stdout s' = w_stdout s" "w_metrics s' = w_metrics s"
    "\<exists>evs. w_otel s' = w_otel s @ evs \<and> well_bracketed evs"
    by simp_all
qed

section \<open>Properties\<close>

text \<open>C17: replacing the table on a holder is a refinement of overwriting it: after any run of
  replacements by valid tables the table read back is the last one, as \<open>NewRouter\<close> sorted it,
  and requests are dispatched by it.\<close>

theorem last_replacement_wins:
  assumes "NewRouter rs = Inr r"
    and "s' = fold (\<lambda>r s. snd (Replace h (Some r) s)) (earlier @ [r]) s"
  shows "Holder_Routes s' = Some (sort_routes rs) \<and>
    (\<exists>cur. w_current s' = Some cur \<and> good_handler (ho_cfg h) cur \<and>
       Holder_ServeHTTP e req w s' = Handler_ServeHTTP e cur req w s' \<and>
       (\<forall>path. Match (hd_router cur) path = Match r path))"
proof -
  note wf = NewRouter_well_formed [OF assms(1)]
  have r: "Routes r = sort_routes rs" using assms(1) by (simp add: NewRouter_Inr_iff Routes_def)
  let ?s = "fold (\<lambda>r s. snd (Replace h (Some r) s)) earlier s"
  obtain h' where "Replace h (Some r) ?s = (None, ?s\<lparr>w_current := Some h'\<rparr>)"
    "good_handler (ho_cfg h) h'" "hd_router h' = r"
    using Replace_good [OF wf] .
  then have "w_current s' = Some h'" "good_handler (ho_cfg h) h'" "hd_router h' = r"
    using assms(2) by simp_all
  moreover have "Holder_Routes s' = Some (sort_routes rs)"
    using store.last_put_wins [OF wf, of h earlier s] assms(2) r by simp
  ultimately show ?thesis by (simp add: Holder_ServeHTTP_def)
qed

theorem last_replacement_wins_witness:
  "Holder_Routes (snd (Replace \<lparr>ho_cfg = demo_cfg\<rparr> (Some \<lparr>routes = rev demo_routes\<rparr>) quiet_world))
     = Some (sort_routes demo_routes)"
  using last_replacement_wins [OF demo_routes_accepted refl, of "\<lparr>ho_cfg = demo_cfg\<rparr>" "[]" quiet_world]
  by simp

end
