(* ===== verification/JsonDecode.thy ===== *)
theory JsonDecode
  imports Json
begin

text \<open>
  Go's \<open>encoding/json\<close> as the gateway reads it: \<open>json.NewDecoder(r).Decode(&v)\<close> takes the first
  JSON value of the input and stores it into \<open>v\<close>. The scanner works on one byte stream with a
  stack of open arrays and objects, as the library's own scanner does; whatever follows the
  first value is not looked at.
\<close>

section \<open>Values\<close>

datatype jvalue =
    VNull
  | VBool bool
  | VNum
  | VStr string
  | VArr "jvalue list"
  | VObj "(string \<times> jvalue) list"

section \<open>String literals\<close>

definition utf8_encode :: "nat \<Rightarrow> string" where
  "utf8_encode r =
     (if r < 128 then [char_of r]
      else if r < 2048 then [char_of (192 + r div 64), char_of (128 + r mod 64)]
      else if r < 65536 then
        [char_of (224 + r div 4096), char_of (128 + r div 64 mod 64), char_of (128 + r mod 64)]
      else
        [char_of (240 + r div 262144), char_of (128 + r div 4096 mod 64),
         char_of (128 + r div 64 mod 64), char_of (128 + r mod 64)])"

text \<open>U+FFFD.\<close>

definition replacement :: string where
  "replacement = utf8_encode 65533"

definition simple_escape :: "char \<Rightarrow> char option" where
  "simple_escape c =
     (if c = quote \<or> c = backslash \<or> c = CHR ''/'' then Some c
      else if c = CHR ''b'' then Some (CHR 0x08)
      else if c = CHR ''f'' then Some (CHR 0x0C)
      else if c = CHR ''n'' then Some newline
      else if c = CHR ''r'' then Some (CHR 0x0D)
      else if c = CHR ''t'' then Some (CHR 0x09)
      else None)"

text \<open>Four hexadecimal digits, and the second half of a surrogate pair.\<close>

definition u4 :: "string \<Rightarrow> nat option" where
  "u4 s =
     (if 4 \<le> length s \<and> list_all ishex (take 4 s)
      then Some (foldl (\<lambda>n c. 16 * n + unhex c) 0 (take 4 s)) else None)"

definition second_half :: "nat \<Rightarrow> string \<Rightarrow> nat option" where
  "second_half r s =
     (if HasPrefix s [backslash, CHR ''u''] then
        (case u4 (drop 2 s) of
           None \<Rightarrow> None
         | Some r1 \<Rightarrow>
             if 55296 \<le> r \<and> r < 56320 \<and> 56320 \<le> r1 \<and> r1 < 57344
             then Some ((r - 55296) * 1024 + (r1 - 56320) + 65536) else None)
      else None)"

definition emit :: "string \<Rightarrow> (string \<times> string) option \<Rightarrow> (string \<times> string) option" where
  "emit x res = map_option (\<lambda>(y, rest). (x @ y, rest)) res"

text \<open>The text of a literal after its opening quote, and what follows the closing one. The
  number counts the bytes of the current UTF-8 sequence still to be copied.\<close>

function str_body :: "nat \<Rightarrow> string \<Rightarrow> (string \<times> string) option" where
  "str_body k [] = None"
| "str_body (Suc k) (c # s) = emit [c] (str_body k s)"
| "str_body 0 (c # s) =
     (if c = quote then Some ([], s)
      else if c = backslash then
        (case s of
           [] \<Rightarrow> None
         | x # t \<Rightarrow>
             if x = CHR ''u'' then
               (case u4 t of
                  None \<Rightarrow> None
                | Some r \<Rightarrow>
                    if 55296 \<le> r \<and> r < 57344 then
                      (case second_half r (drop 4 t) of
                         Some r1 \<Rightarrow> emit (utf8_encode r1) (str_body 0 (drop 10 t))
                       | None \<Rightarrow> emit replacement (str_body 0 (drop 4 t)))
                    else emit (utf8_encode r) (str_body 0 (drop 4 t)))
             else
               (case simple_escape x of
                  None \<Rightarrow> None
                | Some y \<Rightarrow> emit [y] (str_body 0 t)))
      else if byte_of c < 32 then None
      else if byte_of c < 128 then emit [c] (str_body 0 s)
      else
        (case rune_len (c # s) of
           None \<Rightarrow> emit replacement (str_body 0 s)
         | Some n \<Rightarrow> emit [c] (str_body (n - 1) s)))"
  by pat_completeness auto
termination
  by (relation "measure (\<lambda>(k, s). length s)") (auto simp: le_imp_less_Suc)

lemma emit_Some: "emit x res = Some (y, rest) \<Longrightarrow> \<exists>z. res = Some (z, rest)"
  by (cases res) (auto simp: emit_def)

lemma str_body_shorter: "str_body k s = Some (x, rest) \<Longrightarrow> length rest < length s"
proof (induction k s arbitrary: x rule: str_body.induct)
  case (3 c s)
  show ?case
    using 3 by (auto split: if_splits list.splits option.splits dest!: emit_Some) fastforce+
qed (auto dest!: emit_Some split: if_splits list.splits option.splits)

section \<open>Numbers\<close>

definition scan_digits :: "string \<Rightarrow> string option" where
  "scan_digits s =
     (case s of
        [] \<Rightarrow> None
      | c # t \<Rightarrow> if is_digit c then Some (dropWhile is_digit t) else None)"

text \<open>What follows a number literal.\<close>

definition scan_number :: "string \<Rightarrow> string option" where
  "scan_number s =
     (let s = (if HasPrefix s ''-'' then tl s else s) in
      case (if HasPrefix s ''0'' then Some (tl s) else scan_digits s) of
        None \<Rightarrow> None
      | Some s \<Rightarrow>
          (case (if HasPrefix s ''.'' then scan_digits (tl s) else Some s) of
             None \<Rightarrow> None
           | Some s \<Rightarrow>
               if HasPrefix s ''e'' \<or> HasPrefix s ''E'' then
                 (let s = tl s in
                  scan_digits (if HasPrefix s ''+'' \<or> HasPrefix s ''-'' then tl s else s))
               else Some s))"

text \<open>Lengths after a recognised prefix.\<close>

lemma HasPrefix_nonempty: "HasPrefix s (c # p) \<Longrightarrow> 0 < length s"
  by (cases s) (auto simp: HasPrefix_iff)

lemma HasPrefix_shorter:
  "HasPrefix s (c # p) \<Longrightarrow> length (tl s) < length s"
  "HasPrefix s (c # p) \<Longrightarrow> length s - Suc n < length s"
  by (auto dest: HasPrefix_nonempty)

lemma scan_digits_shorter: "scan_digits s = Some t \<Longrightarrow> length t < length s"
  by (auto simp: scan_digits_def le_imp_less_Suc length_dropWhile_le split: list.splits if_splits)

lemma scan_number_shorter: "scan_number s = Some t \<Longrightarrow> length t < length s"
  by (auto simp: scan_number_def Let_def dest!: scan_digits_shorter HasPrefix_nonempty
      split: if_splits option.splits)

section \<open>The scanner\<close>

text \<open>What it expects next, and the open containers with what they hold so far.\<close>

datatype mode =
    WantValue | WantValueOrEnd | WantKey | WantKeyOrEnd | WantColon | After jvalue

datatype frame =
    FArr "jvalue list"
  | FObj "(string \<times> jvalue) list"
  | FKey "(string \<times> jvalue) list" string

definition is_space :: "char \<Rightarrow> bool" where
  "is_space c = (c = CHR '' '' \<or> c = CHR 0x09 \<or> c = newline \<or> c = CHR 0x0D)"

definition maxNestingDepth :: nat where
  "maxNestingDepth = 10000"

text \<open>A value without parts, and the input after it.\<close>

definition scan_scalar :: "string \<Rightarrow> (jvalue \<times> string) option" where
  "scan_scalar s =
     (if HasPrefix s [quote] then map_option (\<lambda>(x, t). (VStr x, t)) (str_body 0 (tl s))
      else if HasPrefix s ''null'' then Some (VNull, drop 4 s)
      else if HasPrefix s ''true'' then Some (VBool True, drop 4 s)
      else if HasPrefix s ''false'' then Some (VBool False, drop 5 s)
      else map_option (Pair VNum) (scan_number s))"

lemma scan_scalar_shorter:
  assumes "scan_scalar s = Some (v, t)"
  shows "length t < length s"
proof (cases "HasPrefix s [quote]")
  case True
  then obtain s' where "s = quote # s'" by (cases s) (auto simp: HasPrefix_iff)
  with assms True str_body_shorter [of 0 s'] show ?thesis
    by (fastforce simp: scan_scalar_def)
next
  case False
  have "length (drop 4 s) < length s" if "HasPrefix s ''null'' \<or> HasPrefix s ''true''"
    using that by (auto dest: HasPrefix_nonempty)
  moreover have "length (drop 5 s) < length s" if "HasPrefix s ''false''"
    using that by (auto dest: HasPrefix_nonempty)
  ultimately show ?thesis
    using assms False scan_number_shorter [of s t] by (auto simp: scan_scalar_def split: if_splits)
qed

type_synonym config = "mode \<times> frame list \<times> string"

text \<open>One step on a non-space byte: where a value, a key, a colon or a closing is due.\<close>

definition begin_value :: "frame list \<Rightarrow> string \<Rightarrow> config option" where
  "begin_value st s =
     (if HasPrefix s ''['' then
        (if length st < maxNestingDepth then Some (WantValueOrEnd, FArr [] # st, tl s) else None)
      else if HasPrefix s ''{'' then
        (if length st < maxNestingDepth then Some (WantKeyOrEnd, FObj [] # st, tl s) else None)
      else map_option (\<lambda>(v, t). (After v, st, t)) (scan_scalar s))"

definition begin_key :: "frame list \<Rightarrow> string \<Rightarrow> config option" where
  "begin_key st s =
     (case st of
        FObj kvs # st' \<Rightarrow>
          if HasPrefix s [quote]
          then map_option (\<lambda>(k, t). (WantColon, FKey kvs k # st', t)) (str_body 0 (tl s))
          else None
      | _ \<Rightarrow> None)"

definition end_value :: "jvalue \<Rightarrow> frame list \<Rightarrow> string \<Rightarrow> config option" where
  "end_value v st s =
     (case st of
        FArr vs # st' \<Rightarrow>
          if HasPrefix s '','' then Some (WantValue, FArr (vs @ [v]) # st', tl s)
          else if HasPrefix s '']'' then Some (After (VArr (vs @ [v])), st', tl s)
          else None
      | FKey kvs k # st' \<Rightarrow>
          if HasPrefix s '','' then Some (WantKey, FObj (kvs @ [(k, v)]) # st', tl s)
          else if HasPrefix s ''}'' then Some (After (VObj (kvs @ [(k, v)])), st', tl s)
          else None
      | _ \<Rightarrow> None)"

definition scan_step :: "mode \<Rightarrow> frame list \<Rightarrow> string \<Rightarrow> config option" where
  "scan_step m st s =
     (case m of
        WantValue \<Rightarrow> begin_value st s
      | WantValueOrEnd \<Rightarrow>
          (case st of
             FArr vs # st' \<Rightarrow>
               if HasPrefix s '']'' then Some (After (VArr vs), st', tl s) else begin_value st s
           | _ \<Rightarrow> None)
      | WantKey \<Rightarrow> begin_key st s
      | WantKeyOrEnd \<Rightarrow>
          (case st of
             FObj kvs # st' \<Rightarrow>
               if HasPrefix s ''}'' then Some (After (VObj kvs), st', tl s) else begin_key st s
           | _ \<Rightarrow> None)
      | WantColon \<Rightarrow> if HasPrefix s '':'' then Some (WantValue, st, tl s) else None
      | After v \<Rightarrow> end_value v st s)"

lemma quoted_shorter:
  assumes "HasPrefix s [quote]" and "str_body 0 (tl s) = Some (x, t)"
  shows "length t < length s"
proof -
  obtain s' where "s = quote # s'" using assms(1) by (cases s) (auto simp: HasPrefix_iff)
  with assms(2) str_body_shorter [of 0 s' x t] show ?thesis by simp
qed

lemma begin_value_shorter: "begin_value st s = Some (m, st', t) \<Longrightarrow> length t < length s"
  by (auto simp: begin_value_def HasPrefix_shorter dest: scan_scalar_shorter split: if_splits)

lemma begin_key_shorter: "begin_key st s = Some (m, st', t) \<Longrightarrow> length t < length s"
  by (auto simp: begin_key_def dest: quoted_shorter split: if_splits list.splits frame.splits)

lemma end_value_shorter: "end_value v st s = Some (m, st', t) \<Longrightarrow> length t < length s"
  by (auto simp: end_value_def HasPrefix_shorter split: if_splits list.splits frame.splits)

lemma scan_step_shorter: "scan_step m st s = Some (m', st', t) \<Longrightarrow> length t < length s"
  by (auto simp: scan_step_def HasPrefix_shorter begin_value_shorter begin_key_shorter
      end_value_shorter split: mode.splits if_splits list.splits frame.splits)

text \<open>The whole scan: done when a value is complete and no container is open.\<close>

function scan :: "mode \<Rightarrow> frame list \<Rightarrow> string \<Rightarrow> jvalue option" where
  "scan m st s =
     (case (m, st) of
        (After v, []) \<Rightarrow> Some v
      | _ \<Rightarrow>
          (case s of
             [] \<Rightarrow> None
           | c # t \<Rightarrow>
               if is_space c then scan m st t
               else
                 (case scan_step m st s of
                    None \<Rightarrow> None
                  | Some (m', st', t') \<Rightarrow> scan m' st' t')))"
  by pat_completeness auto
termination
  by (relation "measure (\<lambda>(m, st, s). length s)") (auto dest: scan_step_shorter)

declare scan.simps [simp del]

definition parse_json :: "string \<Rightarrow> jvalue option" where
  "parse_json s = scan WantValue [] s"

lemma parse_json_examples:
  "parse_json '' {''  = None"
  "parse_json ''[1, {}, null] trailing'' = Some (VArr [VNum, VObj [], VNull])"
  "parse_json ''[01]'' = None"
  by code_simp+

section \<open>Reading back what was written\<close>


lemma emit_simps [simp]:
  "emit x (Some (y, rest)) = Some (x @ y, rest)" "emit x (emit y res) = emit (x @ y) res"
  "emit [] res = res"
  by (auto simp: emit_def option.map_comp comp_def split_def option.map_ident)

lemma lowerhex_digits: "k < 16 \<Longrightarrow> ishex (lowerhex ! k) \<and> unhex (lowerhex ! k) = k"
proof -
  assume "k < 16"
  moreover have "list_all (\<lambda>k. ishex (lowerhex ! k) \<and> unhex (lowerhex ! k) = k) [0..<16]" by code_simp
  ultimately show ?thesis by (simp add: list_all_iff)
qed

lemma u4_four:
  assumes "ishex a" and "ishex b" and "ishex c" and "ishex d"
  shows "u4 (a # b # c # d # t) = Some (foldl (\<lambda>n c. 16 * n + unhex c) 0 [a, b, c, d])"
  using assms by (simp add: u4_def)

lemma u4_hex4:
  assumes "n < 65536"
  shows "u4 (drop 2 (hex4 n) @ t) = Some n"
proof -
  have "16 * (16 * (16 * (n div 4096 mod 16) + n div 256 mod 16) + n div 16 mod 16) + n mod 16 = n"
  proof -
    have d: "n div 256 = n div 16 div 16" "n div 4096 = n div 16 div 16 div 16"
      by (simp_all add: div_mult2_eq [symmetric])
    have "n div 16 div 16 div 16 < 16" using assms by (simp add: div_mult2_eq [symmetric])
    then have "n div 4096 mod 16 = n div 16 div 16 div 16" by (simp only: d mod_less)
    then show ?thesis by (simp only: d mult_div_mod_eq)
  qed
  moreover have "n div 4096 mod 16 = n div 4096" using assms by simp
  ultimately show ?thesis using assms by (simp add: hex4_def u4_four lowerhex_digits)
qed

lemma byte_of_char_of: "byte_of (char_of n) = n mod 256"
  by (simp add: byte_of_def)

lemma char_of_byte_of [simp]: "char_of (byte_of c) = c"
  by (simp add: byte_of_def)

lemma special_chars:
  "backslash \<noteq> quote" "CHR ''u'' \<noteq> quote" "simple_escape backslash = Some backslash"
  "simple_escape quote = Some quote" "simple_escape (CHR ''n'') = Some newline"
  "simple_escape (CHR ''r'') = Some (CHR 0x0D)" "simple_escape (CHR ''t'') = Some (CHR 0x09)"
  "backslash \<noteq> CHR ''u''" "quote \<noteq> CHR ''u''"
  by code_simp+

lemma str_body_hex4:
  assumes "n < 55296"
  shows "str_body 0 (hex4 n @ t) = emit (utf8_encode n) (str_body 0 t)"
proof -
  have "hex4 n = backslash # CHR ''u'' # drop 2 (hex4 n)" and "length (drop 2 (hex4 n)) = 4"
    by (simp_all add: hex4_def)
  then obtain h where h: "hex4 n = backslash # CHR ''u'' # h" "h = drop 2 (hex4 n)" "length h = 4"
    by blast
  have "u4 (h @ t) = Some n" using u4_hex4 [of n t] assms h(2) by simp
  moreover have "drop 4 (h @ t) = t" using h(3) by simp
  ultimately show ?thesis using assms by (simp add: h(1) special_chars)
qed

lemma str_body_escape:
  assumes "byte_of c < 128"
  shows "str_body 0 (ascii_escape c @ t) = emit [c] (str_body 0 t)"
proof (cases "c = backslash \<or> c = quote \<or> c = newline \<or> c = CHR 0x0D \<or> c = CHR 0x09")
  case True
  then show ?thesis by (auto simp: ascii_escape_def special_chars)
next
  case False
  show ?thesis
  proof (cases "byte_of c < 32 \<or> c \<in> set ''<>&''")
    case True
    with False have "ascii_escape c = hex4 (byte_of c)" by (auto simp: ascii_escape_def)
    moreover have "utf8_encode (byte_of c) = [c]" using assms by (simp add: utf8_encode_def)
    ultimately show ?thesis using str_body_hex4 [of "byte_of c" t] assms by simp
  next
    case raw: False
    with False have "ascii_escape c = [c]" by (auto simp: ascii_escape_def)
    then show ?thesis using False raw assms by simp
  qed
qed

function valid_utf8 :: "string \<Rightarrow> bool" where
  "valid_utf8 [] = True"
| "valid_utf8 (c # s) =
     (if byte_of c < 128 then valid_utf8 s
      else case rune_len (c # s) of None \<Rightarrow> False | Some n \<Rightarrow> valid_utf8 (drop (n - 1) s))"
  by pat_completeness auto
termination
  by (relation "measure length") (auto simp: le_imp_less_Suc)

lemma str_body_copy: "length xs = k \<Longrightarrow> str_body k (xs @ t) = emit xs (str_body 0 t)"
proof (induction xs arbitrary: k)
  case (Cons x xs)
  then show ?case by (cases k) simp_all
qed simp

lemma rune_len_bounds: "rune_len s = Some n \<Longrightarrow> 0 < n \<and> n \<le> length s"
  by (auto simp: rune_len_def Let_def split: list.splits if_splits)

lemma rune_len_take:
  "rune_len s = Some n \<Longrightarrow> rune_len (take n s @ t) = Some n"
  by (cases s; cases "tl s"; cases "tl (tl s)"; cases "tl (tl (tl s))";
      simp add: rune_len_def Let_def split: if_splits; fastforce)

lemma quote_ascii_bytes: "byte_of quote < 128" "byte_of backslash < 128"
  by code_simp+

lemma separators:
  "utf8_encode 8232 = [CHR 0xE2, CHR 0x80, CHR 0xA8]"
  "utf8_encode 8233 = [CHR 0xE2, CHR 0x80, CHR 0xA9]"
  by (simp_all add: utf8_encode_def) code_simp+

theorem string_read_back:
  "valid_utf8 s \<Longrightarrow> str_body 0 (string_body s @ quote # rest) = Some (s, rest)"
proof (induction s rule: string_body.induct)
  case 1
  show ?case by simp
next
  case (2 c s)
  show ?case
  proof (cases "byte_of c < 128")
    case True
    with 2 show ?thesis by (simp add: str_body_escape)
  next
    case False
    then obtain n where n: "rune_len (c # s) = Some n" and v: "valid_utf8 (drop (n - 1) s)"
      using 2(4) by (auto split: option.splits)
    have IH: "str_body 0 (string_body (drop (n - 1) s) @ quote # rest) = Some (drop (n - 1) s, rest)"
      using 2(3) [OF False n] v by simp
    have split: "take n (c # s) @ drop (n - 1) s = c # s"
      using rune_len_bounds [OF n] by (cases n) auto
    consider (ls) "take n (c # s) = [CHR 0xE2, CHR 0x80, CHR 0xA8]"
      | (ps) "take n (c # s) = [CHR 0xE2, CHR 0x80, CHR 0xA9]"
      | (raw) "take n (c # s) \<noteq> [CHR 0xE2, CHR 0x80, CHR 0xA8]"
          "take n (c # s) \<noteq> [CHR 0xE2, CHR 0x80, CHR 0xA9]"
      by blast
    then show ?thesis
    proof cases
      case ls
      then show ?thesis
        using False n ls IH split str_body_hex4 [of 8232] by (simp add: separators)
    next
      case ps
      then show ?thesis
        using False n ps IH split str_body_hex4 [of 8233] by (simp add: separators)
    next
      case raw
      let ?t = "string_body (drop (n - 1) s) @ quote # rest"
      obtain m where m: "n = Suc m" using rune_len_bounds [OF n] by (cases n) auto
      have body: "string_body (c # s) = take n (c # s) @ string_body (drop (n - 1) s)"
        using False n raw by (simp del: take_Suc_Cons)
      have "rune_len (take n (c # s) @ ?t) = Some n" using rune_len_take [OF n] .
      then have "str_body 0 (take n (c # s) @ ?t) = emit [c] (str_body m (take m s @ ?t))"
        using False m quote_ascii_bytes by (auto simp: not_less)
      also have "\<dots> = emit (c # take m s) (str_body 0 ?t)"
        using str_body_copy [of "take m s" m ?t] rune_len_bounds [OF n] m by simp
      also have "\<dots> = Some (c # s, rest)" using IH m by simp
      finally show ?thesis by (simp only: body append_assoc)
    qed
  qed
qed

subsection \<open>Whole values\<close>

declare valid_utf8.simps [simp del]

text \<open>The value a text written by \<open>Encode\<close> reads back as, how deeply it nests, and what makes it
  readable: strings in UTF-8 (others come back changed) and no numbers.\<close>

fun jv :: "json \<Rightarrow> jvalue" and jv_fields :: "(string \<times> json) list \<Rightarrow> (string \<times> jvalue) list"
and jv_items :: "json list \<Rightarrow> jvalue list" where
  "jv (JStr s) = VStr s"
| "jv (JNum t) = VNum"
| "jv (JArr vs) = VArr (jv_items vs)"
| "jv (JObj fs) = VObj (jv_fields fs)"
| "jv_fields [] = []"
| "jv_fields ((k, v) # fs) = (k, jv v) # jv_fields fs"
| "jv_items [] = []"
| "jv_items (v # vs) = jv v # jv_items vs"

fun depth :: "json \<Rightarrow> nat" and depth_fields :: "(string \<times> json) list \<Rightarrow> nat"
and depth_items :: "json list \<Rightarrow> nat" where
  "depth (JStr s) = 0"
| "depth (JNum t) = 0"
| "depth (JArr vs) = Suc (depth_items vs)"
| "depth (JObj fs) = Suc (depth_fields fs)"
| "depth_fields [] = 0"
| "depth_fields ((k, v) # fs) = max (depth v) (depth_fields fs)"
| "depth_items [] = 0"
| "depth_items (v # vs) = max (depth v) (depth_items vs)"

fun readable :: "json \<Rightarrow> bool" and readable_fields :: "(string \<times> json) list \<Rightarrow> bool"
and readable_items :: "json list \<Rightarrow> bool" where
  "readable (JStr s) = valid_utf8 s"
| "readable (JNum t) = False"
| "readable (JArr vs) = readable_items vs"
| "readable (JObj fs) = readable_fields fs"
| "readable_fields [] = True"
| "readable_fields ((k, v) # fs) = (valid_utf8 k \<and> readable v \<and> readable_fields fs)"
| "readable_items [] = True"
| "readable_items (v # vs) = (readable v \<and> readable_items vs)"

lemma scan_go:
  assumes "\<not> is_space c" and "scan_step m st (c # t) = Some (m', st', t')"
    and "\<And>v. m = After v \<Longrightarrow> st \<noteq> []"
  shows "scan m st (c # t) = scan m' st' t'"
  using assms by (subst scan.simps) (auto split: mode.splits list.splits)

lemma structural_chars [simp]:
  "\<not> is_space quote" "\<not> is_space (CHR ''['')" "\<not> is_space (CHR '']'')" "\<not> is_space (CHR ''{'')"
  "\<not> is_space (CHR ''}'')" "\<not> is_space (CHR '','')" "\<not> is_space (CHR '':'')"
  "quote \<noteq> CHR ''[''" "quote \<noteq> CHR '']''" "quote \<noteq> CHR ''{''" "quote \<noteq> CHR ''}''"
  by code_simp+

lemma HasPrefix_Cons [simp]: "HasPrefix (c # s) [d] \<longleftrightarrow> c = d"
  by (auto simp: HasPrefix_iff)

lemma scan_after:
  "scan (After v) (FArr vs # st) (CHR '','' # t) = scan WantValue (FArr (vs @ [v]) # st) t"
  "scan (After v) (FArr vs # st) (CHR '']'' # t) = scan (After (VArr (vs @ [v]))) st t"
  "scan (After v) (FKey kvs k # st) (CHR '','' # t) = scan WantKey (FObj (kvs @ [(k, v)]) # st) t"
  "scan (After v) (FKey kvs k # st) (CHR ''}'' # t) = scan (After (VObj (kvs @ [(k, v)]))) st t"
  by (subst scan_go; simp add: scan_step_def end_value_def)+

lemma scan_key_colon:
  assumes "valid_utf8 k"
  shows "scan WantKey (FObj kvs # st) (json_string k @ CHR '':'' # t) =
    scan WantValue (FKey kvs k # st) t"
proof -
  have "scan_step WantKey (FObj kvs # st) (quote # string_body k @ quote # CHR '':'' # t) =
      Some (WantColon, FKey kvs k # st, CHR '':'' # t)"
    using string_read_back [OF assms, of "CHR '':'' # t"] by (simp add: scan_step_def begin_key_def)
  then have "scan WantKey (FObj kvs # st) (json_string k @ CHR '':'' # t) =
      scan WantColon (FKey kvs k # st) (CHR '':'' # t)"
    by (simp add: json_string_def scan_go)
  also have "\<dots> = scan WantValue (FKey kvs k # st) t"
    by (subst scan_go) (simp_all add: scan_step_def)
  finally show ?thesis .
qed

text \<open>A value may begin where a value or an end is due, and likewise for a key.\<close>

lemma value_or_end:
  assumes "c \<noteq> CHR '']''" and "\<not> is_space c"
  shows "scan WantValueOrEnd (FArr vs # st) (c # t) = scan WantValue (FArr vs # st) (c # t)"
  using assms by (subst (1 2) scan.simps) (simp add: scan_step_def)

lemma key_or_end:
  "scan WantKeyOrEnd (FObj kvs # st) (quote # t) = scan WantKey (FObj kvs # st) (quote # t)"
  by (subst (1 2) scan.simps) (simp add: scan_step_def)

lemma render_head:
  assumes "readable v"
  obtains c t where "render v = c # t" and "c \<noteq> CHR '']''" and "\<not> is_space c"
  using assms by (cases v) (auto simp: json_string_def)

theorem scan_render:
  "readable v \<Longrightarrow> length st + depth v \<le> maxNestingDepth \<Longrightarrow>
     scan WantValue st (render v @ t) = scan (After (jv v)) st t"
  "readable_fields fs \<Longrightarrow> fs \<noteq> [] \<Longrightarrow> Suc (length st) + depth_fields fs \<le> maxNestingDepth \<Longrightarrow>
     scan WantKey (FObj kvs # st) (render_fields fs @ CHR ''}'' # t) =
       scan (After (VObj (kvs @ jv_fields fs))) st t"
  "readable_items vs \<Longrightarrow> vs \<noteq> [] \<Longrightarrow> Suc (length st) + depth_items vs \<le> maxNestingDepth \<Longrightarrow>
     scan WantValue (FArr us # st) (render_items vs @ CHR '']'' # t) =
       scan (After (VArr (us @ jv_items vs))) st t"
proof (induction v and fs and vs arbitrary: st t and st kvs t and st us t
    rule: render_render_fields_render_items.induct)
  case (1 s)
  have "scan_step WantValue st (quote # string_body s @ quote # t) = Some (After (VStr s), st, t)"
    using string_read_back [of s t] 1
    by (simp add: scan_step_def begin_value_def scan_scalar_def)
  from scan_go [OF _ this] show ?case by (simp add: json_string_def)
next
  case (2 n)
  then show ?case by simp
next
  case (3 vs)
  have open1: "scan WantValue st (CHR ''['' # r) = scan WantValueOrEnd (FArr [] # st) r" for r
    using 3 by (subst scan_go) (simp_all add: scan_step_def begin_value_def)
  show ?case
  proof (cases vs)
    case Nil
    have "scan WantValueOrEnd (FArr [] # st) (CHR '']'' # t) = scan (After (VArr [])) st t"
      by (subst scan_go) (simp_all add: scan_step_def)
    with Nil open1 show ?thesis by simp
  next
    case (Cons v ws)
    with 3 have "readable v" by simp
    then obtain c r where "render v = c # r" "c \<noteq> CHR '']''" "\<not> is_space c" by (rule render_head)
    then have "scan WantValueOrEnd (FArr [] # st) (render_items vs @ CHR '']'' # t) =
        scan WantValue (FArr [] # st) (render_items vs @ CHR '']'' # t)"
      using Cons by (simp add: value_or_end)
    with open1 Cons 3 show ?thesis by simp
  qed
next
  case (4 fs)
  have open1: "scan WantValue st (CHR ''{'' # r) = scan WantKeyOrEnd (FObj [] # st) r" for r
    using 4 by (subst scan_go) (simp_all add: scan_step_def begin_value_def)
  show ?case
  proof (cases fs)
    case Nil
    have "scan WantKeyOrEnd (FObj [] # st) (CHR ''}'' # t) = scan (After (VObj [])) st t"
      by (subst scan_go) (simp_all add: scan_step_def)
    with Nil open1 show ?thesis by simp
  next
    case (Cons f gs)
    obtain k v where "f = (k, v)" by fastforce
    with Cons have "scan WantKeyOrEnd (FObj [] # st) (render_fields fs @ CHR ''}'' # t) =
        scan WantKey (FObj [] # st) (render_fields fs @ CHR ''}'' # t)"
      by (simp add: json_string_def key_or_end)
    with open1 Cons 4 show ?thesis by simp
  qed
next
  case 5
  then show ?case by simp
next
  case (6 k v fs)
  have k: "scan WantKey (FObj kvs # st) (render_fields ((k, v) # fs) @ CHR ''}'' # t) =
      scan WantValue (FKey kvs k # st)
        (render v @ (if fs = [] then CHR ''}'' # t else CHR '','' # render_fields fs @ CHR ''}'' # t))"
    using scan_key_colon [of k] 6 by simp
  show ?case
  proof (cases "fs = []")
    case True
    with k 6 show ?thesis by (simp add: scan_after)
  next
    case False
    with k 6 show ?thesis by (simp add: scan_after)
  qed
next
  case 7
  then show ?case by simp
next
  case (8 v vs)
  then show ?case by (cases "vs = []") (simp_all add: scan_after)
qed

text \<open>What \<open>Encode\<close> writes, \<open>Decode\<close> reads, up to the nesting the decoder accepts.\<close>

theorem json_read_back:
  assumes "readable v" and "depth v \<le> maxNestingDepth"
  shows "parse_json (Encode v) = Some (jv v)"
  using scan_render(1) [of v "[]" "[newline]"] assms
  by (simp add: parse_json_def Encode_def scan.simps)

end
