(* ===== verification/HttpApi.thy ===== *)
theory HttpApi
  imports Holder JsonDecode
begin

text \<open>
  \<open>internal/httpapi\<close>: the liveness and readiness probes (\<open>health.go\<close>) and the admin endpoint
  that reads and replaces the route table (\<open>routes_admin.go\<close>), with the way \<open>encoding/json\<close>
  stores a value into the request body's struct.
\<close>

section \<open>Probes\<close>

text \<open>\<open>json.NewEncoder(w).Encode(v)\<close> writes the whole text in one call. A map's keys come out
  sorted.\<close>

definition Encode_to :: "writer \<Rightarrow> json \<Rightarrow> writer" where
  "Encode_to w v = Write w (Encode v)"

definition Healthz :: handler where
  "Healthz r w s =
     (if r_Method r \<noteq> ''GET'' then
        (let w = on_header (hdr_Set ''Allow'' ''GET'') w;
             w = on_header (hdr_Set ''Content-Type'' ''application/json'') w;
             w = WriteHeader w 405;
             w = Encode_to w (JObj [(''error'', JStr ''method not allowed'')]) in
         (Returned, w, s))
      else
        (let w = on_header (hdr_Set ''Content-Type'' ''application/json'') w;
             w = WriteHeader w 200;
             w = Encode_to w (JObj [(''status'', JStr ''ok'')]) in
         (Returned, w, s)))"

text \<open>\<open>Ready\<close> is called on every probe, in the state of that moment.\<close>

type_synonym Ready = "world \<Rightarrow> string \<times> bool"

definition Readyz :: "Ready \<Rightarrow> handler" where
  "Readyz ready r w s =
     (if r_Method r \<noteq> ''GET'' then
        (let w = on_header (hdr_Set ''Allow'' ''GET'') w;
             w = on_header (hdr_Set ''Content-Type'' ''application/json'') w;
             w = WriteHeader w 405;
             w = Encode_to w (JObj [(''error'', JStr ''method not allowed'')]) in
         (Returned, w, s))
      else
        (let (reason, isReady) = ready s;
             w = on_header (hdr_Set ''Content-Type'' ''application/json'') w in
         if isReady then
           (let w = WriteHeader w 200;
                w = Encode_to w (JObj [(''status'', JStr ''ready'')]) in
            (Returned, w, s))
         else
           (let w = WriteHeader w 503;
                w = Encode_to w (JObj [(''reason'', JStr reason), (''status'', JStr ''not_ready'')]) in
            (Returned, w, s))))"

section \<open>The body of a POST\<close>

record routeSpec =
  sp_Prefix :: string
  sp_Backend :: string

type_synonym routesBody = "routeSpec list"

definition zero_spec :: routeSpec where
  "zero_spec = \<lparr>sp_Prefix = '''', sp_Backend = ''''\<rparr>"

text \<open>A key selects a field by its name up to case (\<open>encoding/json\<close>'s fold functions): ASCII
  letters fold, and the Kelvin sign and the long s fold to \<open>k\<close> and \<open>s\<close>.\<close>

fun key_folds :: "string \<Rightarrow> string \<Rightarrow> bool" where
  "key_folds [] k = (k = [])"
| "key_folds (c # n) k =
     (case k of
        [] \<Rightarrow> False
      | x # k' \<Rightarrow>
          if byte_of x < 128 then to_lower x = to_lower c \<and> key_folds n k'
          else if to_lower c = CHR ''s'' then
            HasPrefix k [CHR 0xC5, CHR 0xBF] \<and> key_folds n (drop 2 k)
          else if to_lower c = CHR ''k'' then
            HasPrefix k [CHR 0xE2, CHR 0x84, CHR 0xAA] \<and> key_folds n (drop 3 k)
          else False)"

declare key_folds.simps [simp del]

text \<open>\<open>null\<close> leaves a string or struct as it is; any other value of the wrong kind is an error,
  which \<open>Decode\<close> reports at its end. \<open>None\<close> stands for that error.\<close>

definition store_string :: "jvalue \<Rightarrow> string \<Rightarrow> string option" where
  "store_string v old = (case v of VNull \<Rightarrow> Some old | VStr x \<Rightarrow> Some x | _ \<Rightarrow> None)"

fun store_spec_fields :: "(string \<times> jvalue) list \<Rightarrow> routeSpec \<Rightarrow> routeSpec option" where
  "store_spec_fields [] sp = Some sp"
| "store_spec_fields ((k, v) # kvs) sp =
     (if key_folds ''prefix'' k then
        (case store_string v (sp_Prefix sp) of
           None \<Rightarrow> None | Some x \<Rightarrow> store_spec_fields kvs (sp\<lparr>sp_Prefix := x\<rparr>))
      else if key_folds ''backend'' k then
        (case store_string v (sp_Backend sp) of
           None \<Rightarrow> None | Some x \<Rightarrow> store_spec_fields kvs (sp\<lparr>sp_Backend := x\<rparr>))
      else store_spec_fields kvs sp)"

definition store_spec :: "jvalue \<Rightarrow> routeSpec \<Rightarrow> routeSpec option" where
  "store_spec v sp =
     (case v of VNull \<Rightarrow> Some sp | VObj kvs \<Rightarrow> store_spec_fields kvs sp | _ \<Rightarrow> None)"

text \<open>A slice is its backing array and its length. The decoder grows it element by element and
  stores into what is there: elements of an earlier occurrence of the key are not zeroed.\<close>

type_synonym slice = "routeSpec list \<times> nat"

definition grow :: "nat \<Rightarrow> slice \<Rightarrow> slice" where
  "grow i sl =
     (case sl of (arr, n) \<Rightarrow>
        let cap = length arr;
            arr = (if cap \<le> i
                   then take n arr @ replicate (max 4 (cap + cap div 2) - n) zero_spec else arr) in
        (arr, max n (i + 1)))"

fun store_elements :: "jvalue list \<Rightarrow> nat \<Rightarrow> slice \<Rightarrow> slice option" where
  "store_elements [] i sl = Some (if i = 0 then ([], 0) else (fst sl, i))"
| "store_elements (v # vs) i sl =
     (let (arr, n) = grow i sl in
      case store_spec v (arr ! i) of
        None \<Rightarrow> None
      | Some sp \<Rightarrow> store_elements vs (i + 1) (arr[i := sp], n))"

definition store_slice :: "jvalue \<Rightarrow> slice \<Rightarrow> slice option" where
  "store_slice v sl =
     (case v of VNull \<Rightarrow> Some ([], 0) | VArr vs \<Rightarrow> store_elements vs 0 sl | _ \<Rightarrow> None)"

fun store_body_fields :: "(string \<times> jvalue) list \<Rightarrow> slice \<Rightarrow> slice option" where
  "store_body_fields [] sl = Some sl"
| "store_body_fields ((k, v) # kvs) sl =
     (if key_folds ''routes'' k then
        (case store_slice v sl of None \<Rightarrow> None | Some sl \<Rightarrow> store_body_fields kvs sl)
      else store_body_fields kvs sl)"

text \<open>\<open>json.NewDecoder(r.Body).Decode(&body)\<close> with a zero \<open>body\<close>.\<close>

definition Decode_body :: "string \<Rightarrow> routesBody option" where
  "Decode_body s =
     (case parse_json s of
        None \<Rightarrow> None
      | Some v \<Rightarrow>
          map_option (\<lambda>(arr, n). take n arr)
            (case v of VNull \<Rightarrow> Some ([], 0) | VObj kvs \<Rightarrow> store_body_fields kvs ([], 0)
             | _ \<Rightarrow> None))"

section \<open>Error texts\<close>

text \<open>\<open>strconv.Quote\<close>, the \<open>%q\<close> of the router's messages. Whether a rune beyond ASCII is printable
  is Unicode's table, a parameter.\<close>

definition rune_value :: "string \<Rightarrow> nat" where
  "rune_value u =
     (case map byte_of u of
        [a] \<Rightarrow> a
      | [a, b] \<Rightarrow> (a - 192) * 64 + (b - 128)
      | [a, b, c] \<Rightarrow> (a - 224) * 4096 + (b - 128) * 64 + (c - 128)
      | [a, b, c, d] \<Rightarrow> (a - 240) * 262144 + (b - 128) * 4096 + (c - 128) * 64 + (d - 128)
      | _ \<Rightarrow> 65533)"

definition hex_escape :: "char \<Rightarrow> nat \<Rightarrow> nat \<Rightarrow> string" where
  "hex_escape kind digits n =
     [backslash, kind] @ map (\<lambda>i. lowerhex ! (n div 16 ^ i mod 16)) (rev [0..<digits])"

definition quote_ascii :: "char \<Rightarrow> string" where
  "quote_ascii c =
     (if c = quote \<or> c = backslash then [backslash, c]
      else if 32 \<le> byte_of c \<and> byte_of c \<le> 126 then [c]
      else if c = CHR 0x07 then [backslash, CHR ''a'']
      else if c = CHR 0x08 then [backslash, CHR ''b'']
      else if c = CHR 0x0C then [backslash, CHR ''f'']
      else if c = newline then [backslash, CHR ''n'']
      else if c = CHR 0x0D then [backslash, CHR ''r'']
      else if c = CHR 0x09 then [backslash, CHR ''t'']
      else if c = CHR 0x0B then [backslash, CHR ''v'']
      else hex_escape (CHR ''x'') 2 (byte_of c))"

function quote_body :: "(string \<Rightarrow> bool) \<Rightarrow> string \<Rightarrow> string" where
  "quote_body ip [] = []"
| "quote_body ip (c # s) =
     (if byte_of c < 128 then quote_ascii c @ quote_body ip s
      else case rune_len (c # s) of
             None \<Rightarrow> hex_escape (CHR ''x'') 2 (byte_of c) @ quote_body ip s
           | Some n \<Rightarrow>
               (let u = take n (c # s) in
                (if ip u then u
                 else if rune_value u < 65536 then hex_escape (CHR ''u'') 4 (rune_value u)
                 else hex_escape (CHR ''U'') 8 (rune_value u)) @ quote_body ip (drop (n - 1) s)))"
  by pat_completeness auto
termination
  by (relation "measure (\<lambda>(ip, s). length s)") (auto simp: le_imp_less_Suc)

definition strconv_Quote :: "env \<Rightarrow> string \<Rightarrow> string" where
  "strconv_Quote e s = quote # quote_body (e_IsPrint e) s @ [quote]"

fun router_error_text :: "env \<Rightarrow> router_error \<Rightarrow> string" where
  "router_error_text e NoRoutes = ''no routes configured''"
| "router_error_text e (PrefixEmpty i) = ''route['' @ Itoa (int i) @ ''] prefix is empty''"
| "router_error_text e (BackendNil i) = ''route['' @ Itoa (int i) @ ''] backend is nil''"
| "router_error_text e (DuplicatePrefix p i j) =
     ''duplicate prefix '' @ strconv_Quote e p @ '' at routes['' @ Itoa (int i) @
     ''] and routes['' @ Itoa (int j) @ '']''"

text \<open>\<open>NilBackendPanic\<close> is a panic, not an error; it has no text.\<close>

fun proxy_error_text :: "proxy_error \<Rightarrow> string" where
  "proxy_error_text RouterRequired = ''router is required''"
| "proxy_error_text NilBackendPanic = ''''"

section \<open>The admin endpoint\<close>

definition writeError :: "writer \<Rightarrow> int \<Rightarrow> string \<Rightarrow> writer" where
  "writeError w status msg =
     (let w = on_header (hdr_Set ''Content-Type'' ''application/json'') w;
          w = WriteHeader w status in
      Encode_to w (JObj [(''error'', JStr msg)]))"

definition spec_json :: "routeSpec \<Rightarrow> json" where
  "spec_json sp = JObj [(''prefix'', JStr (sp_Prefix sp)), (''backend'', JStr (sp_Backend sp))]"

definition body_json :: "routesBody \<Rightarrow> json" where
  "body_json b = JObj [(''routes'', JArr (map spec_json b))]"

text \<open>Printing a \<open>nil\<close> backend panics (\<open>None\<close>).\<close>

fun routes_out :: "route list \<Rightarrow> routesBody option" where
  "routes_out [] = Some []"
| "routes_out (r # rs) =
     (case Backend r of
        None \<Rightarrow> None
      | Some u \<Rightarrow>
          map_option ((#) \<lparr>sp_Prefix = Prefix r, sp_Backend = url_String u\<rparr>) (routes_out rs))"

definition writeRoutes :: "writer \<Rightarrow> route list \<Rightarrow> outcome \<times> writer" where
  "writeRoutes w rs =
     (case routes_out rs of
        None \<Rightarrow> (Panicked, w)
      | Some out \<Rightarrow>
          (let w = on_header (hdr_Set ''Content-Type'' ''application/json'') w in
           (Returned, Encode_to w (body_json out))))"

text \<open>The loop over the posted specs: the routes, or the backend text it stops at.\<close>

fun specs_routes :: "routeSpec list \<Rightarrow> string + route list" where
  "specs_routes [] = Inr []"
| "specs_routes (sp # sps) =
     (case Parse (sp_Backend sp) of
        None \<Rightarrow> Inl (sp_Backend sp)
      | Some u \<Rightarrow>
          if u_scheme u = '''' \<or> u_host u = '''' then Inl (sp_Backend sp)
          else (case specs_routes sps of
                  Inl b \<Rightarrow> Inl b
                | Inr rs \<Rightarrow> Inr (\<lparr>Prefix = sp_Prefix sp, Backend = Some u\<rparr> # rs)))"

text \<open>\<open>writeRoutes(w, h.Routes())\<close>; reading the table of a \<open>nil\<close> handler panics.\<close>

definition writeCurrent :: handler where
  "writeCurrent r w s =
     (case Holder_Routes s of
        None \<Rightarrow> (Panicked, w, s)
      | Some rs \<Rightarrow> (let (out, w) = writeRoutes w rs in (out, w, s)))"

definition postRoutes :: "env \<Rightarrow> Holder \<Rightarrow> handler" where
  "postRoutes e h r w s =
     (case Decode_body (r_Body r) of
        None \<Rightarrow> (Returned, writeError w 400 ''malformed JSON body'', s)
      | Some body \<Rightarrow>
          if body = [] then
            (Returned, writeError w 400 ''routes array is required and must not be empty'', s)
          else
            (case specs_routes body of
               Inl b \<Rightarrow> (Returned, writeError w 400 (''invalid backend URL: '' @ b), s)
             | Inr table \<Rightarrow>
                 (case NewRouter table of
                    Inl err \<Rightarrow>
                      (Returned, writeError w 400 (''router validation: '' @ router_error_text e err), s)
                  | Inr router \<Rightarrow>
                      (case Replace h (Some router) s of
                         (Some NilBackendPanic, s) \<Rightarrow> (Panicked, w, s)
                       | (Some err, s) \<Rightarrow>
                           (Returned, writeError w 500 (''replace: '' @ proxy_error_text err), s)
                       | (None, s) \<Rightarrow> writeCurrent r w s))))"

definition RoutesAdmin :: "env \<Rightarrow> Holder option \<Rightarrow> handler" where
  "RoutesAdmin e h r w s =
     (case h of
        None \<Rightarrow> (Returned, writeError w 500 ''routes admin not configured'', s)
      | Some h \<Rightarrow>
          if r_Method r = ''GET'' then writeCurrent r w s
          else if r_Method r = ''POST'' then postRoutes e h r w s
          else
            (let w = on_header (hdr_Set ''Allow'' ''GET, POST'') w in
             (Returned, writeError w 405 ''method not allowed'', s)))"

section \<open>Lemmas\<close>

lemma writeError_ops:
  "writeError w status msg = run_ops
     [OpHeader (hdr_Set ''Content-Type'' ''application/json''), OpWriteHeader status,
      OpWrite (Encode (JObj [(''error'', JStr msg)]))] w"
  by (simp add: writeError_def Encode_to_def)

lemma writeRoutes_ops: "\<exists>ops. snd (writeRoutes w rs) = run_ops ops w"
proof (cases "routes_out rs")
  case None
  then show ?thesis by (auto simp: writeRoutes_def intro: exI [of _ "[]"])
next
  case (Some out)
  then have "snd (writeRoutes w rs) = run_ops
      [OpHeader (hdr_Set ''Content-Type'' ''application/json''), OpWrite (Encode (body_json out))] w"
    by (simp add: writeRoutes_def Encode_to_def)
  then show ?thesis by blast
qed

lemma writeCurrent_effect:
  "\<exists>ops. fst (snd (writeCurrent r w s)) = run_ops ops w" "snd (snd (writeCurrent r w s)) = s"
  using writeRoutes_ops [of w]
  by (auto simp: writeCurrent_def split: option.splits prod.splits intro: exI [of _ "[]"])
    (metis snd_conv)

lemma Replace_effect: "\<exists>cur. snd (Replace h router s) = s\<lparr>w_current := cur\<rparr>"
proof (cases "New_with (ho_cfg h) router")
  case (Inl err)
  then have "snd (Replace h router s) = s\<lparr>w_current := w_current s\<rparr>" by (simp add: Replace_def)
  then show ?thesis by blast
next
  case (Inr nxt)
  then show ?thesis by (auto simp: Replace_def)
qed

text \<open>Answers the endpoints give by error or success text alone.\<close>

lemma writeError_exists: "\<exists>ops. writeError w status msg = run_ops ops w"
  by (metis writeError_ops)

lemma postRoutes_effect:
  "(\<exists>ops. fst (snd (postRoutes e h r w s)) = run_ops ops w) \<and>
   (\<exists>cur. snd (snd (postRoutes e h r w s)) = s\<lparr>w_current := cur\<rparr>)"
proof -
  have nop: "\<exists>ops. w = run_ops ops w" by (rule exI [of _ "[]"]) simp
  have same: "\<exists>cur. s = s\<lparr>w_current := cur\<rparr>" by (rule exI [of _ "w_current s"]) simp
  have post: "(\<exists>ops. fst (snd p) = run_ops ops w) \<and> (\<exists>cur. snd (snd p) = s\<lparr>w_current := cur\<rparr>)"
    if "p = (case Replace h (Some router) s of
                         (Some NilBackendPanic, s) \<Rightarrow> (Panicked, w, s)
                       | (Some err, s) \<Rightarrow>
                           (Returned, writeError w 500 (''replace: '' @ proxy_error_text err), s)
                       | (None, s) \<Rightarrow> writeCurrent r w s)" for p router
    using that Replace_effect [of h "Some router" s] nop writeError_exists writeCurrent_effect
    by (auto split: prod.splits option.splits proxy_error.splits)
  show ?thesis
    using post [OF refl] nop same writeError_exists
    by (auto simp: postRoutes_def split: option.splits sum.splits)
qed

lemma RoutesAdmin_effect:
  "(\<exists>ops. fst (snd (RoutesAdmin e h r w s)) = run_ops ops w) \<and>
   (\<exists>cur. snd (snd (RoutesAdmin e h r w s)) = s\<lparr>w_current := cur\<rparr>)"
proof -
  have same: "\<exists>cur. s = s\<lparr>w_current := cur\<rparr>" by (rule exI [of _ "w_current s"]) simp
  have allow: "\<exists>ops. writeError (on_header f w) 405 msg = run_ops ops w" for f msg
  proof -
    obtain ops where "writeError (on_header f w) 405 msg = run_ops ops (on_header f w)"
      using writeError_exists by blast
    then have "writeError (on_header f w) 405 msg = run_ops (OpHeader f # ops) w" by simp
    then show ?thesis by blast
  qed
  show ?thesis
    using same allow writeError_exists writeCurrent_effect postRoutes_effect
    by (auto simp: RoutesAdmin_def Let_def split: option.splits)
qed

interpretation admin: inner_handler "RoutesAdmin e h" for e h
proof (rule inner_handlerI)
  fix r w s
  obtain cur where cur: "snd (snd (RoutesAdmin e h r w s)) = s\<lparr>w_current := cur\<rparr>"
    using RoutesAdmin_effect by blast
  show "\<exists>ops. fst (snd (RoutesAdmin e h r w s)) = run_ops ops w" using RoutesAdmin_effect by blast
  show "w_stdout (snd (snd (RoutesAdmin e h r w s))) = w_stdout s" using cur by simp
  show "w_metrics (snd (snd (RoutesAdmin e h r w s))) = w_metrics s" using cur by simp
  show "w_otel (snd (snd (RoutesAdmin e h r w s))) = w_otel s" using cur by simp
qed

definition not_allowed_ops :: "writer_op list" where
  "not_allowed_ops =
     [OpHeader (hdr_Set ''Allow'' ''GET''),
      OpHeader (hdr_Set ''Content-Type'' ''application/json''), OpWriteHeader 405,
      OpWrite (Encode (JObj [(''error'', JStr ''method not allowed'')]))]"

definition probe_ops :: "int \<Rightarrow> json \<Rightarrow> writer_op list" where
  "probe_ops status body =
     [OpHeader (hdr_Set ''Content-Type'' ''application/json''), OpWriteHeader status,
      OpWrite (Encode body)]"

lemma Healthz_eq:
  "Healthz r w s =
     (Returned, run_ops (if r_Method r \<noteq> ''GET'' then not_allowed_ops
        else probe_ops 200 (JObj [(''status'', JStr ''ok'')])) w, s)"
  by (simp add: Healthz_def not_allowed_ops_def probe_ops_def Encode_to_def Let_def)

lemma Readyz_eq:
  "Readyz ready r w s =
     (Returned, run_ops (if r_Method r \<noteq> ''GET'' then not_allowed_ops
        else if snd (ready s) then probe_ops 200 (JObj [(''status'', JStr ''ready'')])
        else probe_ops 503 (JObj [(''reason'', JStr (fst (ready s))),
               (''status'', JStr ''not_ready'')])) w, s)"
  by (simp add: Readyz_def not_allowed_ops_def probe_ops_def Encode_to_def Let_def split: prod.splits)

interpretation healthz: inner_handler Healthz
  by (rule inner_handlerI) (auto simp: Healthz_eq)

interpretation readyz: inner_handler "Readyz ready" for ready
  by (rule inner_handlerI) (auto simp: Readyz_eq)

text \<open>What the client gets from a list of calls that sends a header and then one body.\<close>

lemma answer_conn:
  assumes "in_step w" and "\<not> header_sent w"
  shows "conn_of (run_ops [OpHeader f, OpWriteHeader st, OpWrite b] w) =
    (conn_of w)\<lparr>cn_header := f (cn_header (conn_of w)), cn_wrote := True, cn_status := st,
      cn_sent := f (cn_header (conn_of w)), cn_body := cn_body (conn_of w) @ b\<rparr>"
  using assms
  by (simp add: conn_of_first_WriteHeader header_sent_conn conn_WriteHeader_def conn_Write_def
      Let_def)

lemma writeError_conn:
  assumes "in_step w" and "\<not> header_sent w"
  shows "cn_status (conn_of (writeError w st msg)) = st"
    and "cn_body (conn_of (writeError w st msg)) =
      cn_body (conn_of w) @ Encode (JObj [(''error'', JStr msg)])"
    and "cn_sent (conn_of (writeError w st msg)) =
      hdr_Set ''Content-Type'' ''application/json'' (cn_header (conn_of w))"
  using answer_conn [OF assms] by (simp_all add: writeError_ops del: run_ops_simps)

lemma writeRoutes_conn:
  assumes "in_step w" and "\<not> header_sent w" and "routes_out rs = Some out"
  shows "fst (writeRoutes w rs) = Returned"
    and "cn_status (conn_of (snd (writeRoutes w rs))) = 200"
    and "cn_body (conn_of (snd (writeRoutes w rs))) = cn_body (conn_of w) @ Encode (body_json out)"
  using assms
  by (simp_all add: writeRoutes_def Encode_to_def conn_Write_def conn_WriteHeader_def
      header_sent_conn Let_def)

lemma routes_out_total:
  "list_all (\<lambda>r. Backend r \<noteq> None) rs \<Longrightarrow>
     routes_out rs = Some (map (\<lambda>r. \<lparr>sp_Prefix = Prefix r,
       sp_Backend = url_String (the (Backend r))\<rparr>) rs)"
  by (induction rs) auto

text \<open>The text of a table, as the endpoint prints it.\<close>

definition table_text :: "route list \<Rightarrow> string" where
  "table_text rs =
     Encode (body_json (map (\<lambda>r. \<lparr>sp_Prefix = Prefix r,
       sp_Backend = url_String (the (Backend r))\<rparr>) rs))"

lemma writeCurrent_good:
  assumes "in_step w" and "\<not> header_sent w" and "Holder_Routes s = Some rs" and "valid_table rs"
  obtains w' where "writeCurrent r w s = (Returned, w', s)" and "cn_status (conn_of w') = 200"
    and "cn_body (conn_of w') = cn_body (conn_of w) @ table_text rs"
proof -
  have "list_all (\<lambda>r. Backend r \<noteq> None) rs" using assms(4) by (auto simp: valid_table_def list_all_iff)
  note out = routes_out_total [OF this]
  have "writeCurrent r w s = (Returned, snd (writeRoutes w rs), s)"
    using assms(3) writeRoutes_conn(1) [OF assms(1,2) out]
    by (simp add: writeCurrent_def prod_eq_iff split: prod.splits)
  with that writeRoutes_conn(2,3) [OF assms(1,2) out] show thesis by (simp add: table_text_def)
qed

section \<open>What a POST means\<close>

text \<open>The table a body stands for, if it is acceptable.\<close>

definition posted_table :: "string \<Rightarrow> route list option" where
  "posted_table body =
     (case Decode_body body of
        None \<Rightarrow> None
      | Some sps \<Rightarrow>
          (case specs_routes sps of
             Inl b \<Rightarrow> None
           | Inr rs \<Rightarrow> if valid_table rs then Some rs else None))"

lemma NewRouter_valid: "valid_table rs \<Longrightarrow> NewRouter rs = Inr \<lparr>routes = sort_routes rs\<rparr>"
  by (simp add: NewRouter_Inr_iff)

lemma NewRouter_invalid: "\<not> valid_table rs \<Longrightarrow> \<exists>err. NewRouter rs = Inl err"
  by (cases "NewRouter rs") (auto simp: NewRouter_Inr_iff)

lemma postRoutes_refused:
  assumes "posted_table (r_Body r) = None"
  obtains msg where "postRoutes e h r w s = (Returned, writeError w 400 msg, s)"
proof (cases "Decode_body (r_Body r)")
  case None
  with that show thesis by (simp add: postRoutes_def)
next
  case (Some sps)
  show thesis
  proof (cases "sps = []")
    case True
    with that Some show thesis by (simp add: postRoutes_def)
  next
    case False
    show thesis
    proof (cases "specs_routes sps")
      case (Inl b)
      with that Some False show thesis by (simp add: postRoutes_def)
    next
      case (Inr rs)
      with Some assms have "\<not> valid_table rs" by (auto simp: posted_table_def split: if_splits)
      then obtain err where "NewRouter rs = Inl err" using NewRouter_invalid by blast
      with that Some False Inr show thesis by (simp add: postRoutes_def)
    qed
  qed
qed

lemma postRoutes_accepted:
  assumes "posted_table (r_Body r) = Some rs"
  obtains cur where
    "postRoutes e h r w s = writeCurrent r w (s\<lparr>w_current := Some cur\<rparr>)"
    and "good_handler (ho_cfg h) cur" and "hd_router cur = \<lparr>routes = sort_routes rs\<rparr>"
proof -
  obtain sps where body: "Decode_body (r_Body r) = Some sps" "specs_routes sps = Inr rs"
    and valid: "valid_table rs"
    using assms by (auto simp: posted_table_def split: option.splits sum.splits if_splits)
  have router: "NewRouter rs = Inr \<lparr>routes = sort_routes rs\<rparr>" by (rule NewRouter_valid [OF valid])
  have "sps \<noteq> []" using body(2) valid by (auto simp: valid_table_def)
  moreover obtain cur where
    "Replace h (Some \<lparr>routes = sort_routes rs\<rparr>) s = (None, s\<lparr>w_current := Some cur\<rparr>)"
    "good_handler (ho_cfg h) cur" "hd_router cur = \<lparr>routes = sort_routes rs\<rparr>"
    using Replace_good [OF NewRouter_well_formed [OF router]] .
  ultimately show thesis using that body router by (simp add: postRoutes_def)
qed

section \<open>Reading a printed table back\<close>

lemma jv_items_map: "jv_items vs = map jv vs"
  by (induction vs) auto

lemma field_keys [simp]:
  "key_folds ''prefix'' ''prefix''" "\<not> key_folds ''prefix'' ''backend''"
  "key_folds ''backend'' ''backend''" "key_folds ''routes'' ''routes''"
  by code_simp+

lemma field_keys_utf8 [simp]:
  "valid_utf8 ''prefix''" "valid_utf8 ''backend''" "valid_utf8 ''routes''"
  by code_simp+

lemma store_spec_printed: "store_spec (jv (spec_json sp)) old = Some sp"
  by (simp add: spec_json_def store_spec_def store_string_def)

lemma store_elements_printed:
  assumes "i \<le> length arr"
  shows "\<exists>arr'. store_elements (map (\<lambda>sp. jv (spec_json sp)) b) i (arr, i)
      = Some (arr', i + length b) \<and>
    take (i + length b) arr' = take i arr @ b \<and> i + length b \<le> length arr'"
  using assms
proof (induction b arbitrary: i arr)
  case Nil
  then show ?case by (auto simp: take_all)
next
  case (Cons sp b)
  obtain arr0 where g: "grow i (arr, i) = (arr0, Suc i)"
    and len: "i < length arr0" and same: "take i arr0 = take i arr"
    using Cons.prems by (cases "length arr = i") (auto simp: grow_def Let_def)
  obtain arr' where r: "store_elements (map (\<lambda>sp. jv (spec_json sp)) b) (i + 1) (arr0[i := sp], i + 1)
        = Some (arr', i + 1 + length b)"
    and t: "take (i + 1 + length b) arr' = take (i + 1) (arr0[i := sp]) @ b"
      "i + 1 + length b \<le> length arr'"
    using Cons.IH [of "i + 1" "arr0[i := sp]"] len by (metis Suc_eq_plus1 Suc_leI length_list_update)
  have "store_elements (map (\<lambda>sp. jv (spec_json sp)) (sp # b)) i (arr, i)
      = Some (arr', i + length (sp # b))"
    using g r by (simp add: store_spec_printed)
  moreover have "take (i + length (sp # b)) arr' = take i arr @ (sp # b)"
    using t len same by (simp add: take_Suc_conv_app_nth)
  ultimately show ?case using t(2) by (intro exI [of _ arr']) simp
qed

lemma Decode_printed:
  assumes "\<forall>sp \<in> set b. valid_utf8 (sp_Prefix sp) \<and> valid_utf8 (sp_Backend sp)"
  shows "Decode_body (Encode (body_json b)) = Some b"
proof -
  have "readable_items (map spec_json b)" "depth_items (map spec_json b) \<le> 1"
    using assms by (induction b) (auto simp: spec_json_def)
  then have "parse_json (Encode (body_json b)) = Some (jv (body_json b))"
    by (intro json_read_back) (auto simp: body_json_def maxNestingDepth_def)
  moreover obtain arr' where "store_elements (map (\<lambda>sp. jv (spec_json sp)) b) 0 ([], 0)
      = Some (arr', length b)" "take (length b) arr' = b"
    using store_elements_printed [of 0 "[]" b] by auto
  ultimately show ?thesis
    by (simp add: Decode_body_def body_json_def jv_items_map store_slice_def comp_def)
qed

lemma specs_routes_printed:
  assumes "\<forall>x \<in> set rs. \<exists>u. Backend x = Some u \<and> Parse (url_String u) = Some u \<and>
    u_scheme u \<noteq> '''' \<and> u_host u \<noteq> ''''"
  shows "specs_routes (map (\<lambda>r. \<lparr>sp_Prefix = Prefix r, sp_Backend = url_String (the (Backend r))\<rparr>) rs)
    = Inr rs"
  using assms by (induction rs) auto

lemma well_formed_sorted: "well_formed_router r \<Longrightarrow> sort_routes (Routes r) = Routes r"
  by (simp add: well_formed_router_def Routes_def sort_routes_def len_key_def
      sort_key_id_if_sorted sorted_wrt_map)

text \<open>A route whose text can be posted back.\<close>

definition printable_route :: "route \<Rightarrow> bool" where
  "printable_route x =
     (case Backend x of
        None \<Rightarrow> False
      | Some u \<Rightarrow> valid_utf8 (Prefix x) \<and> valid_utf8 (url_String u) \<and> Parse (url_String u) = Some u \<and>
          u_scheme u \<noteq> '''' \<and> u_host u \<noteq> '''')"

lemma posted_table_text:
  assumes "valid_table rs" and "list_all printable_route rs"
  shows "posted_table (table_text rs) = Some rs"
proof -
  let ?b = "map (\<lambda>r. \<lparr>sp_Prefix = Prefix r, sp_Backend = url_String (the (Backend r))\<rparr>) rs"
  have "Decode_body (table_text rs) = Some ?b"
    unfolding table_text_def using assms(2)
    by (intro Decode_printed) (auto simp: list_all_iff printable_route_def split: option.splits)
  moreover have "specs_routes ?b = Inr rs"
    using assms(2)
    by (intro specs_routes_printed)
      (fastforce simp: list_all_iff printable_route_def split: option.splits)
  ultimately show ?thesis using assms(1) by (simp add: posted_table_def)
qed

lemma admin_post_effect:
  assumes "r_Method r = ''POST''" and "in_step w" and "\<not> header_sent w"
    and "RoutesAdmin e (Some h) r w s = (out, w', s')"
  shows "out = Returned \<and>
    (case posted_table (r_Body r) of
       None \<Rightarrow> s' = s \<and> cn_status (conn_of w') = 400
     | Some rs \<Rightarrow>
         (\<exists>cur. s' = s\<lparr>w_current := Some cur\<rparr> \<and> good_handler (ho_cfg h) cur) \<and>
         Holder_Routes s' = Some (sort_routes rs) \<and> cn_status (conn_of w') = 200 \<and>
         cn_body (conn_of w') = cn_body (conn_of w) @ table_text (sort_routes rs))"
proof (cases "posted_table (r_Body r)")
  case None
  obtain msg where "postRoutes e h r w s = (Returned, writeError w 400 msg, s)"
    using postRoutes_refused [OF None] .
  with assms None writeError_conn [OF assms(2,3)] show ?thesis by (auto simp: RoutesAdmin_def)
next
  case (Some rs)
  obtain cur where post: "postRoutes e h r w s = writeCurrent r w (s\<lparr>w_current := Some cur\<rparr>)"
    and good: "good_handler (ho_cfg h) cur" and router: "hd_router cur = \<lparr>routes = sort_routes rs\<rparr>"
    using postRoutes_accepted [OF Some] .
  have valid: "valid_table (sort_routes rs)"
    using Some by (auto simp: posted_table_def split: option.splits sum.splits if_splits)
  have routes: "Holder_Routes (s\<lparr>w_current := Some cur\<rparr>) = Some (sort_routes rs)"
    by (simp add: Holder_Routes_def router Routes_def)
  obtain w1 where "writeCurrent r w (s\<lparr>w_current := Some cur\<rparr>) = (Returned, w1, s\<lparr>w_current := Some cur\<rparr>)"
    "cn_status (conn_of w1) = 200"
    "cn_body (conn_of w1) = cn_body (conn_of w) @ table_text (sort_routes rs)"
    using writeCurrent_good [OF assms(2,3) routes valid] .
  with assms(1,4) post good routes Some show ?thesis by (auto simp: RoutesAdmin_def)
qed

section \<open>Properties\<close>

text \<open>A POST to the admin endpoint is all or nothing. If the body stands for an acceptable
  table, that table, sorted, is installed in a handler built with the holder's options and
  the answer is 200 with the table's text; otherwise the answer is 400 and nothing of the
  gateway's state changes.\<close>

theorem admin_post_all_or_nothing:
  assumes "r_Method r = ''POST''" and "in_step w" and "\<not> header_sent w"
    and "RoutesAdmin e (Some h) r w s = (out, w', s')"
  shows "out = Returned \<and>
    (case posted_table (r_Body r) of
       None \<Rightarrow> s' = s \<and> cn_status (conn_of w') = 400
     | Some rs \<Rightarrow>
         (\<exists>cur. s' = s\<lparr>w_current := Some cur\<rparr> \<and> good_handler (ho_cfg h) cur) \<and>
         Holder_Routes s' = Some (sort_routes rs) \<and> cn_status (conn_of w') = 200 \<and>
         cn_body (conn_of w') = cn_body (conn_of w) @ table_text (sort_routes rs))"
  using assms by (rule admin_post_effect)

definition demo_body :: string where
  "demo_body = Encode (body_json [\<lparr>sp_Prefix = ''/'', sp_Backend = ''http://a''\<rparr>,
     \<lparr>sp_Prefix = ''/b'', sp_Backend = ''http://b:81''\<rparr>])"

lemma demo_body_table:
  "posted_table demo_body = Some
     [\<lparr>Prefix = ''/'', Backend = Some (demo_url ''a'')\<rparr>,
      \<lparr>Prefix = ''/b'', Backend = Some (demo_url ''b:81'')\<rparr>]"
  by code_simp

theorem admin_post_all_or_nothing_witness:
  "\<exists>w' s'. RoutesAdmin demo_env (Some \<lparr>ho_cfg = demo_cfg\<rparr>)
      (demo_request ''POST'' ''/admin/routes''\<lparr>r_Body := demo_body\<rparr>) (Conn new_conn) quiet_world
      = (Returned, w', s') \<and>
     map_option (map Prefix) (Holder_Routes s') = Some [''/b'', ''/'']"
proof -
  let ?r = "demo_request ''POST'' ''/admin/routes''\<lparr>r_Body := demo_body\<rparr>"
  obtain out w' s' where run: "RoutesAdmin demo_env (Some \<lparr>ho_cfg = demo_cfg\<rparr>) ?r (Conn new_conn)
      quiet_world = (out, w', s')"
    by (metis prod_cases3)
  have m: "r_Method ?r = ''POST''" by (simp add: demo_request_def)
  have sorted: "map Prefix (sort_routes [\<lparr>Prefix = ''/'', Backend = Some (demo_url ''a'')\<rparr>,
      \<lparr>Prefix = ''/b'', Backend = Some (demo_url ''b:81'')\<rparr>]) = [''/b'', ''/'']"
    by code_simp
  show ?thesis
    using admin_post_all_or_nothing [OF m new_conn_ready run] run sorted
    by (simp add: demo_body_table)
qed

text \<open>C18: what GET prints can be posted back: a POST of the current table's text is accepted and
  leaves that table in place, for every table whose routes are printable (their texts are
  UTF-8 and their backends' URLs parse back to themselves).\<close>

theorem admin_get_post_roundtrip:
  assumes "good_state (ho_cfg h) s" and "Holder_Routes s = Some rs" and "list_all printable_route rs"
    and "r_Method r = ''POST''" and "r_Body r = table_text rs"
    and "in_step w" and "\<not> header_sent w" and "RoutesAdmin e (Some h) r w s = (out, w', s')"
  shows "out = Returned \<and> cn_status (conn_of w') = 200 \<and> Holder_Routes s' = Some rs \<and>
    cn_body (conn_of w') = cn_body (conn_of w) @ table_text rs"
proof -
  obtain cur where cur: "w_current s = Some cur" "good_handler (ho_cfg h) cur"
    using assms(1) by (auto simp: good_state_def split: option.splits)
  then have "well_formed_router (hd_router cur)" and rs: "Routes (hd_router cur) = rs"
    using assms(2) by (simp_all add: good_handler_def Holder_Routes_def)
  then have "valid_table rs" and "sort_routes rs = rs"
    using well_formed_routerE well_formed_sorted by blast+
  with posted_table_text assms(3,5) have "posted_table (r_Body r) = Some rs" by simp
  with admin_post_effect [OF assms(4,6,7,8)] \<open>sort_routes rs = rs\<close> show ?thesis by simp
qed

lemma demo_table_printable: "list_all printable_route (rev demo_routes)"
  by code_simp

theorem admin_get_post_roundtrip_witness:
  "\<exists>w' s'. RoutesAdmin demo_env (Some \<lparr>ho_cfg = demo_cfg\<rparr>)
      (demo_request ''POST'' ''/admin/routes''\<lparr>r_Body := table_text (rev demo_routes)\<rparr>)
      (Conn new_conn) (quiet_world\<lparr>w_current := Some demo_gateway\<rparr>) = (Returned, w', s') \<and>
    Holder_Routes s' = Some (rev demo_routes)"
proof -
  let ?r = "demo_request ''POST'' ''/admin/routes''\<lparr>r_Body := table_text (rev demo_routes)\<rparr>"
  let ?s = "quiet_world\<lparr>w_current := Some demo_gateway\<rparr>"
  let ?h = "\<lparr>ho_cfg = demo_cfg\<rparr>"
  obtain out w' s' where run: "RoutesAdmin demo_env (Some ?h) ?r (Conn new_conn) ?s = (out, w', s')"
    by (metis prod_cases3)
  have good: "good_state (ho_cfg ?h) ?s" by (simp add: good_state_def demo_gateway_good(1))
  have table: "Holder_Routes ?s = Some (rev demo_routes)"
    by (simp add: Holder_Routes_def demo_gateway_good(2) Routes_def)
  have "r_Method ?r = ''POST''" "r_Body ?r = table_text (rev demo_routes)"
    by (simp_all add: demo_request_def)
  from admin_get_post_roundtrip [OF good table demo_table_printable this new_conn_ready run] run
  show ?thesis by simp
qed

text \<open>Every request to the admin endpoint that is not a POST leaves the gateway's state as it
  is: GET answers 200 with the text of the current table, any other method is refused with
  405 and \<open>Allow: GET, POST\<close>.\<close>

theorem admin_reads_only:
  assumes "good_state (ho_cfg h) s" and "r_Method r \<noteq> ''POST''"
    and "in_step w" and "\<not> header_sent w" and "RoutesAdmin e (Some h) r w s = (out, w', s')"
  shows "out = Returned \<and> s' = s \<and>
    (if r_Method r = ''GET''
     then \<exists>rs. Holder_Routes s = Some rs \<and> cn_status (conn_of w') = 200 \<and>
       cn_body (conn_of w') = cn_body (conn_of w) @ table_text rs
     else cn_status (conn_of w') = 405 \<and>
       hdr_values (cn_sent (conn_of w')) ''Allow'' = [''GET, POST''])"
proof (cases "r_Method r = ''GET''")
  case True
  obtain rs where rs: "Holder_Routes s = Some rs" "valid_table rs"
    using store.get_good [OF assms(1)] by blast
  obtain w1 where "writeCurrent r w s = (Returned, w1, s)" "cn_status (conn_of w1) = 200"
    "cn_body (conn_of w1) = cn_body (conn_of w) @ table_text rs"
    using writeCurrent_good [OF assms(3,4) rs] .
  with True assms(5) rs(1) show ?thesis by (auto simp: RoutesAdmin_def)
next
  case False
  let ?w = "on_header (hdr_Set ''Allow'' ''GET, POST'') w"
  have "in_step ?w" "\<not> header_sent ?w" using assms(3,4) by simp_all
  note err = writeError_conn [OF this]
  have "out = Returned" "s' = s" "w' = writeError ?w 405 ''method not allowed''"
    using False assms(2,5) by (auto simp: RoutesAdmin_def Let_def)
  with False err show ?thesis by simp
qed

theorem admin_reads_only_witness:
  "\<exists>w'. RoutesAdmin demo_env (Some \<lparr>ho_cfg = demo_cfg\<rparr>) (demo_request ''DELETE'' ''/admin/routes'')
      (Conn new_conn) (quiet_world\<lparr>w_current := Some demo_gateway\<rparr>)
      = (Returned, w', quiet_world\<lparr>w_current := Some demo_gateway\<rparr>) \<and>
     cn_status (conn_of w') = 405"
proof -
  let ?s = "quiet_world\<lparr>w_current := Some demo_gateway\<rparr>"
  let ?r = "demo_request ''DELETE'' ''/admin/routes''"
  obtain out w' s' where run: "RoutesAdmin demo_env (Some \<lparr>ho_cfg = demo_cfg\<rparr>) ?r (Conn new_conn) ?s
      = (out, w', s')"
    by (metis prod_cases3)
  have good: "good_state (ho_cfg \<lparr>ho_cfg = demo_cfg\<rparr>) ?s"
    by (simp add: good_state_def demo_gateway_good(1))
  have m: "r_Method ?r \<noteq> ''POST''" "r_Method ?r \<noteq> ''GET''" by (simp_all add: demo_request_def)
  from admin_reads_only [OF good m(1) new_conn_ready run] m(2) run show ?thesis by simp
qed

lemma probes_run:
  assumes "in_step w" and "\<not> header_sent w"
  shows "\<exists>w1 w2. Healthz r w s = (Returned, w1, s) \<and> Readyz ready r w s = (Returned, w2, s) \<and>
    (if r_Method r = ''GET''
     then cn_status (conn_of w1) = 200 \<and>
       cn_status (conn_of w2) = (if snd (ready s) then 200 else 503)
     else cn_status (conn_of w1) = 405 \<and> cn_status (conn_of w2) = 405 \<and>
       hdr_values (cn_sent (conn_of w1)) ''Allow'' = [''GET''] \<and>
       hdr_values (cn_sent (conn_of w2)) ''Allow'' = [''GET''])"
proof -
  have probe: "cn_status (conn_of (run_ops (probe_ops st b) w)) = st" for st b
    using answer_conn [OF assms] by (simp add: probe_ops_def del: run_ops_simps)
  let ?w = "on_header (hdr_Set ''Allow'' ''GET'') w"
  have "in_step ?w" "\<not> header_sent ?w" using assms by simp_all
  note refuse = answer_conn [OF this, of "hdr_Set ''Content-Type'' ''application/json''" 405]
  have "run_ops not_allowed_ops w = run_ops (tl not_allowed_ops) ?w"
    by (simp add: not_allowed_ops_def)
  with refuse have "cn_status (conn_of (run_ops not_allowed_ops w)) = 405"
    "hdr_values (cn_sent (conn_of (run_ops not_allowed_ops w))) ''Allow'' = [''GET'']"
    by (simp_all add: not_allowed_ops_def del: run_ops_simps)
  with probe show ?thesis by (simp add: Healthz_eq Readyz_eq)
qed

text \<open>The probes change nothing. Liveness answers 200 to GET; readiness asks the closure in
  the state of the very request and answers 200 or 503 by it; both refuse other methods with
  405 and \<open>Allow: GET\<close>.\<close>

theorem probes_answer:
  assumes "in_step w" and "\<not> header_sent w"
  shows "\<exists>w1 w2. Healthz r w s = (Returned, w1, s) \<and> Readyz ready r w s = (Returned, w2, s) \<and>
    (if r_Method r = ''GET''
     then cn_status (conn_of w1) = 200 \<and>
       cn_status (conn_of w2) = (if snd (ready s) then 200 else 503)
     else cn_status (conn_of w1) = 405 \<and> cn_status (conn_of w2) = 405 \<and>
       hdr_values (cn_sent (conn_of w1)) ''Allow'' = [''GET''] \<and>
       hdr_values (cn_sent (conn_of w2)) ''Allow'' = [''GET''])"
  using assms by (rule probes_run)

theorem probes_answer_witness:
  "\<exists>w'. Readyz (\<lambda>s. (''starting'', False)) (demo_request ''GET'' ''/readyz'') (Conn new_conn) quiet_world
     = (Returned, w', quiet_world) \<and> cn_status (conn_of w') = 503"
proof -
  have "r_Method (demo_request ''GET'' ''/readyz'') = ''GET''" by (simp add: demo_request_def)
  with probes_answer [OF new_conn_ready, of "demo_request ''GET'' ''/readyz''" quiet_world
      "\<lambda>s. (''starting'', False)"]
  show ?thesis by auto
qed

end
