(* ===== verification/CleanPath.thy ===== *)
theory CleanPath
  imports Prelude
begin

text \<open>
  Go's \<open>path.Clean\<close> on rooted paths and \<open>cleanPath\<close> of \<open>net/http\<close>, which decides the paths the
  server's mux passes on to the gateway's handlers and the ones it redirects.
\<close>

section \<open>Clean paths\<close>

text \<open>\<open>path.Clean\<close> of a rooted path, on its segments: empty ones and dots are dropped, a double
  dot removes the segment before it.\<close>

fun clean_segments :: "string list \<Rightarrow> string list \<Rightarrow> string list" where
  "clean_segments acc [] = acc"
| "clean_segments acc (x # xs) =
     (if x = '''' \<or> x = ''.'' then clean_segments acc xs
      else if x = ''..'' then clean_segments (butlast acc) xs
      else clean_segments (acc @ [x]) xs)"

definition Clean_rooted :: "string \<Rightarrow> string" where
  "Clean_rooted p = ''/'' @ Join (clean_segments [] (split_on (CHR ''/'') p)) ''/''"

definition cleanPath :: "string \<Rightarrow> string" where
  "cleanPath p =
     (if p = '''' then ''/''
      else
        (let p = (if HasPrefix p ''/'' then p else ''/'' @ p);
             np = Clean_rooted p in
         if HasSuffix p ''/'' \<and> np \<noteq> ''/'' then np @ ''/'' else np))"

section \<open>Clean paths are stable\<close>

definition plain_segment :: "string \<Rightarrow> bool" where
  "plain_segment x = (x \<noteq> '''' \<and> x \<noteq> ''.'' \<and> x \<noteq> ''..'' \<and> CHR ''/'' \<notin> set x)"

lemma split_on_nonempty: "split_on c s \<noteq> []"
  by (induction s) (auto split: list.splits)

lemma split_on_no_sep: "x \<in> set (split_on c s) \<Longrightarrow> c \<notin> set x"
proof (induction s arbitrary: x)
  case (Cons a s)
  then show ?case
    using split_on_nonempty [of c s] by (cases "split_on c s") (auto split: if_splits)
qed simp

lemma clean_segments_plain:
  assumes "\<forall>x \<in> set acc. plain_segment x" and "\<forall>x \<in> set xs. CHR ''/'' \<notin> set x"
  shows "\<forall>x \<in> set (clean_segments acc xs). plain_segment x"
  using assms
proof (induction acc xs rule: clean_segments.induct)
  case (2 acc x xs)
  consider "x = '''' \<or> x = ''.''" | "x = ''..''" | "plain_segment x" "x \<noteq> '''' \<and> x \<noteq> ''.''" "x \<noteq> ''..''"
    using 2(5) by (auto simp: plain_segment_def)
  then show ?case
  proof cases
    case 1
    with 2(1) [OF 1] 2(4,5) show ?thesis by simp
  next
    case c: 2
    have "\<forall>y \<in> set (butlast acc). plain_segment y" using 2(4) by (meson in_set_butlastD)
    with 2(2) c 2(5) show ?thesis by simp
  next
    case 3
    with 2(3) 2(4,5) show ?thesis by simp
  qed
qed simp

lemma clean_segments_id:
  "\<forall>x \<in> set xs. plain_segment x \<Longrightarrow> clean_segments acc xs = acc @ xs"
  by (induction xs arbitrary: acc) (simp_all add: plain_segment_def)

lemma clean_segments_empty_end: "clean_segments acc (xs @ [[]]) = clean_segments acc xs"
  by (induction acc xs rule: clean_segments.induct) simp_all

lemma split_on_append:
  "c \<notin> set x \<Longrightarrow> split_on c (x @ c # s) = x # split_on c s"
  by (induction x) auto

lemma split_on_no_occurrence: "c \<notin> set x \<Longrightarrow> split_on c x = [x]"
  by (induction x) auto

lemma split_Join:
  assumes "xs \<noteq> []" and "\<forall>x \<in> set xs. c \<notin> set x"
  shows "split_on c (Join xs [c]) = xs" and "split_on c (Join xs [c] @ [c]) = xs @ [[]]"
proof -
  have "split_on c (Join xs [c]) = xs \<and> split_on c (Join xs [c] @ [c]) = xs @ [[]]"
    using assms
  proof (induction xs "[c]" rule: Join.induct)
    case (2 x)
    then show ?case using split_on_append [of c x "[]"] by (simp add: split_on_no_occurrence)
  next
    case (3 x y xs)
    then show ?case by (simp add: split_on_append)
  qed simp
  then show "split_on c (Join xs [c]) = xs" "split_on c (Join xs [c] @ [c]) = xs @ [[]]" by simp_all
qed

text \<open>The segments a cleaned path is made of.\<close>

lemma Clean_rooted_segments:
  obtains xs where "Clean_rooted p = ''/'' @ Join xs ''/''" and "\<forall>x \<in> set xs. plain_segment x"
  using that clean_segments_plain [of "[]" "split_on (CHR ''/'') p"] split_on_no_sep
  unfolding Clean_rooted_def by fastforce

lemma Clean_rooted_id:
  assumes "\<forall>x \<in> set xs. plain_segment x"
  shows "Clean_rooted (''/'' @ Join xs ''/'') = ''/'' @ Join xs ''/''"
    and "xs \<noteq> [] \<Longrightarrow> Clean_rooted (''/'' @ Join xs ''/'' @ ''/'') = ''/'' @ Join xs ''/''"
proof -
  have sep: "\<forall>x \<in> set xs. CHR ''/'' \<notin> set x" using assms by (simp add: plain_segment_def)
  show "Clean_rooted (''/'' @ Join xs ''/'') = ''/'' @ Join xs ''/''"
    using split_Join(1) [OF _ sep] clean_segments_id [OF assms, of "[]"]
    by (cases "xs = []") (simp_all add: Clean_rooted_def)
  show "Clean_rooted (''/'' @ Join xs ''/'' @ ''/'') = ''/'' @ Join xs ''/''" if "xs \<noteq> []"
    using split_Join(2) [OF that sep] clean_segments_id [OF assms, of "[]"]
    by (simp add: Clean_rooted_def clean_segments_empty_end)
qed

lemma Join_plain_end:
  "xs \<noteq> [] \<Longrightarrow> \<forall>x \<in> set xs. plain_segment x \<Longrightarrow>
     Join xs ''/'' \<noteq> [] \<and> last (Join xs ''/'') \<noteq> CHR ''/''"
proof (induction xs "''/''" rule: Join.induct)
  case (2 x)
  then have "x \<noteq> []" "CHR ''/'' \<notin> set x" by (simp_all add: plain_segment_def)
  then show ?case using last_in_set by fastforce
qed auto

text \<open>Both shapes of a clean path: its segments, and perhaps a trailing slash.\<close>

definition clean_shape :: "string \<Rightarrow> bool" where
  "clean_shape p = (\<exists>xs. (\<forall>x \<in> set xs. plain_segment x) \<and>
     (p = ''/'' @ Join xs ''/'' \<or> xs \<noteq> [] \<and> p = ''/'' @ Join xs ''/'' @ ''/''))"

lemma cleanPath_shape: "clean_shape (cleanPath p)"
proof -
  have root: "clean_shape ''/''" unfolding clean_shape_def by (rule exI [of _ "[]"]) simp
  let ?p = "if HasPrefix p ''/'' then p else ''/'' @ p"
  obtain xs where xs: "Clean_rooted ?p = ''/'' @ Join xs ''/''" "\<forall>x \<in> set xs. plain_segment x"
    using Clean_rooted_segments .
  then have "clean_shape (Clean_rooted ?p)" unfolding clean_shape_def by blast
  moreover have "clean_shape (Clean_rooted ?p @ ''/'')" if "Clean_rooted ?p \<noteq> ''/''"
    unfolding clean_shape_def using xs that by (intro exI [of _ xs]) auto
  ultimately show ?thesis using root by (simp add: cleanPath_def Let_def)
qed

lemma cleanPath_of_shape:
  assumes "clean_shape p"
  shows "cleanPath p = p"
proof -
  obtain xs where xs: "\<forall>x \<in> set xs. plain_segment x"
    and p: "p = ''/'' @ Join xs ''/'' \<or> xs \<noteq> [] \<and> p = ''/'' @ Join xs ''/'' @ ''/''"
    using assms by (auto simp: clean_shape_def)
  have pre: "HasPrefix p ''/''" "p \<noteq> ''''" using p by (auto simp: HasPrefix_iff)
  show ?thesis
  proof (cases "p = ''/'' @ Join xs ''/''")
    case True
    have "\<not> (HasSuffix p ''/'' \<and> p \<noteq> ''/'')"
    proof (cases "xs = []")
      case False
      with Join_plain_end [OF _ xs] True show ?thesis
        by (auto simp: HasSuffix_iff suffix_def Cons_eq_append_conv)
    qed (simp add: True)
    with True pre Clean_rooted_id(1) [OF xs] show ?thesis by (simp add: cleanPath_def Let_def)
  next
    case False
    with p have p2: "xs \<noteq> []" "p = ''/'' @ Join xs ''/'' @ ''/''" by simp_all
    have "HasSuffix p ''/''" using p2 by (simp add: HasSuffix_iff suffix_def)
    moreover have "Join xs ''/'' \<noteq> []" using Join_plain_end [OF p2(1) xs] by simp
    ultimately show ?thesis
      using pre Clean_rooted_id(2) [OF xs p2(1)] p2(2) by (simp add: cleanPath_def Let_def)
  qed
qed

lemma cleanPath_clean [simp]: "cleanPath (cleanPath p) = cleanPath p"
  by (rule cleanPath_of_shape [OF cleanPath_shape])

text \<open>A path that is clean is absolute and has no dot segments.\<close>

lemma clean_no_dots:
  assumes "cleanPath p = p"
  shows "HasPrefix p ''/''" and "''.'' \<notin> set (split_on (CHR ''/'') p)"
    and "''..'' \<notin> set (split_on (CHR ''/'') p)"
proof -
  have "clean_shape p" using cleanPath_shape [of p] assms by simp
  then obtain xs where xs: "\<forall>x \<in> set xs. plain_segment x"
    and p: "p = ''/'' @ Join xs ''/'' \<or> xs \<noteq> [] \<and> p = ''/'' @ Join xs ''/'' @ ''/''"
    by (auto simp: clean_shape_def)
  have sep: "\<forall>x \<in> set xs. CHR ''/'' \<notin> set x" using xs by (simp add: plain_segment_def)
  have "set (split_on (CHR ''/'') p) \<subseteq> insert '''' (set xs)"
    using p split_Join [OF _ sep] by (cases "xs = []") auto
  moreover have "''.'' \<notin> set xs" "''..'' \<notin> set xs" using xs by (auto simp: plain_segment_def)
  ultimately show "''.'' \<notin> set (split_on (CHR ''/'') p)" "''..'' \<notin> set (split_on (CHR ''/'') p)"
    by auto
  show "HasPrefix p ''/''" using p by (auto simp: HasPrefix_iff)
qed

end
