(* ===== verification/Mux.thy ===== *)
theory Mux
  imports HttpApi CleanPath
begin

text \<open>
  Go's \<open>http.ServeMux\<close> (1.18), which \<open>run\<close> in \<open>cmd/decision-gateway/main.go\<close> registers its
  handlers on: exact patterns, subtree patterns ending in a slash, and the redirect of paths
  that are not clean. Patterns here never name a host. The redirect that adds a trailing slash
  needs a registered pattern that is the path and a slash; with the gateway's patterns that is
  only the empty path, which the library excludes, so it is left out.
\<close>

section \<open>The library's own handlers\<close>

text \<open>\<open>http.NotFound\<close>.\<close>

definition mux_NotFound :: handler where
  "mux_NotFound r w s =
     (let w = on_header (hdr_Set ''Content-Type'' ''text/plain; charset=utf-8'') w;
          w = on_header (hdr_Set ''X-Content-Type-Options'' ''nosniff'') w;
          w = WriteHeader w 404;
          w = Write w (''404 page not found'' @ [newline]) in
      (Returned, w, s))"

definition html_escape :: "string \<Rightarrow> string" where
  "html_escape s = concat (map (\<lambda>c.
     if c = CHR ''&'' then ''&amp;'' else if c = CHR ''<'' then ''&lt;''
     else if c = CHR ''>'' then ''&gt;'' else if c = quote then ''&#34;''
     else if c = CHR 0x27 then ''&#39;'' else [c]) s)"

text \<open>\<open>http.Redirect\<close> with 301 to a rooted location whose path is clean.\<close>

definition Redirect :: "string \<Rightarrow> handler" where
  "Redirect loc r w s =
     (let hadCT = writer_Header w ''Content-Type'' \<noteq> None;
          w = on_header (hdr_Set ''Location'' loc) w;
          w = (if \<not> hadCT \<and> (r_Method r = ''GET'' \<or> r_Method r = ''HEAD'')
               then on_header (hdr_Set ''Content-Type'' ''text/html; charset=utf-8'') w else w);
          w = WriteHeader w 301;
          w = (if \<not> hadCT \<and> r_Method r = ''GET''
               then Write w (''<a href='' @ [quote] @ html_escape loc @ [quote] @
                 ''>Moved Permanently</a>.'' @ [newline, newline])
               else w) in
      (Returned, w, s))"

section \<open>The mux\<close>

type_synonym mux = "(string \<times> handler) list"

definition Handle :: "string \<Rightarrow> handler \<Rightarrow> mux \<Rightarrow> mux" where
  "Handle pat h m = m @ [(pat, h)]"

text \<open>The longest subtree pattern that starts the path.\<close>

definition subtree_match :: "mux \<Rightarrow> string \<Rightarrow> (string \<times> handler) option" where
  "subtree_match m p =
     find (\<lambda>(pat, h). HasPrefix p pat)
       (sort_key (\<lambda>(pat, h). - int (length pat)) (filter (\<lambda>(pat, h). HasSuffix pat ''/'') m))"

definition mux_handler :: "mux \<Rightarrow> string \<Rightarrow> handler" where
  "mux_handler m p =
     (case map_of m p of
        Some h \<Rightarrow> h
      | None \<Rightarrow> (case subtree_match m p of Some (pat, h) \<Rightarrow> h | None \<Rightarrow> mux_NotFound))"

definition mux_Handler :: "mux \<Rightarrow> request \<Rightarrow> handler" where
  "mux_Handler m r =
     (let path = u_path (r_URL r) in
      if r_Method r = ''CONNECT'' then mux_handler m path
      else if cleanPath path \<noteq> path then
        Redirect (url_String (empty_url\<lparr>u_path := cleanPath path, u_rawquery := u_rawquery (r_URL r)\<rparr>))
      else mux_handler m path)"

definition ServeMux_ServeHTTP :: "mux \<Rightarrow> handler" where
  "ServeMux_ServeHTTP m r w s =
     (if r_RequestURI r = ''*'' then
        (Returned, WriteHeader (on_header (hdr_Set ''Connection'' ''close'') w) 400, s)
      else mux_Handler m r r w s)"

end
