(* ===== verification/RouteFlags.thy ===== *)
theory RouteFlags
  imports Router
begin

text \<open>
  \<open>cmd/decision-gateway/routes.go\<close>: the repeatable \<open>--route PREFIX=>BACKEND_URL\<close> flag.
  \<open>routeFlagList\<close> collects the occurrences, \<open>parseRouteFlags\<close> turns them into routes or
  reports the first bad one.
\<close>

section \<open>Operations\<close>

type_synonym routeFlagList = "string list"

definition routeFlagList_String :: "routeFlagList \<Rightarrow> string" where
  "routeFlagList_String r = Join r '',''"

text \<open>\<open>Set\<close> appends the occurrence and never fails.\<close>

definition routeFlagList_Set :: "routeFlagList \<Rightarrow> string \<Rightarrow> routeFlagList" where
  "routeFlagList_Set r v = r @ [v]"

definition splitArrow :: "string \<Rightarrow> string \<times> string \<times> bool" where
  "splitArrow spec =
     (case Index spec ''=>'' of
        None \<Rightarrow> ('''', '''', False)
      | Some i \<Rightarrow> (take i spec, drop (i + 2) spec, True))"

text \<open>One constructor per error return; the string is the offending flag value.\<close>

datatype flag_error =
    RouteRequired
  | MissingArrow string
  | FlagPrefixEmpty string
  | PrefixNoSlash string
  | BackendNotURL string string
  | BackendNoScheme string string
  | BackendNoHost string string

definition parseRouteFlag :: "string \<Rightarrow> flag_error + route" where
  "parseRouteFlag spec =
     (let (pre, backendSpec, ok) = splitArrow spec in
      if \<not> ok then Inl (MissingArrow spec)
      else if pre = '''' then Inl (FlagPrefixEmpty spec)
      else if \<not> HasPrefix pre ''/'' then Inl (PrefixNoSlash spec)
      else case Parse backendSpec of
             None \<Rightarrow> Inl (BackendNotURL spec backendSpec)
           | Some backend \<Rightarrow>
               if u_scheme backend = '''' then Inl (BackendNoScheme spec backendSpec)
               else if u_host backend = '''' then Inl (BackendNoHost spec backendSpec)
               else Inr \<lparr>Prefix = pre, Backend = Some backend\<rparr>)"

text \<open>The loop over \<open>specs\<close>, with the routes accumulated so far.\<close>

fun parse_specs :: "route list \<Rightarrow> string list \<Rightarrow> flag_error + route list" where
  "parse_specs acc [] = Inr acc"
| "parse_specs acc (spec # specs) =
     (case parseRouteFlag spec of
        Inl e \<Rightarrow> Inl e
      | Inr r \<Rightarrow> parse_specs (acc @ [r]) specs)"

definition parseRouteFlags :: "string list \<Rightarrow> flag_error + route list" where
  "parseRouteFlags specs = (if specs = [] then Inl RouteRequired else parse_specs [] specs)"

section \<open>Lemmas\<close>

text \<open>What a parsed flag guarantees about its route.\<close>

definition flag_route :: "route \<Rightarrow> bool" where
  "flag_route r =
     (HasPrefix (Prefix r) ''/'' \<and>
      (case Backend r of None \<Rightarrow> False | Some u \<Rightarrow> u_scheme u \<noteq> '''' \<and> u_host u \<noteq> ''''))"

lemma splitArrow_append:
  assumes "\<forall>j < length p. \<not> prefix ''=>'' (drop j (p @ ''=>''))"
  shows "splitArrow (p @ ''=>'' @ b) = (p, b, True)"
proof -
  have "Index (p @ ''=>'' @ b) ''=>'' = Some (length p)"
    using assms
  proof (induction p)
    case Nil
    then show ?case by (simp add: HasPrefix_def)
  next
    case (Cons c p)
    have "\<forall>j < length p. \<not> prefix ''=>'' (drop j (p @ ''=>''))"
      using Cons.prems by (auto simp: All_less_Suc2)
    with Cons.IH have "Index (p @ ''=>'' @ b) ''=>'' = Some (length p)" by blast
    moreover have "\<not> HasPrefix (c # p @ ''=>'' @ b) ''=>''"
      using Cons.prems by (cases p) (auto simp: HasPrefix_iff All_less_Suc2)
    ultimately show ?case by simp
  qed
  then show ?thesis by (simp add: splitArrow_def)
qed

lemma splitArrow_first_iff:
  "splitArrow spec = (p, b, ok) \<longleftrightarrow>
     (if sublist ''=>'' spec
      then ok \<and> spec = p @ ''=>'' @ b \<and> (\<forall>j < length p. \<not> prefix ''=>'' (drop j spec))
      else \<not> ok \<and> p = '''' \<and> b = '''')"
proof (cases "Index spec ''=>''")
  case None
  then have "\<not> sublist ''=>'' spec" by (simp add: Index_None)
  with None show ?thesis by (auto simp: splitArrow_def)
next
  case (Some i)
  then have sub: "sublist ''=>'' spec" using Index_None [of spec "''=>''"] by auto
  have spec: "spec = take i spec @ ''=>'' @ drop (i + 2) spec"
    using Index_Some_append [OF Some] by (simp add: numeral_2_eq_2)
  have early: "\<forall>j < i. \<not> prefix ''=>'' (drop j spec)"
    using Index_first [OF Some] by (simp add: HasPrefix_iff)
  have len: "length (take i spec) = i" using Index_Some_split [OF Some] by simp
  have "p = take i spec" if "spec = p @ ''=>'' @ b" "\<forall>j < length p. \<not> prefix ''=>'' (drop j spec)"
  proof -
    have "prefix ''=>'' (drop (length p) spec)" by (subst that(1)) simp
    then have "\<not> length p < i" using early by blast
    moreover have "prefix ''=>'' (drop i spec)"
      using Index_Some_split [OF Some] by (metis prefix_def append_take_drop_id)
    then have "\<not> i < length p" using that(2) by blast
    ultimately have "length p = i" by simp
    then show ?thesis using that(1) by (metis append_eq_conv_conj)
  qed
  then have parts: "p = take i spec \<and> b = drop (i + 2) spec"
    if "spec = p @ ''=>'' @ b" "\<forall>j < length p. \<not> prefix ''=>'' (drop j spec)"
    using that spec by (metis append.assoc same_append_eq)
  have split: "splitArrow spec = (take i spec, drop (i + 2) spec, True)"
    using Some by (simp add: splitArrow_def)
  show ?thesis
  proof
    assume "splitArrow spec = (p, b, ok)"
    then have "p = take i spec" "b = drop (i + 2) spec" ok using split by simp_all
    then show "if sublist ''=>'' spec
      then ok \<and> spec = p @ ''=>'' @ b \<and> (\<forall>j < length p. \<not> prefix ''=>'' (drop j spec))
      else \<not> ok \<and> p = '''' \<and> b = ''''"
      using sub spec early len by (metis (no_types, lifting))
  next
    assume "if sublist ''=>'' spec
      then ok \<and> spec = p @ ''=>'' @ b \<and> (\<forall>j < length p. \<not> prefix ''=>'' (drop j spec))
      else \<not> ok \<and> p = '''' \<and> b = ''''"
    then have ok and "p = take i spec \<and> b = drop (i + 2) spec"
      using sub parts by (metis (no_types))+
    then show "splitArrow spec = (p, b, ok)" using split by (metis (full_types))
  qed
qed

lemma parseRouteFlag_Inr:
  "parseRouteFlag spec = Inr r \<longleftrightarrow>
     (\<exists>i u. Index spec ''=>'' = Some i \<and> HasPrefix (take i spec) ''/'' \<and>
        Parse (drop (i + 2) spec) = Some u \<and> u_scheme u \<noteq> '''' \<and> u_host u \<noteq> '''' \<and>
        r = \<lparr>Prefix = take i spec, Backend = Some u\<rparr>)"
  by (auto simp: parseRouteFlag_def splitArrow_def HasPrefix_def Let_def
      split: option.splits if_splits)

lemma parseRouteFlag_flag_route: "parseRouteFlag spec = Inr r \<Longrightarrow> flag_route r"
  by (auto simp: parseRouteFlag_Inr flag_route_def)

lemma parse_specs_Inr:
  "parse_specs acc specs = Inr rs \<longleftrightarrow>
     (\<exists>new. rs = acc @ new \<and> list_all2 (\<lambda>s r. parseRouteFlag s = Inr r) specs new)"
proof (induction specs arbitrary: acc)
  case Nil
  then show ?case by auto
next
  case (Cons s specs)
  then show ?case
    by (cases "parseRouteFlag s") (auto simp: list_all2_Cons1)
qed

lemma parse_specs_Inl:
  "parse_specs acc specs = Inl e \<longleftrightarrow>
     (\<exists>i < length specs. parseRouteFlag (specs ! i) = Inl e \<and>
        (\<forall>j < i. \<exists>r. parseRouteFlag (specs ! j) = Inr r))"
proof (induction specs arbitrary: acc)
  case Nil
  then show ?case by simp
next
  case (Cons s specs)
  show ?case
  proof (cases "parseRouteFlag s")
    case (Inl a)
    then show ?thesis
      by (auto simp: less_Suc_eq_0_disj nth_Cons' split: if_splits)
  next
    case (Inr r)
    then show ?thesis using Cons.IH [of "acc @ [r]"]
      by (auto simp: Ex_less_Suc2 All_less_Suc2)
  qed
qed

lemma parseRouteFlags_routes:
  assumes "parseRouteFlags specs = Inr rs"
  shows "length rs = length specs \<and> rs \<noteq> [] \<and> list_all flag_route rs"
proof -
  from assms have all: "list_all2 (\<lambda>s r. parseRouteFlag s = Inr r) specs rs" and "specs \<noteq> []"
    by (auto simp: parseRouteFlags_def parse_specs_Inr split: if_splits)
  then show ?thesis
    by (auto simp: list_all_length list_all2_conv_all_nth) (metis parseRouteFlag_flag_route)
qed

section \<open>Properties\<close>

text \<open>\<open>splitArrow\<close> cuts at the first arrow: it succeeds exactly when \<open>=>\<close> occurs; then
  prefix, arrow and backend make up the flag value again and no arrow starts inside the
  prefix; otherwise both parts are empty.\<close>

theorem splitArrow_first:
  "splitArrow spec = (p, b, ok) \<longleftrightarrow>
     (if sublist ''=>'' spec
      then ok \<and> spec = p @ ''=>'' @ b \<and> (\<forall>j < length p. \<not> prefix ''=>'' (drop j spec))
      else \<not> ok \<and> p = '''' \<and> b = '''')"
  by (rule splitArrow_first_iff)

theorem splitArrow_first_witness:
  "splitArrow ''/a=>b=>c'' = (''/a'', ''b=>c'', True)"
  by (rule splitArrow_first [THEN iffD2]) code_simp

lemma duplicates_left:
  assumes "parseRouteFlags specs = Inr rs"
  shows "length rs = length specs \<and> list_all flag_route rs \<and>
    (case NewRouter rs of
       Inr r \<Rightarrow> distinct (map Prefix rs)
     | Inl e \<Rightarrow> (\<exists>p i j. e = DuplicatePrefix p i j) \<and> \<not> distinct (map Prefix rs))"
proof -
  note rs = parseRouteFlags_routes [OF assms]
  then have ok: "list_all (\<lambda>x. Prefix x \<noteq> '''' \<and> Backend x \<noteq> None) rs"
    by (auto simp: list_all_iff flag_route_def HasPrefix_def split: option.splits)
  show ?thesis
  proof (cases "NewRouter rs")
    case (Inr r)
    then have "distinct (map Prefix rs)" by (simp add: NewRouter_Inr_iff valid_table_def)
    with rs Inr show ?thesis by simp
  next
    case (Inl e)
    then have "\<not> valid_table rs" using NewRouter_Inr_iff [of rs] by auto
    with rs ok have "\<not> distinct (map Prefix rs)" by (simp add: valid_table_def)
    moreover have "\<exists>p i j. e = DuplicatePrefix p i j"
      using NewRouter_Inl [OF Inl] rs ok by (cases e) (auto simp: list_all_length)
    ultimately show ?thesis using rs Inl by simp
  qed
qed

text \<open>A successful parse keeps one route per flag, in order; every prefix starts with a
  slash and every backend has a scheme and a host, so of \<open>NewRouter\<close>'s errors only the
  duplicate prefix can still occur.\<close>

theorem parseRouteFlags_only_duplicates_left:
  assumes "parseRouteFlags specs = Inr rs"
  shows "length rs = length specs \<and> list_all flag_route rs \<and>
    (case NewRouter rs of
       Inr r \<Rightarrow> distinct (map Prefix rs)
     | Inl e \<Rightarrow> (\<exists>p i j. e = DuplicatePrefix p i j) \<and> \<not> distinct (map Prefix rs))"
  using assms by (rule duplicates_left)

theorem parseRouteFlags_only_duplicates_left_witness:
  "length [\<lparr>Prefix = ''/d'', Backend = Some (demo_url ''svc:8080'')\<rparr>] = 1"
proof -
  have h: "parseRouteFlags [''/d=>http://svc:8080''] =
      Inr [\<lparr>Prefix = ''/d'', Backend = Some (demo_url ''svc:8080'')\<rparr>]"
    by code_simp
  show ?thesis using parseRouteFlags_only_duplicates_left [OF h] by simp
qed

text \<open>C30: the error of \<open>parseRouteFlags\<close> is the one of the first offending flag: every flag
  before it parses on its own, and no flag at all is the error that asks for one.\<close>

theorem parseRouteFlags_first_error:
  assumes "parseRouteFlags specs = Inl e"
  shows "(specs = [] \<and> e = RouteRequired) \<or>
    (\<exists>i < length specs. parseRouteFlag (specs ! i) = Inl e \<and>
       (\<forall>j < i. \<exists>r. parseRouteFlag (specs ! j) = Inr r))"
  using assms by (auto simp: parseRouteFlags_def parse_specs_Inl split: if_splits)

theorem parseRouteFlags_first_error_witness:
  "parseRouteFlags [''/d=>http://svc'', ''/e=>svc:80'', ''x''] =
     Inl (BackendNoHost ''/e=>svc:80'' ''svc:80'')"
proof -
  have h: "parseRouteFlags [''/d=>http://svc'', ''/e=>svc:80'', ''x''] =
      Inl (BackendNoHost ''/e=>svc:80'' ''svc:80'')"
    by code_simp
  show ?thesis using h parseRouteFlags_first_error [OF h] by blast
qed

text \<open>C31: round trip of one flag: the flag written as prefix, arrow and printed backend
  parses to that prefix and backend whenever the prefix starts with a slash and holds no
  arrow (not even across its end) and the printed backend parses back to it.\<close>

theorem parseRouteFlag_roundtrip:
  assumes "HasPrefix p ''/''" and "\<forall>j < length p. \<not> prefix ''=>'' (drop j (p @ ''=>''))"
    and "Parse (url_String u) = Some u" and "u_scheme u \<noteq> ''''" and "u_host u \<noteq> ''''"
  shows "parseRouteFlag (p @ ''=>'' @ url_String u) = Inr \<lparr>Prefix = p, Backend = Some u\<rparr>"
proof -
  have "splitArrow (p @ ''=>'' @ url_String u) = (p, url_String u, True)"
    using assms(2) by (rule splitArrow_append)
  then show ?thesis using assms by (auto simp: parseRouteFlag_def HasPrefix_def)
qed

theorem parseRouteFlag_roundtrip_witness:
  "parseRouteFlag (''/decide'' @ ''=>'' @ url_String (demo_url ''svc:8080'')) =
     Inr \<lparr>Prefix = ''/decide'', Backend = Some (demo_url ''svc:8080'')\<rparr>"
  by (rule parseRouteFlag_roundtrip) code_simp+

end
