(* ===== verification/Bootstrap.thy ===== *)
theory Bootstrap
  imports Http
begin

text \<open>
  \<open>internal/observability/otel/bootstrap.go\<close>: \<open>Bootstrap\<close> connects an exporter, a resource and two
  propagators of the OpenTelemetry SDK and installs them as the process's globals. The SDK is
  not under \<open>src/\<close>: whether its constructors succeed, the objects they make (of any types \<open>'e\<close>
  and \<open>'r\<close>) and the two propagators are parameters. \<open>Otel\<close> reads the global propagator through
  the environment; \<open>with_globals\<close> connects the two.
\<close>

section \<open>The SDK\<close>

definition sets_its_fields :: "propagator \<Rightarrow> bool" where
  "sets_its_fields p =
     (\<forall>sc h k. k \<notin> CanonicalHeaderKey ` set (pg_Fields p) \<longrightarrow> pg_Inject p sc h k = h k)"

text \<open>\<open>NewCompositeTextMapPropagator\<close>: each propagator in turn.\<close>

definition composite :: "propagator list \<Rightarrow> propagator" where
  "composite ps =
     \<lparr>pg_Inject = (\<lambda>sc h. fold (\<lambda>p h. pg_Inject p sc h) ps h),
      pg_Extract = (\<lambda>sc h. fold (\<lambda>p sc. pg_Extract p sc h) ps sc),
      pg_Fields = concat (map pg_Fields ps)\<rparr>"

record ('e, 'r) sdk =
  sdk_exporter :: "string + 'e"
  sdk_resource :: "string + 'r"
  sdk_TraceContext :: propagator
  sdk_Baggage :: propagator

section \<open>Bootstrap\<close>

text \<open>The tracer is named after the instrumentation; the \<open>Shutdown\<close> returned is the provider's,
  so it is the provider here.\<close>

definition Bootstrap ::
  "('e, 'r) sdk \<Rightarrow> string \<Rightarrow> ('e, 'r) otel_globals
     \<Rightarrow> (string + tracer \<times> ('e, 'r) tracer_provider) \<times> ('e, 'r) otel_globals" where
  "Bootstrap sdk instrumentationName g =
     (case sdk_exporter sdk of
        Inl err \<Rightarrow> (Inl (''otlptrace gRPC exporter: '' @ err), g)
      | Inr xp \<Rightarrow>
          (let g = g\<lparr>og_running := og_running g @ [xp]\<rparr> in
           case sdk_resource sdk of
             Inl err \<Rightarrow> (Inl (''resource detection: '' @ err), g)
           | Inr res \<Rightarrow>
               (let tp = \<lparr>tp_exporter = xp, tp_resource = res\<rparr>;
                    g = g\<lparr>og_provider := Some tp\<rparr>;
                    g = g\<lparr>og_propagator := composite [sdk_TraceContext sdk, sdk_Baggage sdk]\<rparr> in
                (Inr (instrumentationName, tp), g))))"

text \<open>The environment of the middlewares under these globals.\<close>

definition with_globals :: "('e, 'r) otel_globals \<Rightarrow> env \<Rightarrow> env" where
  "with_globals g e =
     e\<lparr>e_extract := pg_Extract (og_propagator g), e_inject := pg_Inject (og_propagator g)\<rparr>"

section \<open>Lemmas\<close>

lemma composite_sets_its_fields:
  assumes "list_all sets_its_fields ps"
  shows "sets_its_fields (composite ps)"
proof -
  have "fold (\<lambda>p h. pg_Inject p sc h) ps h k = h k"
    if "k \<notin> CanonicalHeaderKey ` set (concat (map pg_Fields ps))" for sc h k
    using assms that by (induction ps arbitrary: h) (auto simp: sets_its_fields_def image_Un)
  then show ?thesis by (simp add: sets_its_fields_def composite_def)
qed

section \<open>Properties\<close>

text \<open>C40: the bootstrap is all or nothing for the globals: it either installs the provider it
  returns and the composite propagator, or leaves both as they were. With SDK propagators that
  set the fields they list, injecting trace context then leaves \<open>X-Correlation-ID\<close> alone, as
  the proxy relies on. When the resource cannot be detected the exporter that was already
  started keeps running: nothing shuts it down.\<close>

theorem bootstrap_all_or_nothing:
  assumes "sets_its_fields (sdk_TraceContext sdk)" and "sets_its_fields (sdk_Baggage sdk)"
    and "pg_Fields (sdk_TraceContext sdk) = [''traceparent'', ''tracestate'']"
    and "pg_Fields (sdk_Baggage sdk) = [''baggage'']"
    and "Bootstrap sdk name g = (res, g')"
  shows "(case res of
      Inl err \<Rightarrow> og_provider g' = og_provider g \<and> og_propagator g' = og_propagator g \<and>
        (og_running g' \<noteq> og_running g \<longleftrightarrow>
           (\<exists>xp cause. sdk_exporter sdk = Inr xp \<and> sdk_resource sdk = Inl cause \<and>
              og_running g' = og_running g @ [xp]))
    | Inr (tracer, tp) \<Rightarrow> tracer = name \<and> og_provider g' = Some tp \<and>
        og_running g' = og_running g @ [tp_exporter tp] \<and>
        (\<forall>sc hdr. e_inject (with_globals g' e) sc hdr ''X-Correlation-Id'' = hdr ''X-Correlation-Id''))"
proof -
  have "''X-Correlation-Id'' \<notin> CanonicalHeaderKey ` set [''traceparent'', ''tracestate'', ''baggage'']"
    by code_simp
  moreover have "sets_its_fields (composite [sdk_TraceContext sdk, sdk_Baggage sdk])"
    using assms(1,2) by (intro composite_sets_its_fields) simp
  moreover have "pg_Fields (composite [sdk_TraceContext sdk, sdk_Baggage sdk]) =
      [''traceparent'', ''tracestate'', ''baggage'']"
    using assms(3,4) by (simp add: composite_def)
  ultimately have "pg_Inject (composite [sdk_TraceContext sdk, sdk_Baggage sdk]) sc hdr ''X-Correlation-Id''
      = hdr ''X-Correlation-Id''" for sc hdr
    unfolding sets_its_fields_def by metis
  then show ?thesis
    using assms(5) by (auto simp: Bootstrap_def with_globals_def Let_def split: sum.splits)
qed

definition demo_propagator :: "string list \<Rightarrow> propagator" where
  "demo_propagator names =
     \<lparr>pg_Inject = (\<lambda>sc h. fold (\<lambda>f. hdr_Set f ''00-ab'') names h), pg_Extract = (\<lambda>sc h. sc),
      pg_Fields = names\<rparr>"

lemma demo_propagator_sets: "sets_its_fields (demo_propagator names)"
proof -
  have "fold (\<lambda>f. hdr_Set f v) names h k = h k"
    if "k \<notin> CanonicalHeaderKey ` set names" for v h k
    using that by (induction names arbitrary: h) (auto simp: hdr_Set_def)
  then show ?thesis by (simp add: sets_its_fields_def demo_propagator_def)
qed

theorem bootstrap_all_or_nothing_witness:
  "let sdk = \<lparr>sdk_exporter = Inr ''grpc'', sdk_resource = (Inl ''no host'' :: string + unit),
       sdk_TraceContext = demo_propagator [''traceparent'', ''tracestate''],
       sdk_Baggage = demo_propagator [''baggage'']\<rparr>;
     g = \<lparr>og_provider = None, og_propagator = no_propagator, og_running = []\<rparr> in
   \<exists>err g'. Bootstrap sdk ''gw'' g = (Inl err, g') \<and> og_provider g' = None \<and>
     og_running g' = [''grpc'']"
proof -
  let ?sdk = "\<lparr>sdk_exporter = Inr ''grpc'', sdk_resource = (Inl ''no host'' :: string + unit),
       sdk_TraceContext = demo_propagator [''traceparent'', ''tracestate''],
       sdk_Baggage = demo_propagator [''baggage'']\<rparr>"
  let ?g = "\<lparr>og_provider = None, og_propagator = no_propagator, og_running = []\<rparr>"
  let ?g' = "?g\<lparr>og_running := [''grpc'']\<rparr>"
  have run: "Bootstrap ?sdk ''gw'' ?g = (Inl (''resource detection: '' @ ''no host''), ?g')"
    by (simp add: Bootstrap_def)
  have fs: "pg_Fields (demo_propagator fs) = fs" for fs by (simp add: demo_propagator_def)
  from bootstrap_all_or_nothing [OF _ _ _ _ run] run show ?thesis
    by (simp add: demo_propagator_sets fs)
qed

definition demo_sdk :: "(string, string) sdk" where
  "demo_sdk =
     \<lparr>sdk_exporter = Inr ''grpc'', sdk_resource = Inr ''host'',
      sdk_TraceContext = demo_propagator [''traceparent'', ''tracestate''],
      sdk_Baggage = demo_propagator [''baggage'']\<rparr>"

end
