(* ===== verification/Server.thy ===== *)
theory Server
  imports Mux RouteFlags Bootstrap
begin

text \<open>
  \<open>cmd/decision-gateway/main.go\<close>: how \<open>run\<close> wires the gateway from its flags, the handler it
  serves, the boot line and the readiness flag. The parsed flags are a record; parsing the
  command line itself is the \<open>flag\<close> package's work (\<open>Flags\<close>). The SDK that \<open>gwotel.Bootstrap\<close> calls
  and the Prometheus handler are parameters.
\<close>

section \<open>Readiness\<close>

definition markReady :: "world \<Rightarrow> world" where
  "markReady s = s\<lparr>w_readyState := 1\<rparr>"

definition markNotReady :: "world \<Rightarrow> world" where
  "markNotReady s = s\<lparr>w_readyState := 0\<rparr>"

definition isReady :: Ready where
  "isReady s =
     (if w_readyState s = 1 then ('''', True) else (''gateway not yet bound to listener'', False))"

section \<open>Flags\<close>

record options =
  f_listen :: string
  f_backendTimeout :: duration
  f_upstreamMaxIdleConns :: int
  f_upstreamIdleTimeout :: duration
  f_upstreamH2C :: bool
  f_metricsEnabled :: bool
  f_routesAdmin :: bool
  f_otelEnabled :: bool
  f_routeSpecs :: routeFlagList

definition default_options :: options where
  "default_options =
     \<lparr>f_listen = '':8090'', f_backendTimeout = 5 * Second, f_upstreamMaxIdleConns = 128,
      f_upstreamIdleTimeout = 90 * Second, f_upstreamH2C = False, f_metricsEnabled = False,
      f_routesAdmin = False, f_otelEnabled = False, f_routeSpecs = []\<rparr>"

section \<open>Wiring\<close>

datatype run_error =
    RouteFlagError flag_error
  | BuildRouterError router_error
  | OtelBootstrapError string
  | BuildHolderError proxy_error
  | BuildProxyError proxy_error

definition otel_wrapper :: "tracer option \<Rightarrow> (transport \<Rightarrow> transport) option" where
  "otel_wrapper tr =
     (case tr of
        None \<Rightarrow> None
      | Some t \<Rightarrow> Some (\<lambda>rt. InstrumentedTransport (Some t) (Some rt)))"

definition build_cfg :: "options \<Rightarrow> tracer option \<Rightarrow> BuildConfig" where
  "build_cfg opts tr =
     \<lparr>bc_BackendTimeout = f_backendTimeout opts,
      bc_Pool = \<lparr>pc_MaxIdleConnsPerHost = f_upstreamMaxIdleConns opts,
                 pc_IdleConnTimeout = f_upstreamIdleTimeout opts\<rparr>,
      bc_Protocol = (if f_upstreamH2C opts then UpstreamH2C else UpstreamHTTP1),
      bc_TransportWrapper = otel_wrapper tr\<rparr>"

text \<open>The mux, with the metrics and admin endpoints when they are on.\<close>

definition gateway_mux :: "handler option \<Rightarrow> handler option \<Rightarrow> handler \<Rightarrow> mux" where
  "gateway_mux metricsHandler adminHandler proxyHandler =
     (let m = Handle ''/healthz'' Healthz [];
          m = Handle ''/readyz'' (Readyz isReady) m;
          m = (case metricsHandler of None \<Rightarrow> m | Some h \<Rightarrow> Handle ''/metrics'' h m);
          m = (case adminHandler of None \<Rightarrow> m | Some h \<Rightarrow> Handle ''/admin/routes'' h m) in
      Handle ''/'' proxyHandler m)"

text \<open>The middlewares around it.\<close>

definition compose :: "env \<Rightarrow> tracer option \<Rightarrow> bool \<Rightarrow> handler \<Rightarrow> handler" where
  "compose e tr metricsOn mux =
     (let inner = AccessLog e mux;
          inner = (if metricsOn then metrics_Middleware e inner else inner);
          inner = (case tr of None \<Rightarrow> inner | Some t \<Rightarrow> otel_Middleware e (Some t) inner) in
      CorrelationID e inner)"

record gateway =
  gw_listen :: string
  gw_handler :: handler
  gw_readHeaderTimeout :: duration
  gw_routes :: "route list"

text \<open>Lines 86 to 100: the tracer, when tracing is on. \<open>Bootstrap\<close> may leave something behind when it
  fails. The shutdown that is deferred here is a step of \<open>Lifecycle\<close>.\<close>

definition instrumentation :: string where
  "instrumentation = ''github.com/helmedeiros/decision-gateway/cmd/decision-gateway''"

definition boot_tracer ::
  "(string, string) sdk \<Rightarrow> options \<Rightarrow> world \<Rightarrow> (string + tracer option) \<times> world" where
  "boot_tracer sdk opts s =
     (if f_otelEnabled opts then
        (case Bootstrap sdk instrumentation (w_globals s) of
           (Inl err, gl) \<Rightarrow> (Inl err, s\<lparr>w_globals := gl\<rparr>)
         | (Inr (t, shutdown), gl) \<Rightarrow> (Inr (Some t), s\<lparr>w_globals := gl\<rparr>))
      else (Inr None, s))"

text \<open>Lines 75 to 170 of \<open>run\<close>: from the parsed flags to the server, or the error it returns. The
  state changes where the tracer is bootstrapped and where a holder is made.\<close>

definition wire ::
  "env \<Rightarrow> (string, string) sdk \<Rightarrow> handler \<Rightarrow> options \<Rightarrow> world
     \<Rightarrow> (run_error + gateway) \<times> world" where
  "wire e sdk promhttp opts s =
     (case parseRouteFlags (f_routeSpecs opts) of
        Inl err \<Rightarrow> (Inl (RouteFlagError err), s)
      | Inr table \<Rightarrow>
          (case NewRouter table of
             Inl err \<Rightarrow> (Inl (BuildRouterError err), s)
           | Inr router \<Rightarrow>
               (case boot_tracer sdk opts s of
                  (Inl err, s) \<Rightarrow> (Inl (OtelBootstrapError err), s)
                | (Inr tr, s) \<Rightarrow>
                    (let cfg = build_cfg opts tr;
                         serve = (\<lambda>admin proxyHandler.
                           \<lparr>gw_listen = f_listen opts,
                            gw_handler = compose e tr (f_metricsEnabled opts)
                              (ServeMux_ServeHTTP (gateway_mux
                                (if f_metricsEnabled opts then Some promhttp else None)
                                admin proxyHandler)),
                            gw_readHeaderTimeout = 5 * Second,
                            gw_routes = table\<rparr>) in
                     if f_routesAdmin opts then
                       (case NewHolder (Some router) cfg s of
                          (Inl err, s) \<Rightarrow> (Inl (BuildHolderError err), s)
                        | (Inr h, s) \<Rightarrow>
                            (Inr (serve (Some (RoutesAdmin e (Some h))) (Holder_ServeHTTP e)), s))
                     else
                       (case New_with cfg (Some router) of
                          Inl err \<Rightarrow> (Inl (BuildProxyError err), s)
                        | Inr h \<Rightarrow> (Inr (serve None (Handler_ServeHTTP e h)), s))))))"

section \<open>The boot line\<close>

definition boot_json :: "env \<Rightarrow> int \<Rightarrow> string \<Rightarrow> routesBody \<Rightarrow> duration \<Rightarrow> json" where
  "boot_json e now listen descs backendTimeout =
     JObj [(''time'', JStr (e_rfc3339 e now)),
           (''level'', JStr ''info''),
           (''msg'', JStr ''gateway.boot''),
           (''attrs'', JObj
             [(''backend_timeout'', JStr (e_duration e backendTimeout)),
              (''listen'', JStr listen),
              (''routes'', JArr (map (\<lambda>d. JObj [(''backend'', JStr (sp_Backend d)),
                                               (''prefix'', JStr (sp_Prefix d))]) descs))])]"

text \<open>Printing a \<open>nil\<close> backend would panic. The maps' keys come out sorted.\<close>

definition bootBoot :: "env \<Rightarrow> string \<Rightarrow> route list \<Rightarrow> duration \<Rightarrow> world \<Rightarrow> outcome \<times> world" where
  "bootBoot e listen table backendTimeout s =
     (case routes_out table of
        None \<Rightarrow> (Panicked, s)
      | Some descs \<Rightarrow>
          (let (now, s) = time_Now e s in
           (Returned, s\<lparr>w_stdout := w_stdout s @
              [Encode (boot_json e now listen descs backendTimeout)]\<rparr>)))"

section \<open>The server\<close>

text \<open>What \<open>net/http\<close>'s server calls for a request: \<open>OPTIONS *\<close> is answered by the library, all
  else by the handler.\<close>

definition serve_request :: "handler \<Rightarrow> handler" where
  "serve_request h r w s =
     (if r_RequestURI r = ''*'' \<and> r_Method r = ''OPTIONS''
      then (Returned, on_header (hdr_Set ''Content-Length'' ''0'') w, s)
      else h r w s)"

section \<open>Dispatch\<close>

lemma pattern_facts [simp]:
  "\<not> HasSuffix ''/healthz'' ''/''" "\<not> HasSuffix ''/readyz'' ''/''" "\<not> HasSuffix ''/metrics'' ''/''"
  "\<not> HasSuffix ''/admin/routes'' ''/''" "HasSuffix ''/'' ''/''" "HasPrefix ''/'' ''/''"
  by code_simp+

lemma subtree_match_gateway:
  "subtree_match (gateway_mux mh ah ph) p = (if HasPrefix p ''/'' then Some (''/'', ph) else None)"
  by (simp add: subtree_match_def gateway_mux_def Handle_def Let_def split: option.splits)

lemma mux_handler_gateway:
  "mux_handler (gateway_mux mh ah ph) p =
     (if p = ''/healthz'' then Healthz
      else if p = ''/readyz'' then Readyz isReady
      else if p = ''/metrics'' \<and> mh \<noteq> None then the mh
      else if p = ''/admin/routes'' \<and> ah \<noteq> None then the ah
      else if HasPrefix p ''/'' then ph else mux_NotFound)"
proof -
  have "map_of (gateway_mux mh ah ph) p =
     (if p = ''/healthz'' then Some Healthz
      else if p = ''/readyz'' then Some (Readyz isReady)
      else if p = ''/metrics'' \<and> mh \<noteq> None then mh
      else if p = ''/admin/routes'' \<and> ah \<noteq> None then ah
      else if p = ''/'' then Some ph else None)"
    by (simp add: gateway_mux_def Handle_def Let_def map_add_def split: option.splits)
  then show ?thesis by (simp add: mux_handler_def subtree_match_gateway split: option.splits)
qed

lemma inner_handler_cases:
  assumes "\<And>r. \<exists>h. inner_handler h \<and> (\<forall>w s. f r w s = h r w s)"
  shows "inner_handler f"
proof -
  have "(\<exists>ops. w' = run_ops ops w) \<and> w_stdout s' = w_stdout s \<and> w_metrics s' = w_metrics s \<and>
      (\<exists>evs. w_otel s' = w_otel s @ evs \<and> well_bracketed evs)"
    if run: "f r w s = (out, w', s')" for r w s out w' s'
  proof -
    obtain h where h: "inner_handler h" "h r w s = (out, w', s')" using assms run by metis
    then have "http_handler h" by (simp add: inner_handler_def)
    from http_handler.only_calls [OF this h(2)] inner_handler.keeps_stdout [OF h]
      inner_handler.keeps_metrics [OF h] inner_handler.brackets [OF h]
    show ?thesis by blast
  qed
  then show ?thesis
    by (intro inner_handler.intro http_handler.intro inner_handler_axioms.intro) blast+
qed

interpretation mux_not_found: inner_handler mux_NotFound
  by (rule inner_handlerI)
    (auto simp: mux_NotFound_def Let_def intro!: exI
      [of _ "[OpHeader (hdr_Set ''Content-Type'' ''text/plain; charset=utf-8''),
          OpHeader (hdr_Set ''X-Content-Type-Options'' ''nosniff''), OpWriteHeader 404,
          OpWrite (''404 page not found'' @ [newline])]"])

lemma Redirect_ops:
  "\<exists>ops. Redirect loc r w s = (Returned, run_ops
     (OpHeader (hdr_Set ''Location'' loc) # ops) w, s)"
proof -
  let ?ct = "writer_Header w ''Content-Type'' \<noteq> None"
  let ?ops = "(if \<not> ?ct \<and> (r_Method r = ''GET'' \<or> r_Method r = ''HEAD'')
      then [OpHeader (hdr_Set ''Content-Type'' ''text/html; charset=utf-8'')] else []) @
    [OpWriteHeader 301] @
    (if \<not> ?ct \<and> r_Method r = ''GET''
     then [OpWrite (''<a href='' @ [quote] @ html_escape loc @ [quote] @
                 ''>Moved Permanently</a>.'' @ [newline, newline])] else [])"
  have "Redirect loc r w s = (Returned, run_ops (OpHeader (hdr_Set ''Location'' loc) # ?ops) w, s)"
    by (simp add: Redirect_def Let_def)
  then show ?thesis by blast
qed

interpretation redirect: inner_handler "Redirect loc" for loc
proof (rule inner_handlerI)
  fix r w s
  obtain ops where "Redirect loc r w s = (Returned, run_ops
     (OpHeader (hdr_Set ''Location'' loc) # ops) w, s)"
    using Redirect_ops by blast
  then show "\<exists>ops. fst (snd (Redirect loc r w s)) = run_ops ops w"
    "w_stdout (snd (snd (Redirect loc r w s))) = w_stdout s"
    "w_metrics (snd (snd (Redirect loc r w s))) = w_metrics s"
    "w_otel (snd (snd (Redirect loc r w s))) = w_otel s"
    by (metis fst_conv snd_conv)+
qed

definition bad_star :: handler where
  "bad_star r w s = (Returned, WriteHeader (on_header (hdr_Set ''Connection'' ''close'') w) 400, s)"

interpretation star: inner_handler bad_star
  by (rule inner_handlerI)
    (auto simp: bad_star_def intro!: exI
      [of _ "[OpHeader (hdr_Set ''Connection'' ''close''), OpWriteHeader 400]"])

text \<open>The mux keeps the contract of the handlers registered on it.\<close>

lemma gateway_mux_inner:
  assumes "inner_handler ph" and "\<And>h. mh = Some h \<Longrightarrow> inner_handler h"
    and "\<And>h. ah = Some h \<Longrightarrow> inner_handler h"
  shows "inner_handler (ServeMux_ServeHTTP (gateway_mux mh ah ph))"
proof (rule inner_handler_cases)
  fix r
  let ?m = "gateway_mux mh ah ph"
  have target: "inner_handler (mux_handler ?m p)" for p
    using assms healthz.inner_handler_axioms readyz.inner_handler_axioms
      mux_not_found.inner_handler_axioms
    by (auto simp: mux_handler_gateway)
  have run: "ServeMux_ServeHTTP ?m r w s =
      (if r_RequestURI r = ''*'' then bad_star r w s else mux_Handler ?m r r w s)" for w s
    by (simp add: ServeMux_ServeHTTP_def bad_star_def)
  have "inner_handler (mux_Handler ?m r)"
    using target redirect.inner_handler_axioms by (simp add: mux_Handler_def Let_def)
  with run show "\<exists>h. inner_handler h \<and> (\<forall>w s. ServeMux_ServeHTTP ?m r w s = h r w s)"
    using star.inner_handler_axioms by (cases "r_RequestURI r = ''*''") auto
qed

lemma gateway_dispatch_eq:
  assumes "r_RequestURI r \<noteq> ''*''" and "r_Method r \<noteq> ''CONNECT''"
  defines "path \<equiv> u_path (r_URL r)"
  shows "ServeMux_ServeHTTP (gateway_mux mh ah ph) r w s =
    (if cleanPath path \<noteq> path then
       Redirect (url_String (empty_url\<lparr>u_path := cleanPath path, u_rawquery := u_rawquery (r_URL r)\<rparr>))
         r w s
     else if path = ''/healthz'' then Healthz r w s
     else if path = ''/readyz'' then Readyz isReady r w s
     else if path = ''/metrics'' \<and> mh \<noteq> None then (the mh) r w s
     else if path = ''/admin/routes'' \<and> ah \<noteq> None then (the ah) r w s
     else ph r w s)"
  by (cases mh; cases ah;
      simp add: assms(1,2) clean_no_dots(1) ServeMux_ServeHTTP_def mux_Handler_def
        mux_handler_gateway path_def Let_def)

section \<open>Properties\<close>

text \<open>Which handler gets a request. A path that is not clean is redirected to its clean form,
  which is not redirected again; the probes and the enabled endpoints win over every route of
  the table; everything else goes to the proxy, whose path is therefore absolute and has no
  dot segments, so no request can climb out of the prefix it was matched by.\<close>

theorem gateway_dispatch:
  assumes "r_RequestURI r \<noteq> ''*''" and "r_Method r \<noteq> ''CONNECT''"
  shows "ServeMux_ServeHTTP (gateway_mux mh ah ph) r w s =
    (let path = u_path (r_URL r) in
     if cleanPath path \<noteq> path then
       Redirect (url_String (empty_url\<lparr>u_path := cleanPath path, u_rawquery := u_rawquery (r_URL r)\<rparr>))
         r w s
     else if path = ''/healthz'' then Healthz r w s
     else if path = ''/readyz'' then Readyz isReady r w s
     else if path = ''/metrics'' \<and> mh \<noteq> None then (the mh) r w s
     else if path = ''/admin/routes'' \<and> ah \<noteq> None then (the ah) r w s
     else ph r w s) \<and>
    cleanPath (cleanPath (u_path (r_URL r))) = cleanPath (u_path (r_URL r)) \<and>
    HasPrefix (cleanPath (u_path (r_URL r))) ''/'' \<and>
    ''.'' \<notin> set (split_on (CHR ''/'') (cleanPath (u_path (r_URL r)))) \<and>
    ''..'' \<notin> set (split_on (CHR ''/'') (cleanPath (u_path (r_URL r))))"
  using gateway_dispatch_eq [OF assms] clean_no_dots [OF cleanPath_clean] by (simp add: Let_def)

theorem gateway_dispatch_witness:
  "ServeMux_ServeHTTP (gateway_mux None None notFound) (demo_request ''GET'' ''/decide/../healthz'')
     (Conn new_conn) quiet_world =
   Redirect ''/healthz'' (demo_request ''GET'' ''/decide/../healthz'') (Conn new_conn) quiet_world"
proof -
  let ?r = "demo_request ''GET'' ''/decide/../healthz''"
  have r: "r_RequestURI ?r \<noteq> ''*''" "r_Method ?r \<noteq> ''CONNECT''"
    "u_path (r_URL ?r) = ''/decide/../healthz''" "u_rawquery (r_URL ?r) = ''''"
    by (simp_all add: demo_request_def empty_url_def)
  have "cleanPath ''/decide/../healthz'' = ''/healthz''" by code_simp
  moreover have "url_String (empty_url\<lparr>u_path := ''/healthz'', u_rawquery := ''''\<rparr>) = ''/healthz''"
    by code_simp
  ultimately show ?thesis using gateway_dispatch [OF r(1,2)] r(3,4) by (simp add: Let_def)
qed

end
