(* ===== verification/Chain.thy ===== *)
theory Chain
  imports Server
begin

text \<open>
  The composed handler of \<open>run\<close> (\<open>compose\<close> in \<open>Server\<close>): what the middlewares around the mux
  guarantee together. Each stage is a lemma about one middleware in front of any handler with
  the property; \<open>compose\<close> stacks them in the order of the code.
\<close>

section \<open>One log line per answered request\<close>

text \<open>A run that logged: one more line, with the status the client gets and the request's own
  method, URL and correlation ID, when the handler returned; no line when it panicked.\<close>

definition logged :: "env \<Rightarrow> request \<Rightarrow> outcome \<Rightarrow> writer \<Rightarrow> world \<Rightarrow> world \<Rightarrow> bool" where
  "logged e r out w' s s' =
     (in_step w' \<and>
      (\<exists>r' sr t0 t1. w_stdout s' = w_stdout s @
          (case out of Returned \<Rightarrow> [access_line e r' sr t0 t1] | Panicked \<Rightarrow> []) \<and>
        sr_status sr = status_view (Conn (conn_of w')) \<and>
        r_Method r' = r_Method r \<and> r_URL r' = r_URL r \<and>
        cx_correlation (r_ctx r') = cx_correlation (r_ctx r)))"

definition logs :: "env \<Rightarrow> handler \<Rightarrow> bool" where
  "logs e h =
     (\<forall>r w s out w' s'. h r w s = (out, w', s') \<longrightarrow> in_step w \<longrightarrow> \<not> header_sent w \<longrightarrow>
        logged e r out w' s s')"

lemma AccessLog_logs:
  assumes "inner_handler mux"
  shows "logs e (AccessLog e mux)"
  unfolding logs_def
proof (intro allI impI)
  fix r w s out w' s'
  assume run: "AccessLog e mux r w s = (out, w', s')" and w: "in_step w" "\<not> header_sent w"
  have h: "http_handler mux" using assms by (simp add: inner_handler_def)
  obtain sr ops s1 where n:
    "mux r (AccessRec fresh_recorder w) (s\<lparr>w_ticks := Suc (w_ticks s)\<rparr>)
       = (out, AccessRec sr (run_ops ops w), s1)"
    and w': "w' = run_ops ops w"
    and s': "s' = (case out of Panicked \<Rightarrow> s1 | Returned \<Rightarrow>
           s1\<lparr>w_ticks := Suc (w_ticks s1),
              w_stdout := w_stdout s1 @
                [access_line e r sr (e_now e (w_ticks s)) (e_now e (w_ticks s1))]\<rparr>)"
    using AccessLog_run [OF h run] by metis
  have "in_step (AccessRec sr w')"
    using http_handler.keeps_in_step [OF h n fresh_recorder_in_step [OF w]] w' by simp
  then have inv: "in_step w'" "sr_status sr = status_view (Conn (conn_of w'))"
    using in_step_conn [of w'] by simp_all
  have "w_stdout s1 = w_stdout s" using inner_handler.keeps_stdout [OF assms n] by simp
  then have "w_stdout s' = w_stdout s @ (case out of
      Returned \<Rightarrow> [access_line e r sr (e_now e (w_ticks s)) (e_now e (w_ticks s1))] | Panicked \<Rightarrow> [])"
    using s' by (cases out) simp_all
  with inv show "logged e r out w' s s'" unfolding logged_def by blast
qed

lemma metrics_keeps_logs:
  assumes "http_handler nxt" and "logs e nxt"
  shows "logs e (metrics_Middleware e nxt)"
  unfolding logs_def
proof (intro allI impI)
  fix r w s out w' s'
  assume run: "metrics_Middleware e nxt r w s = (out, w', s')" and w: "in_step w" "\<not> header_sent w"
  obtain mw ops s1 where n:
    "nxt r (MetricsRec fresh_metrics w) (s\<lparr>w_ticks := Suc (w_ticks s)\<rparr>)
       = (out, MetricsRec mw w', s1)"
    and c: "s' = (case out of Panicked \<Rightarrow> s1 | Returned \<Rightarrow>
           s1\<lparr>w_ticks := Suc (w_ticks s1),
              w_metrics := w_metrics s1 @
                [CounterInc (request_labels r mw),
                 HistogramObserve (request_labels r mw)
                   (of_int (e_now e (w_ticks s1) - e_now e (w_ticks s)) / 1000000000)]\<rparr>)"
    using metrics_run [OF assms(1) run] by metis
  have s': "w_stdout s' = w_stdout s1" using c by (cases out) simp_all
  have "in_step (MetricsRec fresh_metrics w)" "\<not> header_sent (MetricsRec fresh_metrics w)"
    using fresh_metrics_in_step [OF w] by (simp_all add: fresh_metrics_def)
  then have "logged e r out (MetricsRec mw w') (s\<lparr>w_ticks := Suc (w_ticks s)\<rparr>) s1"
    using assms(2) n unfolding logs_def by blast
  then show "logged e r out w' s s'" using s' by (simp add: logged_def)
qed

lemma otel_keeps_logs:
  assumes "http_handler nxt" and "logs e nxt"
  shows "logs e (otel_Middleware e (Some t) nxt)"
  unfolding logs_def
proof (intro allI impI)
  fix r w s out w' s'
  assume run: "otel_Middleware e (Some t) nxt r w s = (out, w', s')"
    and w: "in_step w" "\<not> header_sent w"
  obtain ow ops s1 where n:
    "nxt (traced_request e r s) (OtelRec fresh_otel w) (traced_world e r s)
       = (out, OtelRec ow w', s1)"
    and c: "s' = (case out of
         Panicked \<Rightarrow> span_call (SpanEnd (w_spans s)) s1
       | Returned \<Rightarrow> finish_span (w_spans s) ow (e_now e (w_ticks s1) - e_now e (w_ticks s))
           (s1\<lparr>w_ticks := Suc (w_ticks s1)\<rparr>))"
    using otel_run [OF assms(1) run] by metis
  have s': "w_stdout s' = w_stdout s1"
    using c by (cases out) (simp_all add: span_call_def finish_span_def Let_def)
  have "in_step (OtelRec fresh_otel w)" "\<not> header_sent (OtelRec fresh_otel w)"
    using w by (simp_all add: fresh_otel_def in_step_unsent)
  then have "logged e (traced_request e r s) out (OtelRec ow w') (traced_world e r s) s1"
    using assms(2) n unfolding logs_def by blast
  then show "logged e r out w' s s'"
    using s' by (simp add: logged_def traced_request_def traced_world_def)
qed

text \<open>The three stages in the order of \<open>compose\<close>.\<close>

definition observed :: "env \<Rightarrow> tracer option \<Rightarrow> bool \<Rightarrow> handler \<Rightarrow> handler" where
  "observed e tr metricsOn mux =
     (let inner = (if metricsOn then metrics_Middleware e (AccessLog e mux) else AccessLog e mux) in
      case tr of None \<Rightarrow> inner | Some t \<Rightarrow> otel_Middleware e (Some t) inner)"

lemma compose_observed: "compose e tr metricsOn mux = CorrelationID e (observed e tr metricsOn mux)"
  by (simp add: compose_def observed_def Let_def)

lemma observed_logs:
  assumes "inner_handler mux"
  shows "logs e (observed e tr metricsOn mux)" and "http_handler (observed e tr metricsOn mux)"
proof -
  have m: "http_handler mux" using assms by (simp add: inner_handler_def)
  have a: "http_handler (AccessLog e mux)" "logs e (AccessLog e mux)"
    using access.wraps [OF m] AccessLog_logs [OF assms] by simp_all
  have b: "http_handler (metrics_Middleware e (AccessLog e mux))"
    "logs e (metrics_Middleware e (AccessLog e mux))"
    using metrics.wraps [OF a(1)] metrics_keeps_logs [OF a] by simp_all
  show "logs e (observed e tr metricsOn mux)" "http_handler (observed e tr metricsOn mux)"
    using a b otel_keeps_logs [OF a] otel_keeps_logs [OF b] tracing.wraps [OF a(1)]
      tracing.wraps [OF b(1)]
    by (auto simp: observed_def Let_def split: option.splits)
qed

section \<open>Agreement of log, metrics and trace\<close>

text \<open>One run through all the layers, down to what the mux did.\<close>

lemma full_run:
  assumes "inner_handler mux"
    and "otel_Middleware e (Some t) (metrics_Middleware e (AccessLog e mux)) r w s = (Returned, w', s')"
  obtains ow mw sr r1 s1 s2 s3 where
    "mux r1 (AccessRec fresh_recorder (MetricsRec fresh_metrics (OtelRec fresh_otel w))) s1
       = (Returned, AccessRec sr (MetricsRec mw (OtelRec ow w')), s2)"
    and "r1 = traced_request e r s" and "w_stdout s1 = w_stdout s" and "w_metrics s1 = w_metrics s"
    and "\<exists>evs. w_otel s1 = w_otel s @ evs"
    and "\<exists>t0 t1. w_stdout s' = w_stdout s2 @ [access_line e r1 sr t0 t1]"
    and "\<exists>d. w_metrics s' = w_metrics s2 @
      [CounterInc (request_labels r1 mw), HistogramObserve (request_labels r1 mw) d]"
    and "\<exists>d. w_otel s' = w_otel (finish_span (w_spans s) ow d s3)" and "w_otel s3 = w_otel s2"
proof -
  have m: "http_handler mux" using assms(1) by (simp add: inner_handler_def)
  note a = access.wraps [OF m, of e]
  note b = metrics.wraps [OF a, of e]
  let ?r = "traced_request e r s"
  obtain ow sB where o: "metrics_Middleware e (AccessLog e mux) ?r (OtelRec fresh_otel w)
      (traced_world e r s) = (Returned, OtelRec ow w', sB)"
    and s': "s' = finish_span (w_spans s) ow (e_now e (w_ticks sB) - e_now e (w_ticks s))
           (sB\<lparr>w_ticks := Suc (w_ticks sB)\<rparr>)"
    using otel_run [OF b assms(2)] by (metis outcome.case(1))
  obtain mw sA where me: "AccessLog e mux ?r (MetricsRec fresh_metrics (OtelRec fresh_otel w))
      ((traced_world e r s)\<lparr>w_ticks := Suc (w_ticks (traced_world e r s))\<rparr>)
      = (Returned, MetricsRec mw (OtelRec ow w'), sA)"
    and sB: "\<exists>d. sB = sA\<lparr>w_ticks := Suc (w_ticks sA), w_metrics := w_metrics sA @
        [CounterInc (request_labels ?r mw), HistogramObserve (request_labels ?r mw) d]\<rparr>"
    using metrics_run [OF a o] by (metis outcome.case(1))
  let ?s1 = "(traced_world e r s)\<lparr>w_ticks := Suc (Suc (w_ticks (traced_world e r s)))\<rparr>"
  obtain sr s2 where mu: "mux ?r (AccessRec fresh_recorder (MetricsRec fresh_metrics
      (OtelRec fresh_otel w))) ?s1 = (Returned, AccessRec sr (MetricsRec mw (OtelRec ow w')), s2)"
    and sA: "\<exists>t0 t1. sA = s2\<lparr>w_ticks := Suc (w_ticks s2),
              w_stdout := w_stdout s2 @ [access_line e ?r sr t0 t1]\<rparr>"
    using AccessLog_run [OF m me] by (simp, metis outcome.case(1))
  obtain t0 t1 where A: "sA = s2\<lparr>w_ticks := Suc (w_ticks s2),
              w_stdout := w_stdout s2 @ [access_line e ?r sr t0 t1]\<rparr>"
    using sA by blast
  obtain d where B: "sB = sA\<lparr>w_ticks := Suc (w_ticks sA), w_metrics := w_metrics sA @
        [CounterInc (request_labels ?r mw), HistogramObserve (request_labels ?r mw) d]\<rparr>"
    using sB by blast
  have log: "w_stdout s' = w_stdout s2 @ [access_line e ?r sr t0 t1]"
    by (simp add: s' A B finish_span_def span_call_def Let_def)
  have samples: "w_metrics s' = w_metrics s2 @
      [CounterInc (request_labels ?r mw), HistogramObserve (request_labels ?r mw) d]"
    by (simp add: s' A B finish_span_def span_call_def Let_def)
  show thesis
  proof (rule that [OF mu refl])
    show "w_stdout ?s1 = w_stdout s" "w_metrics ?s1 = w_metrics s" "\<exists>evs. w_otel ?s1 = w_otel s @ evs"
      by (simp_all add: traced_world_def)
    show "\<exists>t0 t1. w_stdout s' = w_stdout s2 @ [access_line e ?r sr t0 t1]" using log by blast
    show "\<exists>d. w_metrics s' = w_metrics s2 @
      [CounterInc (request_labels ?r mw), HistogramObserve (request_labels ?r mw) d]"
      using samples by blast
    show "\<exists>d. w_otel s' = w_otel (finish_span (w_spans s) ow d (sB\<lparr>w_ticks := Suc (w_ticks sB)\<rparr>))"
      using s' by blast
    show "w_otel (sB\<lparr>w_ticks := Suc (w_ticks sB)\<rparr>) = w_otel s2" by (simp add: A B)
  qed
qed

lemma finish_span_reports:
  obtains own where "w_otel (finish_span i ow dur s) = w_otel s @ own"
    and "SetAttributes i [(''http.status_code'', AInt (ow_status ow)),
        (''gateway.duration_ms'', AFloat (of_int (Microseconds dur) / 1000))] \<in> set own"
    and "ow_matchedRoute ow \<noteq> '''' \<longrightarrow>
       SetAttributes i [(''http.route'', AString (ow_matchedRoute ow))] \<in> set own"
  by (rule that [where own = "[SetAttributes i [(''http.status_code'', AInt (ow_status ow)),
        (''gateway.duration_ms'', AFloat (of_int (Microseconds dur) / 1000))]] @
      (if ow_matchedRoute ow \<noteq> ''''
       then [SetAttributes i [(''http.route'', AString (ow_matchedRoute ow))]] else []) @
      (if ow_status ow \<ge> 500 then [SetStatus i codeError (StatusText (ow_status ow))] else []) @
      [SpanEnd i]"])
    (simp_all add: finish_span_def span_call_def Let_def)

lemma fresh_stack:
  "in_step (AccessRec fresh_recorder (MetricsRec fresh_metrics (OtelRec fresh_otel (Conn c))))
     = (\<not> cn_wrote c)"
  "otel_outermost (AccessRec fresh_recorder (MetricsRec fresh_metrics (OtelRec fresh_otel (Conn c))))"
  "routes_agree (AccessRec fresh_recorder (MetricsRec fresh_metrics (OtelRec fresh_otel (Conn c))))"
  by (auto simp: fresh_recorder_def fresh_metrics_def fresh_otel_def routes_agree_def)

lemma stack_agrees:
  assumes "http_handler mux" and "\<not> cn_wrote c"
    and "mux r (AccessRec fresh_recorder (MetricsRec fresh_metrics (OtelRec fresh_otel (Conn c)))) s
       = (out, AccessRec sr (MetricsRec mw (OtelRec ow w')), s')"
  shows "sr_status sr = status_view (Conn (conn_of w'))" and "mw_status mw = sr_status sr"
    and "ow_status ow = sr_status sr" and "mw_route mw = sr_route sr"
    and "ow_matchedRoute ow = sr_route sr"
proof -
  let ?w = "AccessRec fresh_recorder (MetricsRec fresh_metrics (OtelRec fresh_otel (Conn c)))"
  have "in_step ?w" using fresh_stack(1) assms(2) by blast
  moreover have "guarded ?w" by simp
  ultimately have "in_step (AccessRec sr (MetricsRec mw (OtelRec ow w')))"
    by (rule http_handler.keeps_in_step [OF assms(1,3)])
  then show "sr_status sr = status_view (Conn (conn_of w'))" "mw_status mw = sr_status sr"
    "ow_status ow = sr_status sr"
    using in_step_conn [of w'] by simp_all
  obtain ops where "AccessRec sr (MetricsRec mw (OtelRec ow w')) = run_ops ops ?w"
    using http_handler.only_calls [OF assms(1,3)] by blast
  then have "routes_agree (AccessRec sr (MetricsRec mw (OtelRec ow w')))"
    using routes_agree_run_ops fresh_stack(2,3) by metis
  then show "mw_route mw = sr_route sr" "ow_matchedRoute ow = sr_route sr"
    by (auto simp: routes_agree_def)
qed

section \<open>The wired gateway\<close>

lemma New_with_ok:
  assumes "NewRouter rs = Inr r"
  obtains h where "New_with cfg (Some r) = Inr h" and "good_handler cfg h" and "hd_router h = r"
  using New_with_good [OF NewRouter_well_formed [OF assms]] by metis

text \<open>\<open>wire\<close> once the flags parsed, the table is valid and the tracer (if any) is there.\<close>

definition wired_tracer :: "(string, string) sdk \<Rightarrow> options \<Rightarrow> string + tracer option" where
  "wired_tracer sdk opts =
     (if f_otelEnabled opts
      then map_sum id (Some \<circ> fst) (fst (Bootstrap sdk instrumentation no_globals))
      else Inr None)"

definition booted_world :: "(string, string) sdk \<Rightarrow> options \<Rightarrow> world \<Rightarrow> world" where
  "booted_world sdk opts s =
     (if f_otelEnabled opts then s\<lparr>w_globals := snd (Bootstrap sdk instrumentation (w_globals s))\<rparr>
      else s)"

definition wired_world :: "(string, string) sdk \<Rightarrow> options \<Rightarrow> Handler \<Rightarrow> world \<Rightarrow> world" where
  "wired_world sdk opts h s =
     (let s = booted_world sdk opts s in
      if f_routesAdmin opts then s\<lparr>w_current := Some h\<rparr> else s)"

lemma wired_world_sel [simp]:
  "w_current (wired_world sdk opts h s) = (if f_routesAdmin opts then Some h else w_current s)"
  "w_reqhdr (wired_world sdk opts h s) = w_reqhdr s" "w_sent (wired_world sdk opts h s) = w_sent s"
  "w_stdout (wired_world sdk opts h s) = w_stdout s"
  "w_readyState (wired_world sdk opts h s) = w_readyState s"
  by (simp_all add: wired_world_def booted_world_def Let_def)

lemma boot_tracer_eq: "boot_tracer sdk opts s = (wired_tracer sdk opts, booted_world sdk opts s)"
  by (auto simp: boot_tracer_def wired_tracer_def booted_world_def Bootstrap_def Let_def
      split: sum.splits)

text \<open>The tracer, from the SDK.\<close>

lemma wired_tracer_cases:
  "wired_tracer sdk opts =
     (if \<not> f_otelEnabled opts then Inr None
      else case sdk_exporter sdk of
        Inl c \<Rightarrow> Inl (''otlptrace gRPC exporter: '' @ c)
      | Inr xp \<Rightarrow>
          (case sdk_resource sdk of
             Inl c \<Rightarrow> Inl (''resource detection: '' @ c)
           | Inr res \<Rightarrow> Inr (Some instrumentation)))"
  by (auto simp: wired_tracer_def Bootstrap_def Let_def split: sum.splits)

definition served_mux :: "env \<Rightarrow> handler \<Rightarrow> options \<Rightarrow> BuildConfig \<Rightarrow> Handler \<Rightarrow> mux" where
  "served_mux e promhttp opts cfg h =
     gateway_mux (if f_metricsEnabled opts then Some promhttp else None)
       (if f_routesAdmin opts then Some (RoutesAdmin e (Some \<lparr>ho_cfg = cfg\<rparr>)) else None)
       (if f_routesAdmin opts then Holder_ServeHTTP e else Handler_ServeHTTP e h)"

lemma wire_built:
  assumes "parseRouteFlags (f_routeSpecs opts) = Inr table" and "NewRouter table = Inr r"
    and "wired_tracer sdk opts = Inr tr"
  obtains h where "good_handler (build_cfg opts tr) h" and "hd_router h = r"
    and "wire e sdk promhttp opts s =
      (Inr \<lparr>gw_listen = f_listen opts,
            gw_handler = compose e tr (f_metricsEnabled opts)
              (ServeMux_ServeHTTP (served_mux e promhttp opts (build_cfg opts tr) h)),
            gw_readHeaderTimeout = 5 * Second, gw_routes = table\<rparr>,
       wired_world sdk opts h s)"
proof -
  obtain h where h: "New_with (build_cfg opts tr) (Some r) = Inr h"
    "good_handler (build_cfg opts tr) h" "hd_router h = r"
    using New_with_ok [OF assms(2)] by metis
  show thesis
    by (rule that [OF h(2,3)])
      (use assms h(1) in \<open>simp add: wire_def boot_tracer_eq NewHolder_def
        served_mux_def wired_world_def Let_def\<close>)
qed

lemma wire_Inr:
  assumes "wire e sdk promhttp opts s = (Inr g, s')"
  obtains table r tr h where "parseRouteFlags (f_routeSpecs opts) = Inr table"
    and "NewRouter table = Inr r" and "wired_tracer sdk opts = Inr tr"
    and "good_handler (build_cfg opts tr) h" and "hd_router h = r"
    and "gw_handler g = compose e tr (f_metricsEnabled opts)
      (ServeMux_ServeHTTP (served_mux e promhttp opts (build_cfg opts tr) h))"
    and "gw_routes g = table" and "s' = wired_world sdk opts h s"
proof -
  obtain table where t: "parseRouteFlags (f_routeSpecs opts) = Inr table"
    using assms by (cases "parseRouteFlags (f_routeSpecs opts)") (auto simp: wire_def)
  obtain r where r: "NewRouter table = Inr r"
    using assms t by (cases "NewRouter table") (auto simp: wire_def)
  obtain tr where tr: "wired_tracer sdk opts = Inr tr"
    using assms t r
    by (cases "wired_tracer sdk opts") (auto simp: wire_def boot_tracer_eq)
  obtain h where h: "good_handler (build_cfg opts tr) h" "hd_router h = r"
    "wire e sdk promhttp opts s =
      (Inr \<lparr>gw_listen = f_listen opts,
            gw_handler = compose e tr (f_metricsEnabled opts)
              (ServeMux_ServeHTTP (served_mux e promhttp opts (build_cfg opts tr) h)),
            gw_readHeaderTimeout = 5 * Second, gw_routes = table\<rparr>,
       wired_world sdk opts h s)"
    using wire_built [OF t r tr] by metis
  have "g = \<lparr>gw_listen = f_listen opts,
            gw_handler = compose e tr (f_metricsEnabled opts)
              (ServeMux_ServeHTTP (served_mux e promhttp opts (build_cfg opts tr) h)),
            gw_readHeaderTimeout = 5 * Second, gw_routes = table\<rparr>"
    "s' = wired_world sdk opts h s"
    using assms h(3) by simp_all
  with that [OF t r tr h(1,2)] show thesis by simp
qed

lemma served_mux_inner:
  assumes "inner_handler promhttp"
  shows "inner_handler (ServeMux_ServeHTTP (served_mux e promhttp opts cfg h))"
  unfolding served_mux_def
  using assms admin.inner_handler_axioms holder.inner_handler_axioms proxy.inner_handler_axioms
  by (intro gateway_mux_inner) (auto split: if_splits)

lemma CorrelationID_run:
  assumes "CorrelationID e next r w s = (out, w', s')"
  obtains cid s1 where
    "next (r\<lparr>r_ctx := (r_ctx r)\<lparr>cx_correlation := Some cid\<rparr>\<rparr>)
       (on_header (hdr_Set CorrelationIDHeader cid) w) s1 = (out, w', s')"
    and "cid \<noteq> ''''" and "\<exists>n. s1 = s\<lparr>w_draws := n\<rparr>"
    and "hdr_Get (w_reqhdr s) CorrelationIDHeader \<noteq> '''' \<longrightarrow>
      cid = hdr_Get (w_reqhdr s) CorrelationIDHeader"
proof -
  obtain cid s1 where run: "CorrelationID e next r w s =
      next (r\<lparr>r_ctx := (r_ctx r)\<lparr>cx_correlation := Some cid\<rparr>\<rparr>)
        (on_header (hdr_Set CorrelationIDHeader cid) w) s1"
    and res: "if hdr_Get (w_reqhdr s) CorrelationIDHeader = '''' then newUUID e s = (cid, s1)
      else cid = hdr_Get (w_reqhdr s) CorrelationIDHeader \<and> s1 = s"
    by (rule resolve_header)
  show thesis
  proof (cases "hdr_Get (w_reqhdr s) CorrelationIDHeader = ''''")
    case True
    with res have "newUUID e s = (cid, s1)" by simp
    then have "cid \<noteq> ''''" "s1 = s\<lparr>w_draws := Suc (w_draws s)\<rparr>"
      using newUUID_v4 [of e s] is_uuid_v4_nonempty
      by (auto simp: newUUID_def rand_Read_def split: option.splits)
    with that [of cid s1] run assms True show thesis by auto
  next
    case False
    have "s = s\<lparr>w_draws := w_draws s\<rparr>" by simp
    with that [of cid s1] run assms False res show thesis by metis
  qed
qed

section \<open>What the mux is called with\<close>

text \<open>A call of an inner handler from an outer one: the request is the same but for the span in
  its context, no header was sent yet, the connection is the same, and the state differs only
  in the clock and in what the observability layers record.\<close>

definition same_request :: "request \<Rightarrow> request \<Rightarrow> bool" where
  "same_request r1 r =
     (r_Method r1 = r_Method r \<and> r_URL r1 = r_URL r \<and> r_Host r1 = r_Host r \<and>
      r_RemoteAddr r1 = r_RemoteAddr r \<and> r_RequestURI r1 = r_RequestURI r \<and>
      r_Body r1 = r_Body r \<and> cx_correlation (r_ctx r1) = cx_correlation (r_ctx r))"

definition same_start :: "writer \<Rightarrow> world \<Rightarrow> writer \<Rightarrow> world \<Rightarrow> bool" where
  "same_start w1 s1 w s =
     (in_step w1 \<and> \<not> header_sent w1 \<and> conn_of w1 = conn_of w \<and>
      w_reqhdr s1 = w_reqhdr s \<and> w_sent s1 = w_sent s \<and> w_current s1 = w_current s \<and>
      w_readyState s1 = w_readyState s \<and> w_stdout s1 = w_stdout s)"

definition same_end :: "writer \<Rightarrow> world \<Rightarrow> writer \<Rightarrow> world \<Rightarrow> bool" where
  "same_end w2 s2 w' s' =
     (conn_of w2 = conn_of w' \<and> w_sent s2 = w_sent s' \<and> w_current s2 = w_current s')"

definition same_log :: "world \<Rightarrow> world \<Rightarrow> bool" where
  "same_log s2 s' = (w_stdout s2 = w_stdout s')"

definition passes :: "handler \<Rightarrow> handler \<Rightarrow> bool" where
  "passes outer inner =
     (\<forall>r w s out w' s'. outer r w s = (out, w', s') \<longrightarrow> in_step w \<longrightarrow> \<not> header_sent w \<longrightarrow>
        (\<exists>r1 w1 s1 w2 s2. inner r1 w1 s1 = (out, w2, s2) \<and> same_request r1 r \<and>
           same_start w1 s1 w s \<and> same_end w2 s2 w' s' \<and> same_log s2 s'))"

lemma passesD:
  assumes "passes outer inner" and "outer r w s = (out, w', s')" and "in_step w"
    and "\<not> header_sent w"
  obtains r1 w1 s1 w2 s2 where "inner r1 w1 s1 = (out, w2, s2)" and "same_request r1 r"
    and "same_start w1 s1 w s" and "same_end w2 s2 w' s'" and "same_log s2 s'"
  using assms unfolding passes_def by blast

lemma passes_trans:
  assumes "passes a b" and "passes b c"
  shows "passes a c"
  unfolding passes_def
proof (intro allI impI)
  fix r w s out w' s'
  assume run: "a r w s = (out, w', s')" "in_step w" "\<not> header_sent w"
  obtain r1 w1 s1 w2 s2 where b: "b r1 w1 s1 = (out, w2, s2)" "same_request r1 r"
    "same_start w1 s1 w s" "same_end w2 s2 w' s'" "same_log s2 s'"
    using passesD [OF assms(1) run] .
  then have "in_step w1" "\<not> header_sent w1" by (simp_all add: same_start_def)
  then obtain r3 w3 s3 w4 s4 where c: "c r3 w3 s3 = (out, w4, s4)" "same_request r3 r1"
    "same_start w3 s3 w1 s1" "same_end w4 s4 w2 s2" "same_log s4 s2"
    using passesD [OF assms(2) b(1)] by metis
  have "same_request r3 r" using b(2) c(2) by (simp add: same_request_def)
  moreover have "same_start w3 s3 w s" using b(3) c(3) by (simp add: same_start_def)
  moreover have "same_end w4 s4 w' s'" using b(4) c(4) by (simp add: same_end_def)
  moreover have "same_log s4 s'" using b(5) c(5) by (simp add: same_log_def)
  ultimately show "\<exists>r1 w1 s1 w2 s2. c r1 w1 s1 = (out, w2, s2) \<and> same_request r1 r \<and>
      same_start w1 s1 w s \<and> same_end w2 s2 w' s' \<and> same_log s2 s'"
    using c(1) by blast
qed

lemma passes_refl: "in_step w \<Longrightarrow> \<not> header_sent w \<Longrightarrow>
    same_request r r \<and> same_start w s w s \<and> same_end w' s' w' s' \<and> same_log s' s'"
  by (simp add: same_request_def same_start_def same_end_def same_log_def)

lemma metrics_passes:
  assumes "http_handler nxt"
  shows "passes (metrics_Middleware e nxt) nxt"
  unfolding passes_def
proof (intro allI impI)
  fix r w s out w' s'
  assume run: "metrics_Middleware e nxt r w s = (out, w', s')" and w: "in_step w" "\<not> header_sent w"
  obtain mw s1 where n:
    "nxt r (MetricsRec fresh_metrics w) (s\<lparr>w_ticks := Suc (w_ticks s)\<rparr>) = (out, MetricsRec mw w', s1)"
    and c: "s' = (case out of Panicked \<Rightarrow> s1 | Returned \<Rightarrow>
           s1\<lparr>w_ticks := Suc (w_ticks s1),
              w_metrics := w_metrics s1 @
                [CounterInc (request_labels r mw),
                 HistogramObserve (request_labels r mw)
                   (of_int (e_now e (w_ticks s1) - e_now e (w_ticks s)) / 1000000000)]\<rparr>)"
    using metrics_run [OF assms run] by metis
  have "same_end (MetricsRec mw w') s1 w' s'" "same_log s1 s'"
    using c by (cases out; simp add: same_end_def same_log_def)+
  moreover have "same_start (MetricsRec fresh_metrics w) (s\<lparr>w_ticks := Suc (w_ticks s)\<rparr>) w s"
    using fresh_metrics_in_step [OF w] by (simp add: same_start_def fresh_metrics_def)
  moreover have "same_request r r" by (simp add: same_request_def)
  ultimately show "\<exists>r1 w1 s1 w2 s2. nxt r1 w1 s1 = (out, w2, s2) \<and> same_request r1 r \<and>
      same_start w1 s1 w s \<and> same_end w2 s2 w' s' \<and> same_log s2 s'"
    using n by blast
qed

lemma otel_passes:
  assumes "http_handler nxt"
  shows "passes (otel_Middleware e (Some t) nxt) nxt"
  unfolding passes_def
proof (intro allI impI)
  fix r w s out w' s'
  assume run: "otel_Middleware e (Some t) nxt r w s = (out, w', s')"
    and w: "in_step w" "\<not> header_sent w"
  obtain ow s1 where n:
    "nxt (traced_request e r s) (OtelRec fresh_otel w) (traced_world e r s) = (out, OtelRec ow w', s1)"
    and c: "s' = (case out of
         Panicked \<Rightarrow> span_call (SpanEnd (w_spans s)) s1
       | Returned \<Rightarrow> finish_span (w_spans s) ow (e_now e (w_ticks s1) - e_now e (w_ticks s))
           (s1\<lparr>w_ticks := Suc (w_ticks s1)\<rparr>))"
    using otel_run [OF assms run] by metis
  have "same_end (OtelRec ow w') s1 w' s'" "same_log s1 s'"
    using c by (cases out; simp add: same_end_def same_log_def span_call_def finish_span_def Let_def)+
  moreover have "same_start (OtelRec fresh_otel w) (traced_world e r s) w s"
    using w by (simp add: same_start_def fresh_otel_def in_step_unsent traced_world_def)
  moreover have "same_request (traced_request e r s) r"
    by (simp add: same_request_def traced_request_def)
  ultimately show "\<exists>r1 w1 s1 w2 s2. nxt r1 w1 s1 = (out, w2, s2) \<and> same_request r1 r \<and>
      same_start w1 s1 w s \<and> same_end w2 s2 w' s' \<and> same_log s2 s'"
    using n by blast
qed

text \<open>Whatever is switched on, a request comes to the access log unlogged.\<close>

lemma observed_reaches_log:
  assumes "inner_handler mux"
  shows "passes (observed e tr metricsOn mux) (AccessLog e mux)"
proof -
  have m: "http_handler mux" using assms by (simp add: inner_handler_def)
  note a = access.wraps [OF m, of e]
  note b = metrics.wraps [OF a, of e]
  have "passes (AccessLog e mux) (AccessLog e mux)"
    unfolding passes_def using passes_refl by blast
  then show ?thesis
    using metrics_passes [OF a] otel_passes [OF a]
      passes_trans [OF otel_passes [OF b] metrics_passes [OF a]]
    by (auto simp: observed_def Let_def split: option.splits)
qed

lemma client_status:
  "status_view (Conn c) = (if cn_wrote c then cn_status c else 200)"
  by simp

text \<open>One request through a wired gateway, from the connection to the mux.\<close>

lemma wired_run:
  assumes "wire e sdk promhttp opts s0 = (Inr g, s1)" and "inner_handler promhttp"
    and "gw_handler g r (Conn new_conn) s = (out, w', s')"
  obtains table rt tr h cid s2 where "parseRouteFlags (f_routeSpecs opts) = Inr table"
    and "NewRouter table = Inr rt" and "wired_tracer sdk opts = Inr tr"
    and "good_handler (build_cfg opts tr) h" and "hd_router h = rt"
    and "s1 = wired_world sdk opts h s0"
    and "gw_routes g = table"
    and "observed e tr (f_metricsEnabled opts)
        (ServeMux_ServeHTTP (served_mux e promhttp opts (build_cfg opts tr) h))
        (r\<lparr>r_ctx := (r_ctx r)\<lparr>cx_correlation := Some cid\<rparr>\<rparr>)
        (on_header (hdr_Set CorrelationIDHeader cid) (Conn new_conn)) s2 = (out, w', s')"
    and "cid \<noteq> ''''" and "\<exists>n. s2 = s\<lparr>w_draws := n\<rparr>"
    and "hdr_Get (w_reqhdr s) CorrelationIDHeader \<noteq> '''' \<longrightarrow>
      cid = hdr_Get (w_reqhdr s) CorrelationIDHeader"
proof -
  obtain table rt tr h where w: "parseRouteFlags (f_routeSpecs opts) = Inr table"
    "NewRouter table = Inr rt" "wired_tracer sdk opts = Inr tr"
    "good_handler (build_cfg opts tr) h" "hd_router h = rt"
    and g: "gw_handler g = compose e tr (f_metricsEnabled opts)
      (ServeMux_ServeHTTP (served_mux e promhttp opts (build_cfg opts tr) h))"
    and rest: "gw_routes g = table" "s1 = wired_world sdk opts h s0"
    using wire_Inr [OF assms(1)] .
  have "CorrelationID e (observed e tr (f_metricsEnabled opts)
      (ServeMux_ServeHTTP (served_mux e promhttp opts (build_cfg opts tr) h)))
      r (Conn new_conn) s = (out, w', s')"
    using assms(3) by (simp add: g compose_observed)
  then obtain cid s2 where c: "observed e tr (f_metricsEnabled opts)
        (ServeMux_ServeHTTP (served_mux e promhttp opts (build_cfg opts tr) h))
        (r\<lparr>r_ctx := (r_ctx r)\<lparr>cx_correlation := Some cid\<rparr>\<rparr>)
        (on_header (hdr_Set CorrelationIDHeader cid) (Conn new_conn)) s2 = (out, w', s')"
    "cid \<noteq> ''''" "\<exists>n. s2 = s\<lparr>w_draws := n\<rparr>"
    "hdr_Get (w_reqhdr s) CorrelationIDHeader \<noteq> '''' \<longrightarrow>
      cid = hdr_Get (w_reqhdr s) CorrelationIDHeader"
    by (rule CorrelationID_run)
  show thesis by (rule that [OF w rest(2,1) c])
qed

lemma log_run:
  assumes "wire e sdk promhttp opts s0 = (Inr g, s1)" and "inner_handler promhttp"
    and "gw_handler g r (Conn new_conn) s = (out, w', s')"
  obtains rt tr h cid r1 w1 s2 w2 s3 sr t0 t1 where "NewRouter (gw_routes g) = Inr rt"
    and "wired_tracer sdk opts = Inr tr"
    and "good_handler (build_cfg opts tr) h" and "hd_router h = rt"
    and "f_routesAdmin opts \<longrightarrow> w_current s1 = Some h"
    and "ServeMux_ServeHTTP (served_mux e promhttp opts (build_cfg opts tr) h) r1
      (AccessRec fresh_recorder w1) s2 = (out, AccessRec sr w2, s3)"
    and "same_request r1 (r\<lparr>r_ctx := (r_ctx r)\<lparr>cx_correlation := Some cid\<rparr>\<rparr>)"
    and "same_start (AccessRec fresh_recorder w1) s2
      (on_header (hdr_Set CorrelationIDHeader cid) (Conn new_conn)) s"
    and "same_end (AccessRec sr w2) s3 w' s'"
    and "w_stdout s' = w_stdout s @
      (case out of Returned \<Rightarrow> [access_line e r1 sr t0 t1] | Panicked \<Rightarrow> [])"
    and "cid \<noteq> ''''"
    and "hdr_Get (w_reqhdr s) CorrelationIDHeader \<noteq> '''' \<longrightarrow>
      cid = hdr_Get (w_reqhdr s) CorrelationIDHeader"
proof -
  obtain table rt tr h cid sc where t: "parseRouteFlags (f_routeSpecs opts) = Inr table"
    "NewRouter table = Inr rt" "wired_tracer sdk opts = Inr tr"
    "good_handler (build_cfg opts tr) h" "hd_router h = rt"
    and s1: "s1 = wired_world sdk opts h s0"
    and g: "gw_routes g = table"
    and o: "observed e tr (f_metricsEnabled opts)
        (ServeMux_ServeHTTP (served_mux e promhttp opts (build_cfg opts tr) h))
        (r\<lparr>r_ctx := (r_ctx r)\<lparr>cx_correlation := Some cid\<rparr>\<rparr>)
        (on_header (hdr_Set CorrelationIDHeader cid) (Conn new_conn)) sc = (out, w', s')"
    and cid: "cid \<noteq> ''''" "\<exists>n. sc = s\<lparr>w_draws := n\<rparr>"
    "hdr_Get (w_reqhdr s) CorrelationIDHeader \<noteq> '''' \<longrightarrow>
      cid = hdr_Get (w_reqhdr s) CorrelationIDHeader"
    by (rule wired_run [OF assms(1-3)])
  let ?w = "on_header (hdr_Set CorrelationIDHeader cid) (Conn new_conn)"
  let ?mux = "ServeMux_ServeHTTP (served_mux e promhttp opts (build_cfg opts tr) h)"
  have w: "in_step ?w" "\<not> header_sent ?w" by (simp_all add: new_conn_def)
  note inner = served_mux_inner [OF assms(2), of e opts "build_cfg opts tr" h]
  then have m: "http_handler ?mux" by (simp add: inner_handler_def)
  obtain r1 wa sa wb sb where a: "AccessLog e ?mux r1 wa sa = (out, wb, sb)"
    and same: "same_request r1 (r\<lparr>r_ctx := (r_ctx r)\<lparr>cx_correlation := Some cid\<rparr>\<rparr>)"
      "same_start wa sa ?w sc" "same_end wb sb w' s'" and log: "same_log sb s'"
    by (rule passesD [OF observed_reaches_log [OF inner] o w])
  obtain sr s3 where n: "?mux r1 (AccessRec fresh_recorder wa) (sa\<lparr>w_ticks := Suc (w_ticks sa)\<rparr>)
      = (out, AccessRec sr wb, s3)"
    and c: "sb = (case out of Panicked \<Rightarrow> s3 | Returned \<Rightarrow>
           s3\<lparr>w_ticks := Suc (w_ticks s3),
              w_stdout := w_stdout s3 @
                [access_line e r1 sr (e_now e (w_ticks sa)) (e_now e (w_ticks s3))]\<rparr>)"
    using AccessLog_run [OF m a] by metis
  have "in_step wa" "\<not> header_sent wa" using same(2) by (simp_all add: same_start_def)
  from fresh_recorder_in_step [OF this] have start:
    "same_start (AccessRec fresh_recorder wa) (sa\<lparr>w_ticks := Suc (w_ticks sa)\<rparr>) ?w s"
    using same(2) cid(2) by (auto simp: same_start_def fresh_recorder_def)
  have stop: "same_end (AccessRec sr wb) s3 w' s'"
    using same(3) c by (cases out) (simp_all add: same_end_def)
  have "w_stdout s3 = w_stdout s"
    using inner_handler.keeps_stdout [OF inner n] start by (simp add: same_start_def)
  then have out: "w_stdout s' = w_stdout s @ (case out of
      Returned \<Rightarrow> [access_line e r1 sr (e_now e (w_ticks sa)) (e_now e (w_ticks s3))] | Panicked \<Rightarrow> [])"
    using log c by (cases out) (simp_all add: same_log_def)
  have cur: "f_routesAdmin opts \<longrightarrow> w_current s1 = Some h" using s1 by simp
  show thesis
    using that [OF t(2) [folded g] t(3,4,5) cur n same(1) start stop out cid(1,3)] .
qed

lemma mux_run:
  assumes "wire e sdk promhttp opts s0 = (Inr g, s1)" and "inner_handler promhttp"
    and "gw_handler g r (Conn new_conn) s = (out, w', s')"
  obtains rt tr h cid r1 w1 s2 w2 s3 where "NewRouter (gw_routes g) = Inr rt"
    and "wired_tracer sdk opts = Inr tr"
    and "good_handler (build_cfg opts tr) h" and "hd_router h = rt"
    and "f_routesAdmin opts \<longrightarrow> w_current s1 = Some h"
    and "ServeMux_ServeHTTP (served_mux e promhttp opts (build_cfg opts tr) h) r1 w1 s2
      = (out, w2, s3)"
    and "same_request r1 (r\<lparr>r_ctx := (r_ctx r)\<lparr>cx_correlation := Some cid\<rparr>\<rparr>)"
    and "same_start w1 s2 (on_header (hdr_Set CorrelationIDHeader cid) (Conn new_conn)) s"
    and "same_end w2 s3 w' s'"
    and "cid \<noteq> ''''"
    and "hdr_Get (w_reqhdr s) CorrelationIDHeader \<noteq> '''' \<longrightarrow>
      cid = hdr_Get (w_reqhdr s) CorrelationIDHeader"
  by (rule log_run [OF assms]) (rule that)

lemma probe_paths: "cleanPath ''/healthz'' = ''/healthz''" "cleanPath ''/readyz'' = ''/readyz''"
  by code_simp+

lemma probe_run:
  assumes "wire e sdk promhttp opts s0 = (Inr g, s1)" and "inner_handler promhttp"
    and "gw_handler g r (Conn new_conn) s = (out, w', s')"
    and "u_path (r_URL r) = ''/healthz'' \<or> u_path (r_URL r) = ''/readyz''"
    and "r_RequestURI r \<noteq> ''*''" and "r_Method r \<noteq> ''CONNECT''"
  shows "out = Returned \<and> w_sent s' = w_sent s \<and> w_current s' = w_current s \<and>
    cn_status (conn_of w') =
      (if r_Method r = ''GET''
       then (if u_path (r_URL r) = ''/healthz'' \<or> w_readyState s = 1 then 200 else 503)
       else 405)"
proof -
  obtain cfg h cid r1 w1 s2 w2 s3 where
    m: "ServeMux_ServeHTTP (served_mux e promhttp opts cfg h) r1 w1 s2 = (out, w2, s3)"
    and same: "same_request r1 (r\<lparr>r_ctx := (r_ctx r)\<lparr>cx_correlation := Some cid\<rparr>\<rparr>)"
      "same_start w1 s2 (on_header (hdr_Set CorrelationIDHeader cid) (Conn new_conn)) s"
      "same_end w2 s3 w' s'"
    by (rule mux_run [OF assms(1-3)])
  have w1: "in_step w1" "\<not> header_sent w1" using same(2) by (simp_all add: same_start_def)
  have r1: "r_RequestURI r1 \<noteq> ''*''" "r_Method r1 \<noteq> ''CONNECT''" "r_Method r1 = r_Method r"
    "u_path (r_URL r1) = u_path (r_URL r)"
    using same(1) assms(5,6) by (simp_all add: same_request_def)
  have "(if u_path (r_URL r) = ''/healthz'' then Healthz r1 w1 s2 else Readyz isReady r1 w1 s2)
      = (out, w2, s3)"
    using m assms(4) r1 gateway_dispatch_eq [OF r1(1,2)] probe_paths
    by (auto simp: served_mux_def)
  moreover obtain wa wb where p: "Healthz r1 w1 s2 = (Returned, wa, s2)"
    "Readyz isReady r1 w1 s2 = (Returned, wb, s2)"
    "if r_Method r1 = ''GET''
     then cn_status (conn_of wa) = 200 \<and>
       cn_status (conn_of wb) = (if snd (isReady s2) then 200 else 503)
     else cn_status (conn_of wa) = 405 \<and> cn_status (conn_of wb) = 405"
    using probes_run [OF w1, of r1 s2 isReady] by (auto split: if_splits)
  ultimately show ?thesis
    using same(2,3) r1(3)
    by (auto simp: same_start_def same_end_def isReady_def split: if_splits)
qed

text \<open>The values the gateway set before the proxy come first in the answer.\<close>

lemma client_keeps_header:
  assumes "good_handler cfg h" and "Match (hd_router h) (u_path (r_URL r)) = Some x"
    and "sane_upgrade (w_reqhdr s)" and "in_step w" and "\<not> header_sent w"
    and "Handler_ServeHTTP e h r w s = (Returned, w', s')"
  shows "\<exists>vs. hdr_values (cn_sent (conn_of w')) k = hdr_values (cn_header (conn_of w)) k @ vs"
proof -
  let ?w = "stamp_route w (Prefix x)"
  have w: "in_step ?w" "\<not> header_sent ?w" using assms(4,5) by simp_all
  obtain t q ops where "w_sent s' = w_sent s @ [(t, q)]"
    and a: "answer (e_backend e (length (w_sent s)) t q) = (Returned, ops)" and w': "w' = run_ops ops ?w"
    using matched_run [OF assms(1-3,6)] .
  have "cn_sent (conn_of (WriteHeader ?w 502)) = cn_header (conn_of ?w)"
    using w by (simp add: conn_of_first_WriteHeader header_sent_conn conn_WriteHeader_def)
  then show ?thesis
    using a w' deliver_conn(3) [OF w]
    by (auto simp: answer_def copyHeader_values split: sum.splits if_splits)
qed

section \<open>A gateway for the witnesses\<close>

definition demo_options :: options where
  "demo_options = default_options\<lparr>f_metricsEnabled := True, f_routesAdmin := True,
     f_otelEnabled := True,
     f_routeSpecs := [''/=>http://fallback'', ''/decide=>http://svc:8080'']\<rparr>"

definition demo_exporter :: handler where
  "demo_exporter r w s = (Returned, Write w ''# metrics'', s)"

lemma demo_exporter_inner: "inner_handler demo_exporter"
  by (rule inner_handlerI) (auto simp: demo_exporter_def intro!: exI [of _ "[OpWrite ''# metrics'']"])

definition demo_table :: "route list" where
  "demo_table =
     [\<lparr>Prefix = ''/'', Backend = Some (demo_url ''fallback'')\<rparr>,
      \<lparr>Prefix = ''/decide'', Backend = Some (demo_url ''svc:8080'')\<rparr>]"

lemma demo_parses:
  "parseRouteFlags (f_routeSpecs demo_options) = Inr demo_table"
  "NewRouter demo_table = Inr \<lparr>routes = rev demo_table\<rparr>"
  by code_simp+

definition demo_world :: "Handler \<Rightarrow> world" where
  "demo_world h = wired_world demo_sdk demo_options h quiet_world"

lemma demo_world_sel [simp]:
  "w_current (demo_world h) = Some h" "w_sent (demo_world h) = []" "w_stdout (demo_world h) = []"
  by (simp_all add: demo_world_def demo_options_def quiet_world_def)

lemma demo_wires:
  obtains g h where "wire demo_env demo_sdk demo_exporter demo_options quiet_world
      = (Inr g, demo_world h)" and "gw_routes g = demo_table"
    and "hd_router h = \<lparr>routes = rev demo_table\<rparr>" and "gw_listen g = '':8090''"
proof -
  have tracer: "wired_tracer demo_sdk demo_options =
      Inr (Some instrumentation)"
    by (simp add: wired_tracer_cases demo_options_def demo_sdk_def)
  obtain h where h: "hd_router h = \<lparr>routes = rev demo_table\<rparr>"
    and w: "wire demo_env demo_sdk demo_exporter demo_options quiet_world =
      (Inr \<lparr>gw_listen = f_listen demo_options,
            gw_handler = compose demo_env (Some instrumentation) (f_metricsEnabled demo_options)
              (ServeMux_ServeHTTP (served_mux demo_env demo_exporter demo_options
                (build_cfg demo_options (Some instrumentation)) h)),
            gw_readHeaderTimeout = 5 * Second, gw_routes = demo_table\<rparr>,
       demo_world h)"
    unfolding demo_world_def by (rule wire_built [OF demo_parses tracer, of demo_env demo_exporter quiet_world])
  show thesis
    by (rule that [OF w _ h]) (simp_all add: demo_options_def default_options_def)
qed

end
