(* ===== verification/Running.thy ===== *)
theory Running
  imports Chain
begin

text \<open>
  A wired gateway while it runs: the states it can be in after any sequence of requests, what
  stays true of them, and the route table that is in force in each. Requests follow one
  another here; what concurrent requests see of a table that is being replaced is the subject
  of \<open>Swap\<close>.
\<close>

section \<open>The states of a running gateway\<close>

inductive serves :: "gateway \<Rightarrow> world \<Rightarrow> world \<Rightarrow> bool" for g s1 where
  serves_start: "serves g s1 s1"
| serves_request: "serves g s1 s \<Longrightarrow>
    gw_handler g r (Conn new_conn) (s\<lparr>w_reqhdr := rh\<rparr>) = (out, w', s') \<Longrightarrow> serves g s1 s'"
| serves_ready: "serves g s1 s \<Longrightarrow> serves g s1 (s\<lparr>w_readyState := b\<rparr>)"

text \<open>The table requests are matched against.\<close>

definition active_table :: "options \<Rightarrow> gateway \<Rightarrow> world \<Rightarrow> route list" where
  "active_table opts g s =
     (if f_routesAdmin opts
      then (case w_current s of None \<Rightarrow> [] | Some cur \<Rightarrow> Routes (hd_router cur))
      else gw_routes g)"

section \<open>Every handler keeps the current table well formed\<close>

definition keeps_good :: "BuildConfig \<Rightarrow> handler \<Rightarrow> bool" where
  "keeps_good cfg h =
     (\<forall>r w s. good_state cfg s \<longrightarrow> good_state cfg (snd (snd (h r w s))))"

lemma keeps_goodI:
  assumes "\<And>r w s. w_current (snd (snd (h r w s))) = w_current s"
  shows "keeps_good cfg h"
  using assms by (simp add: keeps_good_def good_state_def)

lemma keeps_good_cases:
  assumes "\<And>r. \<exists>h. keeps_good cfg h \<and> (\<forall>w s. f r w s = h r w s)"
  shows "keeps_good cfg f"
  using assms unfolding keeps_good_def by metis

lemma Handler_keeps_current: "w_current (snd (snd (Handler_ServeHTTP e h r w s))) = w_current s"
proof -
  obtain out ops h' sent n evs where "Handler_ServeHTTP e h r w s = (out, run_ops ops w,
     s\<lparr>w_reqhdr := h', w_sent := w_sent s @ sent, w_spans := n, w_otel := w_otel s @ evs\<rparr>)"
    by (rule Handler_effect)
  then show ?thesis by simp
qed

lemma Holder_keeps_current: "w_current (snd (snd (Holder_ServeHTTP e r w s))) = w_current s"
  by (simp add: Holder_ServeHTTP_def Handler_keeps_current split: option.splits)

lemma writeCurrent_state: "snd (snd (writeCurrent r w s)) = s"
  by (simp add: writeCurrent_def split: option.splits prod.splits)

lemma postRoutes_keeps_good: "keeps_good (ho_cfg h) (postRoutes e h)"
proof -
  have "good_state (ho_cfg h) (snd (snd (postRoutes e h r w s)))" if s: "good_state (ho_cfg h) s" for r w s
  proof (cases "posted_table (r_Body r)")
    case None
    then obtain msg where "postRoutes e h r w s = (Returned, writeError w 400 msg, s)"
      by (rule postRoutes_refused)
    with s show ?thesis by simp
  next
    case (Some rs)
    then obtain cur where "postRoutes e h r w s = writeCurrent r w (s\<lparr>w_current := Some cur\<rparr>)"
      and "good_handler (ho_cfg h) cur"
      by (rule postRoutes_accepted)
    then show ?thesis by (simp add: writeCurrent_state good_state_def)
  qed
  then show ?thesis by (simp add: keeps_good_def)
qed

lemma RoutesAdmin_keeps_good: "keeps_good (ho_cfg h) (RoutesAdmin e (Some h))"
  using postRoutes_keeps_good [of h e]
  by (auto simp: keeps_good_def RoutesAdmin_def writeCurrent_state Let_def)

lemma small_handlers_keep_good:
  "keeps_good cfg Healthz" "keeps_good cfg (Readyz isReady)" "keeps_good cfg mux_NotFound"
  "keeps_good cfg (Redirect loc)" "keeps_good cfg bad_star"
  by (auto simp: keeps_good_def Healthz_def Readyz_def mux_NotFound_def Redirect_def bad_star_def
      Let_def split: prod.splits)

lemma served_mux_keeps_good:
  assumes "keeps_good cfg promhttp" and "f_routesAdmin opts"
  shows "keeps_good cfg (ServeMux_ServeHTTP (served_mux e promhttp opts cfg h))"
proof (rule keeps_good_cases)
  fix r
  let ?m = "served_mux e promhttp opts cfg h"
  have target: "keeps_good cfg (mux_handler ?m p)" for p
    using assms small_handlers_keep_good [of cfg] RoutesAdmin_keeps_good [of "\<lparr>ho_cfg = cfg\<rparr>" e]
      keeps_goodI [of "Holder_ServeHTTP e" cfg, OF Holder_keeps_current]
    by (simp add: served_mux_def mux_handler_gateway)
  have "keeps_good cfg (mux_Handler ?m r)"
    using target small_handlers_keep_good by (simp add: mux_Handler_def Let_def)
  moreover have "ServeMux_ServeHTTP ?m r w s =
      (if r_RequestURI r = ''*'' then bad_star r w s else mux_Handler ?m r r w s)" for w s
    by (simp add: ServeMux_ServeHTTP_def bad_star_def)
  ultimately show "\<exists>f. keeps_good cfg f \<and> (\<forall>w s. ServeMux_ServeHTTP ?m r w s = f r w s)"
    using small_handlers_keep_good(5) by (cases "r_RequestURI r = ''*''") auto
qed

text \<open>So in every state of a running gateway the holder's handler is well formed and built with
  the options of the flags.\<close>

lemma serves_good:
  assumes "wire e sdk promhttp opts s0 = (Inr g, s1)" and "inner_handler promhttp"
    and "\<And>cfg. keeps_good cfg promhttp" and "serves g s1 s"
  shows "\<exists>tr. wired_tracer sdk opts = Inr tr \<and>
    (f_routesAdmin opts \<longrightarrow> good_state (build_cfg opts tr) s)"
  using assms(4)
proof (induction rule: serves.induct)
  case serves_start
  obtain tr h where "wired_tracer sdk opts = Inr tr" "good_handler (build_cfg opts tr) h"
    and "s1 = wired_world sdk opts h s0"
    by (rule wire_Inr [OF assms(1)])
  then show ?case by (simp add: good_state_def)
next
  case (serves_request s r rh out w' s')
  then obtain tr where tr: "wired_tracer sdk opts = Inr tr"
    and good: "f_routesAdmin opts \<longrightarrow> good_state (build_cfg opts tr) s"
    by blast
  obtain tr' h cid r1 w1 s2 w2 s3 where "wired_tracer sdk opts = Inr tr'"
    and run: "ServeMux_ServeHTTP (served_mux e promhttp opts (build_cfg opts tr') h) r1 w1 s2
      = (out, w2, s3)"
    and same: "same_start w1 s2 (on_header (hdr_Set CorrelationIDHeader cid) (Conn new_conn))
      (s\<lparr>w_reqhdr := rh\<rparr>)" "same_end w2 s3 w' s'"
    by (rule mux_run [OF assms(1,2) serves_request.hyps(2)])
  have "tr' = tr" using tr \<open>wired_tracer sdk opts = Inr tr'\<close> by simp
  moreover have "good_state (build_cfg opts tr) s3" if "f_routesAdmin opts"
  proof -
    have "good_state (build_cfg opts tr) s2"
      using good that same(1) by (simp add: same_start_def good_state_def)
    then show ?thesis
      using served_mux_keeps_good [OF assms(3) that, of "build_cfg opts tr" e h] run \<open>tr' = tr\<close>
      by (metis keeps_good_def snd_conv)
  qed
  ultimately show ?case using tr same(2) by (simp add: same_end_def good_state_def)
next
  case (serves_ready s b)
  then show ?case by (simp add: good_state_def)
qed

text \<open>The requests that reach the proxy: a clean path that is not one of the endpoints.\<close>

definition for_proxy :: "options \<Rightarrow> request \<Rightarrow> bool" where
  "for_proxy opts r =
     (r_RequestURI r \<noteq> ''*'' \<and> r_Method r \<noteq> ''CONNECT'' \<and>
      cleanPath (u_path (r_URL r)) = u_path (r_URL r) \<and>
      u_path (r_URL r) \<notin> {''/healthz'', ''/readyz''} \<and>
      (f_metricsEnabled opts \<longrightarrow> u_path (r_URL r) \<noteq> ''/metrics'') \<and>
      (f_routesAdmin opts \<longrightarrow> u_path (r_URL r) \<noteq> ''/admin/routes''))"

lemma for_proxy_cong: "same_request r1 r \<Longrightarrow> for_proxy opts r1 = for_proxy opts r"
  by (simp add: for_proxy_def same_request_def)

lemma served_mux_proxies:
  assumes "for_proxy opts r"
  shows "ServeMux_ServeHTTP (served_mux e promhttp opts cfg h) r w s =
    (if f_routesAdmin opts then Holder_ServeHTTP e else Handler_ServeHTTP e h) r w s"
  using assms gateway_dispatch_eq [of r]
  by (simp add: served_mux_def for_proxy_def)

section \<open>Requests to a running gateway\<close>

lemma Match_well_formed_iff:
  assumes "well_formed_router r"
  shows "Match r path = Some x \<longleftrightarrow> longest_match (Routes r) path x"
proof -
  have "sorted (map len_key (routes r))"
    using assms by (auto simp: well_formed_router_def len_key_def sorted_map elim: sorted_wrt_mono_rel [rotated])
  then have "sort_routes (routes r) = routes r" by (simp add: sort_routes_def sort_key_id_if_sorted)
  moreover have "distinct (map Prefix (routes r))"
    using assms by (simp add: well_formed_router_def valid_table_def)
  ultimately show ?thesis using match_sorted_iff [of "routes r" path x]
    by (simp add: Match_def Routes_def)
qed

lemma proxied_run:
  assumes "wire e sdk promhttp opts s0 = (Inr g, s1)" and "inner_handler promhttp"
    and "\<And>cfg. keeps_good cfg promhttp" and "serves g s1 s"
    and "gw_handler g r (Conn new_conn) (s\<lparr>w_reqhdr := rh\<rparr>) = (out, w', s')" and "for_proxy opts r"
  obtains cfg h cid r1 w1 s2 w2 s3 where "good_handler cfg h"
    and "\<forall>path x. Match (hd_router h) path = Some x \<longleftrightarrow> longest_match (active_table opts g s) path x"
    and "Handler_ServeHTTP e h r1 w1 s2 = (out, w2, s3)"
    and "same_request r1 (r\<lparr>r_ctx := (r_ctx r)\<lparr>cx_correlation := Some cid\<rparr>\<rparr>)"
    and "same_start w1 s2 (on_header (hdr_Set CorrelationIDHeader cid) (Conn new_conn))
      (s\<lparr>w_reqhdr := rh\<rparr>)"
    and "same_end w2 s3 w' s'"
    and "cid \<noteq> ''''"
    and "hdr_Get rh CorrelationIDHeader \<noteq> '''' \<longrightarrow> cid = hdr_Get rh CorrelationIDHeader"
proof -
  obtain rt tr h cid r1 w1 s2 w2 s3 where rt: "NewRouter (gw_routes g) = Inr rt"
    and tr: "wired_tracer sdk opts = Inr tr"
    and h: "good_handler (build_cfg opts tr) h" "hd_router h = rt"
    and m: "ServeMux_ServeHTTP (served_mux e promhttp opts (build_cfg opts tr) h) r1 w1 s2
      = (out, w2, s3)"
    and same: "same_request r1 (r\<lparr>r_ctx := (r_ctx r)\<lparr>cx_correlation := Some cid\<rparr>\<rparr>)"
      "same_start w1 s2 (on_header (hdr_Set CorrelationIDHeader cid) (Conn new_conn))
        (s\<lparr>w_reqhdr := rh\<rparr>)"
      "same_end w2 s3 w' s'"
    and cid: "cid \<noteq> ''''" "hdr_Get (w_reqhdr (s\<lparr>w_reqhdr := rh\<rparr>)) CorrelationIDHeader \<noteq> '''' \<longrightarrow>
      cid = hdr_Get (w_reqhdr (s\<lparr>w_reqhdr := rh\<rparr>)) CorrelationIDHeader"
    by (rule mux_run [OF assms(1,2,5)])
  have "for_proxy opts r1"
    using assms(6) for_proxy_cong [OF same(1)] by (simp add: for_proxy_def)
  then have run: "(if f_routesAdmin opts then Holder_ServeHTTP e else Handler_ServeHTTP e h) r1 w1 s2
      = (out, w2, s3)"
    using m by (simp add: served_mux_proxies)
  have good: "f_routesAdmin opts \<longrightarrow> good_state (build_cfg opts tr) s"
    using serves_good [OF assms(1-4)] tr by auto
  have current: "w_current s2 = w_current s" using same(2) by (simp add: same_start_def)
  have cid': "hdr_Get rh CorrelationIDHeader \<noteq> '''' \<longrightarrow> cid = hdr_Get rh CorrelationIDHeader"
    using cid(2) by simp
  show thesis
  proof (cases "f_routesAdmin opts")
    case True
    with good obtain cur where cur: "w_current s = Some cur" "good_handler (build_cfg opts tr) cur"
      by (auto simp: good_state_def split: option.splits)
    then have "well_formed_router (hd_router cur)" by (simp add: good_handler_def)
    then have "Match (hd_router cur) path = Some x \<longleftrightarrow> longest_match (active_table opts g s) path x"
      for path x
      using Match_well_formed_iff cur(1) True by (simp add: active_table_def)
    moreover have "Handler_ServeHTTP e cur r1 w1 s2 = (out, w2, s3)"
      using run True current cur(1) by (simp add: Holder_ServeHTTP_def)
    ultimately show thesis using that [OF cur(2) _ _ same cid(1) cid'] by blast
  next
    case False
    then have "Match (hd_router h) path = Some x \<longleftrightarrow> longest_match (active_table opts g s) path x"
      for path x
      using Match_NewRouter_iff [OF rt] h(2) by (simp add: active_table_def)
    moreover have "Handler_ServeHTTP e h r1 w1 s2 = (out, w2, s3)" using run False by simp
    ultimately show thesis using that [OF h(1) _ _ same cid(1) cid'] by blast
  qed
qed

lemma good_handler_dom:
  assumes "good_handler cfg h"
  shows "dom (hd_proxies h) = Prefix ` set (Routes (hd_router h))"
proof -
  obtain mk where "build_proxies mk Map.empty (Routes (hd_router h)) = Inr (hd_proxies h)"
    using assms by (auto simp: good_handler_def New_with_def New_def split: sum.splits)
      (metis Handler.select_convs(2))
  then show ?thesis using build_proxies_dom by force
qed

lemma running_table:
  assumes "wire e sdk promhttp opts s0 = (Inr g, s1)" and "inner_handler promhttp"
    and "\<And>cfg. keeps_good cfg promhttp" and "serves g s1 s"
  shows "valid_table (active_table opts g s) \<and>
    (f_routesAdmin opts \<longrightarrow> (\<exists>cur. w_current s = Some cur \<and>
       dom (hd_proxies cur) = Prefix ` set (active_table opts g s)))"
proof (cases "f_routesAdmin opts")
  case True
  with serves_good [OF assms] obtain tr cur where "w_current s = Some cur"
    "good_handler (build_cfg opts tr) cur"
    by (auto simp: good_state_def split: option.splits)
  moreover from this have "valid_table (Routes (hd_router cur))"
    by (simp add: good_handler_def well_formed_routerE)
  ultimately show ?thesis using True by (simp add: active_table_def good_handler_dom)
next
  case False
  obtain table r where "NewRouter table = Inr r" "gw_routes g = table"
    by (rule wire_Inr [OF assms(1)])
  with False show ?thesis by (auto simp: active_table_def NewRouter_Inr_iff)
qed

text \<open>A POST to the admin endpoint of a running gateway.\<close>

lemma admin_path: "cleanPath ''/admin/routes'' = ''/admin/routes''"
  by code_simp

lemma posted_run:
  assumes "wire e sdk promhttp opts s0 = (Inr g, s1)" and "inner_handler promhttp"
    and "f_routesAdmin opts"
    and "gw_handler g r (Conn new_conn) (s\<lparr>w_reqhdr := rh\<rparr>) = (out, w', s')"
    and "r_Method r = ''POST''" and "u_path (r_URL r) = ''/admin/routes''"
    and "r_RequestURI r \<noteq> ''*''"
  shows "out = Returned \<and> w_sent s' = w_sent s \<and>
    (case posted_table (r_Body r) of
       None \<Rightarrow> active_table opts g s' = active_table opts g s \<and> cn_status (conn_of w') = 400
     | Some rs \<Rightarrow> active_table opts g s' = sort_routes rs \<and> cn_status (conn_of w') = 200 \<and>
         cn_body (conn_of w') = table_text (sort_routes rs))"
proof -
  obtain cfg h cid r1 w1 s2 w2 s3 where
    m: "ServeMux_ServeHTTP (served_mux e promhttp opts cfg h) r1 w1 s2 = (out, w2, s3)"
    and same: "same_request r1 (r\<lparr>r_ctx := (r_ctx r)\<lparr>cx_correlation := Some cid\<rparr>\<rparr>)"
      "same_start w1 s2 (on_header (hdr_Set CorrelationIDHeader cid) (Conn new_conn))
        (s\<lparr>w_reqhdr := rh\<rparr>)"
      "same_end w2 s3 w' s'"
    by (rule mux_run [OF assms(1,2,4)])
  have r1: "r_RequestURI r1 \<noteq> ''*''" "r_Method r1 \<noteq> ''CONNECT''" "r_Method r1 = ''POST''"
    "u_path (r_URL r1) = ''/admin/routes''" "r_Body r1 = r_Body r"
    using same(1) assms(5-7) by (simp_all add: same_request_def)
  have w1: "in_step w1" "\<not> header_sent w1" using same(2) by (simp_all add: same_start_def)
  have "RoutesAdmin e (Some \<lparr>ho_cfg = cfg\<rparr>) r1 w1 s2 = (out, w2, s3)"
    using m r1 gateway_dispatch_eq [OF r1(1,2)] admin_path assms(3) by (simp add: served_mux_def)
  note effect = admin_post_effect [OF r1(3) w1 this]
  have start: "w_current s2 = w_current s" "w_sent s2 = w_sent s"
    "conn_of w1 = conn_of (on_header (hdr_Set CorrelationIDHeader cid) (Conn new_conn))"
    using same(2) by (simp_all add: same_start_def)
  have stop: "w_current s' = w_current s3" "w_sent s' = w_sent s3" "conn_of w' = conn_of w2"
    using same(3) by (simp_all add: same_end_def)
  have current: "active_table opts g s' = (case Holder_Routes s3 of None \<Rightarrow> [] | Some rs \<Rightarrow> rs)"
    using assms(3) stop(1) by (simp add: active_table_def Holder_Routes_def split: option.splits)
  show ?thesis
  proof (cases "posted_table (r_Body r)")
    case None
    with effect r1(5) have "s3 = s2" "out = Returned" "cn_status (conn_of w2) = 400" by simp_all
    then show ?thesis using None start stop by (simp add: active_table_def)
  next
    case (Some rs)
    with effect r1(5) have "out = Returned" "\<exists>cur. s3 = s2\<lparr>w_current := Some cur\<rparr>"
      "Holder_Routes s3 = Some (sort_routes rs)" "cn_status (conn_of w2) = 200"
      "cn_body (conn_of w2) = cn_body (conn_of w1) @ table_text (sort_routes rs)"
      by auto
    then show ?thesis using Some start stop current by (auto simp: new_conn_def)
  qed
qed

end
