(* ===== verification/Abstract.thy ===== *)
theory Abstract
  imports Running
begin

text \<open>
  The gateway as its operator sees it: a route table, and for each request one reaction that
  depends on the table, the readiness flag and the request alone. Middlewares, recorders, mux,
  locks and transports do not appear. The running gateway (\<open>Running\<close>) refines this machine:
  each answer shows the reaction, and the table in force follows the machine's.
\<close>

section \<open>The abstract machine\<close>

datatype reaction =
    BadRequest
  | Redirected string
  | Alive
  | ReadyState bool
  | NotAllowed string
  | Exporter
  | Listed
  | Refused
  | Installed "route list"
  | NoPattern
  | Unrouted
  | BadUpgrade
  | Forwarded route

definition spec_match :: "route list \<Rightarrow> string \<Rightarrow> route option" where
  "spec_match table path = find (longest_match table path) table"

text \<open>What a request asks of the gateway, in a state with this table and readiness.\<close>

definition react :: "options \<Rightarrow> bool \<Rightarrow> route list \<Rightarrow> header \<Rightarrow> request \<Rightarrow> reaction" where
  "react opts ready table rh r =
     (let path = u_path (r_URL r); meth = r_Method r in
      if r_RequestURI r = ''*'' then BadRequest
      else if meth \<noteq> ''CONNECT'' \<and> cleanPath path \<noteq> path then Redirected (cleanPath path)
      else if path = ''/healthz'' then (if meth = ''GET'' then Alive else NotAllowed ''GET'')
      else if path = ''/readyz'' then (if meth = ''GET'' then ReadyState ready else NotAllowed ''GET'')
      else if f_metricsEnabled opts \<and> path = ''/metrics'' then Exporter
      else if f_routesAdmin opts \<and> path = ''/admin/routes'' then
        (if meth = ''GET'' then Listed
         else if meth = ''POST'' then
           (case posted_table (r_Body r) of
              None \<Rightarrow> Refused
            | Some rs \<Rightarrow> Installed (sort_routes rs))
         else NotAllowed ''GET, POST'')
      else if \<not> HasPrefix path ''/'' then NoPattern
      else
        (case spec_match table path of
           None \<Rightarrow> Unrouted
         | Some x \<Rightarrow> if sane_upgrade rh then Forwarded x else BadUpgrade))"

definition next_table :: "reaction \<Rightarrow> route list \<Rightarrow> route list" where
  "next_table a table = (case a of Installed rs \<Rightarrow> rs | _ \<Rightarrow> table)"

section \<open>How a reaction shows\<close>

text \<open>An answer the gateway gives by itself: a status, and no request to any backend.\<close>

definition itself :: "int \<Rightarrow> outcome \<Rightarrow> conn \<Rightarrow> world \<Rightarrow> world \<Rightarrow> bool" where
  "itself status out c s s' = (out = Returned \<and> cn_status c = status \<and> w_sent s' = w_sent s)"

definition relayed :: "env \<Rightarrow> route \<Rightarrow> request \<Rightarrow> outcome \<Rightarrow> conn \<Rightarrow> world \<Rightarrow> world \<Rightarrow> bool" where
  "relayed e x r out c s s' =
     (\<exists>b t q. Backend x = Some b \<and> w_sent s' = w_sent s @ [(t, q)] \<and>
        u_scheme (o_URL q) = u_scheme b \<and> u_host (o_URL q) = u_host b \<and>
        o_Method q = r_Method r \<and> o_Body q = r_Body r \<and> o_Host q = r_Host r \<and>
        (case e_backend e (length (w_sent s)) t q of
           Inl err \<Rightarrow> out = Returned \<and> cn_status c = 502 \<and> cn_body c = ''''
         | Inr resp \<Rightarrow>
             if rs_StatusCode resp = 101
             then out = Returned \<and> cn_status c = 502 \<and> cn_body c = ''''
             else (out = Panicked \<longleftrightarrow> rs_copy_fails resp \<or> \<not> valid_code (rs_StatusCode resp)) \<and>
               (valid_code (rs_StatusCode resp) \<longrightarrow>
                  cn_status c = rs_StatusCode resp \<and> cn_body c = rs_Body resp)))"

fun visible ::
  "env \<Rightarrow> route list \<Rightarrow> reaction \<Rightarrow> request \<Rightarrow> outcome \<Rightarrow> conn \<Rightarrow> world \<Rightarrow> world \<Rightarrow> bool" where
  "visible e table BadRequest r out c s s' = itself 400 out c s s'"
| "visible e table (Redirected p) r out c s s' = itself 301 out c s s'"
| "visible e table Alive r out c s s' = itself 200 out c s s'"
| "visible e table (ReadyState b) r out c s s' = itself (if b then 200 else 503) out c s s'"
| "visible e table (NotAllowed allow) r out c s s' =
     (itself 405 out c s s' \<and> hdr_values (cn_sent c) ''Allow'' = [allow])"
| "visible e table Exporter r out c s s' = True"
| "visible e table Listed r out c s s' = (itself 200 out c s s' \<and> cn_body c = table_text table)"
| "visible e table Refused r out c s s' = itself 400 out c s s'"
| "visible e table (Installed rs) r out c s s' = (itself 200 out c s s' \<and> cn_body c = table_text rs)"
| "visible e table NoPattern r out c s s' = itself 404 out c s s'"
| "visible e table Unrouted r out c s s' = (itself 404 out c s s' \<and> cn_body c = notFound_body)"
| "visible e table BadUpgrade r out c s s' = itself 502 out c s s'"
| "visible e table (Forwarded x) r out c s s' = relayed e x r out c s s'"

section \<open>The handlers on the mux show it\<close>

lemma spec_match_Some_iff:
  assumes "distinct (map Prefix table)"
  shows "spec_match table path = Some x \<longleftrightarrow> longest_match table path x"
proof
  assume "spec_match table path = Some x"
  then show "longest_match table path x" by (auto simp: spec_match_def dest: find_Some_mem)
next
  assume x: "longest_match table path x"
  then have "x \<in> set table" by (simp add: longest_match_def)
  with x obtain y where y: "spec_match table path = Some y"
    by (cases "spec_match table path") (auto simp: spec_match_def find_None_all)
  then have "longest_match table path y" by (auto simp: spec_match_def dest: find_Some_mem)
  with longest_match_unique [OF assms x] y show "spec_match table path = Some x" by simp
qed

text \<open>Whatever serves the table \<open>T\<close>: the fixed handler, or the holder's.\<close>

definition serves_table :: "BuildConfig \<Rightarrow> Handler \<Rightarrow> route list \<Rightarrow> bool" where
  "serves_table cfg h T =
     (good_handler cfg h \<and> (\<forall>path. Match (hd_router h) path = spec_match T path))"

lemma Handler_shows:
  assumes "serves_table cfg h T" and "in_step w" and "\<not> header_sent w" and "cn_body (conn_of w) = ''''"
    and "Handler_ServeHTTP e h r w s = (out, w', s')"
  shows "case spec_match T (u_path (r_URL r)) of
      None \<Rightarrow> visible e T Unrouted r out (conn_of w') s s'
    | Some x \<Rightarrow> visible e T (if sane_upgrade (w_reqhdr s) then Forwarded x else BadUpgrade) r out (conn_of w') s s'"
proof (cases "spec_match T (u_path (r_URL r))")
  case None
  then have "Match (hd_router h) (u_path (r_URL r)) = None" using assms(1) by (simp add: serves_table_def)
  from unmatched_is_404 [OF this assms(2,3), of e s] assms(4,5) None show ?thesis
    by (auto simp: itself_def)
next
  case (Some x)
  then have m: "Match (hd_router h) (u_path (r_URL r)) = Some x" and h: "good_handler cfg h"
    using assms(1) by (simp_all add: serves_table_def)
  obtain b where b: "Backend x = Some b" and sent: "if sane_upgrade (w_reqhdr s)
     then \<exists>t q. w_sent s' = w_sent s @ [(t, q)] \<and>
       u_scheme (o_URL q) = u_scheme b \<and> u_host (o_URL q) = u_host b \<and>
       o_Method q = r_Method r \<and> o_Body q = r_Body r \<and> o_Host q = r_Host r
     else w_sent s' = w_sent s \<and> w' = WriteHeader (stamp_route w (Prefix x)) 502"
    using matched_effect [OF h m assms(5)] by blast
  show ?thesis
  proof (cases "sane_upgrade (w_reqhdr s)")
    case True
    then obtain t q where q: "w_sent s' = w_sent s @ [(t, q)]"
      "u_scheme (o_URL q) = u_scheme b" "u_host (o_URL q) = u_host b"
      "o_Method q = r_Method r" "o_Body q = r_Body r" "o_Host q = r_Host r"
      using sent by auto
    obtain t' q' where "w_sent s' = w_sent s @ [(t', q')]"
      and "case e_backend e (length (w_sent s)) t' q' of
       Inl err \<Rightarrow> out = Returned \<and> cn_status (conn_of w') = 502 \<and> cn_body (conn_of w') = ''''
     | Inr resp \<Rightarrow>
         if rs_StatusCode resp = 101
         then out = Returned \<and> cn_status (conn_of w') = 502 \<and> cn_body (conn_of w') = ''''
         else (out = Panicked \<longleftrightarrow> rs_copy_fails resp \<or> \<not> valid_code (rs_StatusCode resp)) \<and>
           (valid_code (rs_StatusCode resp) \<longrightarrow>
              cn_status (conn_of w') = rs_StatusCode resp \<and> cn_body (conn_of w') = rs_Body resp)"
      using client_answer [OF h m True assms(2,3,5)] unfolding assms(4) append_Nil by blast
    with q(1) have "relayed e x r out (conn_of w') s s'"
      unfolding relayed_def using b q by (intro exI [of _ b] exI [of _ t] exI [of _ q]) simp
    with Some True show ?thesis by simp
  next
    case False
    have w: "in_step (stamp_route w (Prefix x))" "\<not> header_sent (stamp_route w (Prefix x))"
      using assms(2,3) by simp_all
    obtain p where "Handler_ServeHTTP e h r w s =
        ReverseProxy_ServeHTTP e p r (stamp_route w (Prefix x)) (with_id r s)"
      using Handler_matched [OF h m] by metis
    with False assms(5) have "out = Returned" by (auto simp: ReverseProxy_run)
    moreover have "w_sent s' = w_sent s" "w' = WriteHeader (stamp_route w (Prefix x)) 502"
      using sent False by simp_all
    ultimately show ?thesis using False Some error_conn(1) [OF w] by (simp add: itself_def)
  qed
qed

text \<open>The mux of a wired gateway, case by case.\<close>

lemma served_mux_cases:
  "ServeMux_ServeHTTP (served_mux e promhttp opts cfg h) r w s =
     (if r_RequestURI r = ''*'' then bad_star r w s
      else if r_Method r \<noteq> ''CONNECT'' \<and> cleanPath (u_path (r_URL r)) \<noteq> u_path (r_URL r) then
        Redirect (url_String (empty_url\<lparr>u_path := cleanPath (u_path (r_URL r)),
          u_rawquery := u_rawquery (r_URL r)\<rparr>)) r w s
      else if u_path (r_URL r) = ''/healthz'' then Healthz r w s
      else if u_path (r_URL r) = ''/readyz'' then Readyz isReady r w s
      else if f_metricsEnabled opts \<and> u_path (r_URL r) = ''/metrics'' then promhttp r w s
      else if f_routesAdmin opts \<and> u_path (r_URL r) = ''/admin/routes'' then
        RoutesAdmin e (Some \<lparr>ho_cfg = cfg\<rparr>) r w s
      else if \<not> HasPrefix (u_path (r_URL r)) ''/'' then mux_NotFound r w s
      else if f_routesAdmin opts then Holder_ServeHTTP e r w s
      else Handler_ServeHTTP e h r w s)"
  by (simp add: ServeMux_ServeHTTP_def bad_star_def mux_Handler_def mux_handler_gateway
      served_mux_def Let_def)

lemma own_answers:
  assumes "in_step w" and "\<not> header_sent w"
  shows "\<exists>w'. bad_star r w s = (Returned, w', s) \<and> cn_status (conn_of w') = 400"
    and "\<exists>w'. mux_NotFound r w s = (Returned, w', s) \<and> cn_status (conn_of w') = 404"
    and "\<exists>w'. Redirect loc r w s = (Returned, w', s) \<and> cn_status (conn_of w') = 301"
  using assms
  by (auto simp: bad_star_def mux_NotFound_def Redirect_def conn_of_first_WriteHeader
      header_sent_conn conn_WriteHeader_def conn_Write_def Let_def)

definition leaves_table :: "handler \<Rightarrow> bool" where
  "leaves_table h = (\<forall>r w s. w_current (snd (snd (h r w s))) = w_current s)"

lemma leaves_table_keeps_good: "leaves_table h \<Longrightarrow> keeps_good cfg h"
  by (simp add: leaves_table_def keeps_goodI)

text \<open>The table in force after an answer.\<close>

definition table_after :: "options \<Rightarrow> route list \<Rightarrow> reaction \<Rightarrow> world \<Rightarrow> world \<Rightarrow> bool" where
  "table_after opts T a s s' =
     (next_table a T = T \<and> w_current s' = w_current s \<or>
      f_routesAdmin opts \<and> map_option (Routes \<circ> hd_router) (w_current s') = Some (next_table a T))"

lemma admin_shows:
  assumes "good_state cfg s" and "Holder_Routes s = Some T"
    and "in_step w" and "\<not> header_sent w" and "cn_body (conn_of w) = ''''"
    and "RoutesAdmin e (Some \<lparr>ho_cfg = cfg\<rparr>) r w s = (out, w', s')" and "f_routesAdmin opts"
  defines "a \<equiv> (if r_Method r = ''GET'' then Listed
         else if r_Method r = ''POST'' then
           (case posted_table (r_Body r) of
              None \<Rightarrow> Refused
            | Some rs \<Rightarrow> Installed (sort_routes rs))
         else NotAllowed ''GET, POST'')"
  shows "visible e T a r out (conn_of w') s s' \<and> table_after opts T a s s'"
proof (cases "r_Method r = ''POST''")
  case True
  note post = admin_post_effect [OF True assms(3,4,6)]
  show ?thesis
  proof (cases "posted_table (r_Body r)")
    case None
    with post True show ?thesis by (simp add: a_def itself_def table_after_def next_table_def)
  next
    case (Some rs)
    with post obtain cur where "out = Returned" "s' = s\<lparr>w_current := Some cur\<rparr>"
      "Holder_Routes s' = Some (sort_routes rs)" "cn_status (conn_of w') = 200"
      "cn_body (conn_of w') = table_text (sort_routes rs)"
      using assms(5) by auto
    with Some True assms(7) show ?thesis
      by (simp add: a_def itself_def table_after_def next_table_def Holder_Routes_def)
  qed
next
  case False
  note read = admin_reads_only [OF _ False assms(3,4,6)]
  with False assms(1,2,5) show ?thesis
    by (auto simp: a_def itself_def table_after_def next_table_def split: if_splits)
qed

text \<open>Every request to the mux shows the reaction of the abstract machine.\<close>

lemma mux_reacts:
  assumes "in_step w" and "\<not> header_sent w" and "cn_body (conn_of w) = ''''"
    and T: "serves_table cfg cur T"
    and now: "if f_routesAdmin opts then w_current s = Some cur \<and> Routes (hd_router cur) = T else h = cur"
    and "leaves_table promhttp"
    and run: "ServeMux_ServeHTTP (served_mux e promhttp opts cfg h) r w s = (out, w', s')"
  defines "a \<equiv> react opts (w_readyState s = 1) T (w_reqhdr s) r"
  shows "visible e T a r out (conn_of w') s s' \<and> table_after opts T a s s'"
proof -
  let ?path = "u_path (r_URL r)"
  have kept: "table_after opts T b s s'" if "w_current s' = w_current s" "next_table b T = T" for b
    using that by (simp add: table_after_def)
  note run = run [unfolded served_mux_cases]
  note probes = probes_run [OF assms(1,2), of r s isReady]
  note own = own_answers [OF assms(1,2)]
  consider (star) "r_RequestURI r = ''*''"
    | (unclean) "r_RequestURI r \<noteq> ''*''" "r_Method r \<noteq> ''CONNECT''" "cleanPath ?path \<noteq> ?path"
    | (served) "r_RequestURI r \<noteq> ''*''" "r_Method r \<noteq> ''CONNECT'' \<longrightarrow> cleanPath ?path = ?path"
    by blast
  then show ?thesis
  proof cases
    case star
    with run own(1) [of r s] show ?thesis by (auto simp: a_def react_def itself_def table_after_def next_table_def)
  next
    case unclean
    let ?loc = "url_String (empty_url\<lparr>u_path := cleanPath ?path, u_rawquery := u_rawquery (r_URL r)\<rparr>)"
    from unclean run own(3) [of ?loc r s] show ?thesis
      by (auto simp: a_def react_def itself_def table_after_def next_table_def)
  next
    case served
    consider (health) "?path = ''/healthz''" | (ready) "?path = ''/readyz''"
      | (metrics) "?path = ''/metrics''" "f_metricsEnabled opts"
      | (admin) "?path = ''/admin/routes''" "f_routesAdmin opts"
      | (rest) "?path \<noteq> ''/healthz''" "?path \<noteq> ''/readyz''"
          "\<not> (f_metricsEnabled opts \<and> ?path = ''/metrics'')"
          "\<not> (f_routesAdmin opts \<and> ?path = ''/admin/routes'')"
      by blast
    then show ?thesis
    proof cases
      case health
      with served run probes show ?thesis
        by (auto simp: a_def react_def itself_def table_after_def next_table_def split: if_splits)
    next
      case ready
      with served run probes show ?thesis
        by (auto simp: a_def react_def itself_def table_after_def next_table_def isReady_def
            split: if_splits)
    next
      case metrics
      with served run have "promhttp r w s = (out, w', s')" by auto
      then have "w_current s' = w_current s" using assms(6) by (metis leaves_table_def snd_conv)
      with served metrics show ?thesis
        by (auto simp: a_def react_def table_after_def next_table_def)
    next
      case admin
      with served run have "RoutesAdmin e (Some \<lparr>ho_cfg = cfg\<rparr>) r w s = (out, w', s')" by auto
      moreover have "good_state cfg s" "Holder_Routes s = Some T"
        using now admin(2) T by (simp_all add: good_state_def Holder_Routes_def serves_table_def)
      moreover have "a = (if r_Method r = ''GET'' then Listed
         else if r_Method r = ''POST'' then
           (case posted_table (r_Body r) of
              None \<Rightarrow> Refused
            | Some rs \<Rightarrow> Installed (sort_routes rs))
         else NotAllowed ''GET, POST'')"
        using served admin by (auto simp: a_def react_def)
      ultimately show ?thesis using admin_shows [OF _ _ assms(1-3) _ admin(2)] by simp
    next
      case rest
      show ?thesis
      proof (cases "HasPrefix ?path ''/''")
        case False
        with served rest run own(2) [of r s] show ?thesis
          by (auto simp: a_def react_def itself_def table_after_def next_table_def)
      next
        case True
        with served rest run now have h: "Handler_ServeHTTP e cur r w s = (out, w', s')"
          by (auto simp: Holder_ServeHTTP_def split: if_splits)
        then have "w_current s' = w_current s" using Handler_keeps_current by (metis snd_conv)
        with Handler_shows [OF T assms(1-3) h] served rest True kept show ?thesis
          by (auto simp: a_def react_def next_table_def split: option.splits)
      qed
    qed
  qed
qed

section \<open>The running gateway refines it\<close>

text \<open>Neither looks at the request's context.\<close>

definition asks_same :: "request \<Rightarrow> request \<Rightarrow> bool" where
  "asks_same r1 r =
     (r_Method r1 = r_Method r \<and> r_URL r1 = r_URL r \<and> r_Host r1 = r_Host r \<and>
      r_RequestURI r1 = r_RequestURI r \<and> r_Body r1 = r_Body r)"

lemma visible_cong:
  assumes "asks_same r1 r" and "w_sent s2 = w_sent s" and "w_sent s3 = w_sent s'"
  shows "visible e T a r1 out c s2 s3 = visible e T a r out c s s'"
  using assms by (cases a) (simp_all add: itself_def relayed_def asks_same_def)

lemma react_cong: "asks_same r1 r \<Longrightarrow> react opts b T rh r1 = react opts b T rh r"
  by (simp add: react_def asks_same_def Let_def)

lemma serves_tableI:
  assumes "good_handler cfg h" and "distinct (map Prefix T)"
    and "\<And>path x. Match (hd_router h) path = Some x \<longleftrightarrow> longest_match T path x"
  shows "serves_table cfg h T"
proof -
  have "Match (hd_router h) path = spec_match T path" for path
    using assms(3) spec_match_Some_iff [OF assms(2)]
    by (cases "spec_match T path") (metis not_Some_eq)+
  with assms(1) show ?thesis by (simp add: serves_table_def)
qed

lemma table_of_good:
  assumes "good_handler cfg cur"
  shows "serves_table cfg cur (Routes (hd_router cur))"
proof -
  have wf: "well_formed_router (hd_router cur)" using assms by (simp add: good_handler_def)
  then have "distinct (map Prefix (Routes (hd_router cur)))"
    by (simp add: well_formed_router_def valid_table_def Routes_def)
  with assms Match_well_formed_iff [OF wf] show ?thesis by (intro serves_tableI) simp_all
qed

text \<open>The handler that serves the table in force: the holder's, or the fixed one.\<close>

lemma table_in_force:
  assumes "wire e sdk promhttp opts s0 = (Inr g, s1)" and "inner_handler promhttp"
    and "leaves_table promhttp" and "serves g s1 s" and tr: "wired_tracer sdk opts = Inr tr"
    and h: "good_handler (build_cfg opts tr) h" and rt: "NewRouter (gw_routes g) = Inr (hd_router h)"
  obtains cur where "serves_table (build_cfg opts tr) cur (active_table opts g s)"
    and "if f_routesAdmin opts
      then w_current s = Some cur \<and> Routes (hd_router cur) = active_table opts g s else h = cur"
proof (cases "f_routesAdmin opts")
  case True
  have "keeps_good cfg promhttp" for cfg using assms(3) by (rule leaves_table_keeps_good)
  then obtain cur where now: "w_current s = Some cur" and good: "good_handler (build_cfg opts tr) cur"
    using serves_good [OF assms(1,2) _ assms(4)] tr True
    by (auto simp: good_state_def split: option.splits)
  show thesis
    by (rule that [of cur]) (use True now table_of_good [OF good] in \<open>simp_all add: active_table_def\<close>)
next
  case False
  have "distinct (map Prefix (gw_routes g))" using rt by (simp add: NewRouter_Inr_iff valid_table_def)
  with h Match_NewRouter_iff [OF rt] have "serves_table (build_cfg opts tr) h (gw_routes g)"
    by (intro serves_tableI) simp_all
  with False that show thesis by (simp add: active_table_def)
qed

lemma gateway_reacts:
  assumes "wire e sdk promhttp opts s0 = (Inr g, s1)" and "inner_handler promhttp"
    and "leaves_table promhttp" and "serves g s1 s"
    and "gw_handler g r (Conn new_conn) (s\<lparr>w_reqhdr := rh\<rparr>) = (out, w', s')"
  defines "a \<equiv> react opts (w_readyState s = 1) (active_table opts g s) rh r"
  shows "visible e (active_table opts g s) a r out (conn_of w') s s' \<and>
    active_table opts g s' = next_table a (active_table opts g s)"
proof -
  let ?T = "active_table opts g s"
  obtain rt tr h cid r1 w1 s2 w2 s3 where rt: "NewRouter (gw_routes g) = Inr rt"
    and tr: "wired_tracer sdk opts = Inr tr"
    and h: "good_handler (build_cfg opts tr) h" "hd_router h = rt"
    and m: "ServeMux_ServeHTTP (served_mux e promhttp opts (build_cfg opts tr) h) r1 w1 s2
      = (out, w2, s3)"
    and same: "same_request r1 (r\<lparr>r_ctx := (r_ctx r)\<lparr>cx_correlation := Some cid\<rparr>\<rparr>)"
      "same_start w1 s2 (on_header (hdr_Set CorrelationIDHeader cid) (Conn new_conn))
        (s\<lparr>w_reqhdr := rh\<rparr>)"
      "same_end w2 s3 w' s'"
    by (rule mux_run [OF assms(1,2,5)])
  let ?cfg = "build_cfg opts tr"
  obtain cur where cur: "serves_table ?cfg cur ?T"
    "if f_routesAdmin opts then w_current s = Some cur \<and> Routes (hd_router cur) = ?T else h = cur"
    by (rule table_in_force [OF assms(1-4) tr h(1) rt [folded h(2)]])
  have start: "in_step w1" "\<not> header_sent w1" "cn_body (conn_of w1) = ''''"
    "w_current s2 = w_current s" "w_sent s2 = w_sent s" "w_reqhdr s2 = rh"
    "w_readyState s2 = w_readyState s"
    using same(2) by (simp_all add: same_start_def new_conn_def)
  have stop: "conn_of w2 = conn_of w'" "w_sent s3 = w_sent s'" "w_current s3 = w_current s'"
    using same(3) by (simp_all add: same_end_def)
  have req: "asks_same r1 r" using same(1) by (simp add: same_request_def asks_same_def)
  have "visible e ?T a r1 out (conn_of w2) s2 s3 \<and> table_after opts ?T a s2 s3"
    using mux_reacts [OF start(1-3) cur(1) _ assms(3) m] cur(2) start(4) react_cong [OF req]
    by (simp add: a_def start(6,7))
  then have shown: "visible e ?T a r out (conn_of w') s s'" and after: "table_after opts ?T a s2 s3"
    using visible_cong [OF req start(5) stop(2)] stop(1) by simp_all
  from after have "active_table opts g s' = next_table a ?T"
    using start(4) stop(3)
    by (auto simp: table_after_def active_table_def split: option.splits)
  with shown show ?thesis ..
qed

text \<open>A whole run: the requests one after another, each with its header map, and the machine's
  table after them.\<close>

fun serve_all :: "gateway \<Rightarrow> (header \<times> request) list \<Rightarrow> world \<Rightarrow> world" where
  "serve_all g [] s = s"
| "serve_all g ((rh, r) # rs) s =
     (let (out, w', s') = gw_handler g r (Conn new_conn) (s\<lparr>w_reqhdr := rh\<rparr>) in serve_all g rs s')"

fun spec_run :: "options \<Rightarrow> (header \<times> request) list \<Rightarrow> route list \<Rightarrow> route list" where
  "spec_run opts [] table = table"
| "spec_run opts ((rh, r) # rs) table =
     spec_run opts rs (next_table (react opts True table rh r) table)"

lemma next_table_ready: "next_table (react opts b T rh r) T = next_table (react opts True T rh r) T"
  by (simp add: react_def next_table_def Let_def split: option.splits)

lemma serve_all_refines:
  assumes "wire e sdk promhttp opts s0 = (Inr g, s1)" and "inner_handler promhttp"
    and "leaves_table promhttp" and "serves g s1 s"
  shows "serves g s1 (serve_all g rs s) \<and>
    active_table opts g (serve_all g rs s) = spec_run opts rs (active_table opts g s)"
  using assms(4)
proof (induction rs arbitrary: s)
  case (Cons x rs)
  obtain rh r where x: "x = (rh, r)" by (cases x)
  obtain out w' s' where run: "gw_handler g r (Conn new_conn) (s\<lparr>w_reqhdr := rh\<rparr>) = (out, w', s')"
    by (metis prod_cases3)
  have "active_table opts g s' =
      next_table (react opts True (active_table opts g s) rh r) (active_table opts g s)"
    using gateway_reacts [OF assms(1-3) Cons.prems run] next_table_ready by metis
  moreover have "serves g s1 s'" using Cons.prems run by (rule serves_request)
  ultimately show ?case using Cons.IH [of s'] x run by simp
qed simp

text \<open>The table a wired gateway starts with holds the flags' routes.\<close>

lemma first_table:
  assumes "wire e sdk promhttp opts s0 = (Inr g, s1)"
  shows "mset (active_table opts g s1) = mset (gw_routes g)"
proof -
  obtain table rt h where "NewRouter table = Inr rt" "hd_router h = rt" "gw_routes g = table"
    "s1 = wired_world sdk opts h s0"
    by (rule wire_Inr [OF assms])
  then show ?thesis by (auto simp: active_table_def NewRouter_Inr_iff Routes_def)
qed

end
