(* ===== verification/Swap.thy ===== *)
theory Swap
  imports Holder
begin

text \<open>
  Concurrent use of the \<open>Holder\<close> of \<open>internal/proxy/holder.go\<close>. Threads are the goroutines
  that serve requests (\<open>ServeHTTP\<close> and \<open>Routes\<close> read \<open>current\<close> under the read lock) and those
  that run \<open>Replace\<close> (which build a handler first, then store it under the write lock). One
  step of the relation is one statement of a method; steps of different threads interleave in
  any order. The mutex is \<open>sync.RWMutex\<close> by its documentation: any number of readers or one
  writer, and from the moment a writer calls \<open>Lock\<close> no new reader gets in until that writer has
  had the lock and released it.
\<close>

section \<open>The mutex\<close>

text \<open>\<open>Lock\<close> has two moments: it is called, when no other writer is about, and from then on keeps
  new readers out (\<open>rw_pending\<close>); it returns when the readers that were inside have left.\<close>

record rwmutex =
  rw_readers :: nat
  rw_pending :: bool
  rw_writer :: bool

definition free_mutex :: rwmutex where
  "free_mutex = \<lparr>rw_readers = 0, rw_pending = False, rw_writer = False\<rparr>"

definition RLock :: "rwmutex \<Rightarrow> rwmutex option" where
  "RLock m =
     (if rw_pending m \<or> rw_writer m then None else Some (m\<lparr>rw_readers := Suc (rw_readers m)\<rparr>))"

definition RUnlock :: "rwmutex \<Rightarrow> rwmutex" where
  "RUnlock m = m\<lparr>rw_readers := rw_readers m - 1\<rparr>"

definition Lock_call :: "rwmutex \<Rightarrow> rwmutex option" where
  "Lock_call m = (if rw_pending m \<or> rw_writer m then None else Some (m\<lparr>rw_pending := True\<rparr>))"

definition Lock_return :: "rwmutex \<Rightarrow> rwmutex option" where
  "Lock_return m =
     (if rw_readers m \<noteq> 0 then None else Some (m\<lparr>rw_pending := False, rw_writer := True\<rparr>))"

definition Unlock :: "rwmutex \<Rightarrow> rwmutex" where
  "Unlock m = m\<lparr>rw_writer := False\<rparr>"

section \<open>Threads and steps\<close>

text \<open>Where a thread is: before or after each statement of the method it runs, with the local
  variable (\<open>cur\<close> or \<open>next\<close>) it holds.\<close>

datatype pc =
    Idle
  | RLocking
  | Loading
  | Loaded Handler
  | Using Handler
  | Locking Handler
  | Waiting Handler
  | Storing Handler
  | Stored

text \<open>\<open>hs_installed\<close> is a history variable: the handlers \<open>current\<close> has held, in order.\<close>

record hstate =
  hs_mu :: rwmutex
  hs_current :: Handler
  hs_installed :: "Handler list"
  hs_pc :: "nat \<Rightarrow> pc"

definition at_pc :: "nat \<Rightarrow> pc \<Rightarrow> hstate \<Rightarrow> hstate" where
  "at_pc t p s = s\<lparr>hs_pc := (hs_pc s)(t := p)\<rparr>"

text \<open>The flag says whether the step starts a method; all others continue one.\<close>

inductive hstep :: "BuildConfig \<Rightarrow> bool \<Rightarrow> nat \<Rightarrow> hstate \<Rightarrow> hstate \<Rightarrow> bool" for cfg where
  begin_read: "hs_pc s t = Idle \<Longrightarrow> hstep cfg True t s (at_pc t RLocking s)"
| rlock: "hs_pc s t = RLocking \<Longrightarrow> RLock (hs_mu s) = Some m \<Longrightarrow>
    hstep cfg False t s (at_pc t Loading (s\<lparr>hs_mu := m\<rparr>))"
| load: "hs_pc s t = Loading \<Longrightarrow> hstep cfg False t s (at_pc t (Loaded (hs_current s)) s)"
| runlock: "hs_pc s t = Loaded cur \<Longrightarrow>
    hstep cfg False t s (at_pc t (Using cur) (s\<lparr>hs_mu := RUnlock (hs_mu s)\<rparr>))"
| finish: "hs_pc s t = Using cur \<Longrightarrow> hstep cfg False t s (at_pc t Idle s)"
| begin_replace: "hs_pc s t = Idle \<Longrightarrow> NewRouter rs = Inr r \<Longrightarrow> New_with cfg (Some r) = Inr next \<Longrightarrow>
    hstep cfg True t s (at_pc t (Locking next) s)"
| replace_fails: "hs_pc s t = Idle \<Longrightarrow> New_with cfg router = Inl err \<Longrightarrow> hstep cfg True t s s"
| lock: "hs_pc s t = Locking next \<Longrightarrow> Lock_call (hs_mu s) = Some m \<Longrightarrow>
    hstep cfg False t s (at_pc t (Waiting next) (s\<lparr>hs_mu := m\<rparr>))"
| locked: "hs_pc s t = Waiting next \<Longrightarrow> Lock_return (hs_mu s) = Some m \<Longrightarrow>
    hstep cfg False t s (at_pc t (Storing next) (s\<lparr>hs_mu := m\<rparr>))"
| store: "hs_pc s t = Storing next \<Longrightarrow>
    hstep cfg False t s
      (at_pc t Stored (s\<lparr>hs_current := next, hs_installed := hs_installed s @ [next]\<rparr>))"
| unlock: "hs_pc s t = Stored \<Longrightarrow>
    hstep cfg False t s (at_pc t Idle (s\<lparr>hs_mu := Unlock (hs_mu s)\<rparr>))"

inductive_cases hstepE: "hstep cfg start t s s'"

definition initial :: "Handler \<Rightarrow> hstate" where
  "initial h = \<lparr>hs_mu = free_mutex, hs_current = h, hs_installed = [h],
                hs_pc = (\<lambda>t. Idle)\<rparr>"

inductive reachable :: "BuildConfig \<Rightarrow> hstate \<Rightarrow> bool" for cfg where
  init: "good_handler cfg h \<Longrightarrow> reachable cfg (initial h)"
| step: "reachable cfg s \<Longrightarrow> hstep cfg start t s s' \<Longrightarrow> reachable cfg s'"

section \<open>Invariants\<close>

primrec holds_read :: "pc \<Rightarrow> bool" where
  "holds_read Idle = False"
| "holds_read RLocking = False"
| "holds_read Loading = True"
| "holds_read (Loaded h) = True"
| "holds_read (Using h) = False"
| "holds_read (Locking h) = False"
| "holds_read (Waiting h) = False"
| "holds_read (Storing h) = False"
| "holds_read Stored = False"

primrec holds_write :: "pc \<Rightarrow> bool" where
  "holds_write Idle = False"
| "holds_write RLocking = False"
| "holds_write Loading = False"
| "holds_write (Loaded h) = False"
| "holds_write (Using h) = False"
| "holds_write (Locking h) = False"
| "holds_write (Waiting h) = False"
| "holds_write (Storing h) = True"
| "holds_write Stored = True"

primrec waits_write :: "pc \<Rightarrow> bool" where
  "waits_write Idle = False"
| "waits_write RLocking = False"
| "waits_write Loading = False"
| "waits_write (Loaded h) = False"
| "waits_write (Using h) = False"
| "waits_write (Locking h) = False"
| "waits_write (Waiting h) = True"
| "waits_write (Storing h) = False"
| "waits_write Stored = False"

definition readers :: "hstate \<Rightarrow> nat set" where
  "readers s = {t. holds_read (hs_pc s t)}"

definition writers :: "hstate \<Rightarrow> nat set" where
  "writers s = {t. holds_write (hs_pc s t)}"

definition waiters :: "hstate \<Rightarrow> nat set" where
  "waiters s = {t. waits_write (hs_pc s t)}"

text \<open>The mutex counts exactly the threads that are between its calls.\<close>

definition lock_inv :: "hstate \<Rightarrow> bool" where
  "lock_inv s =
     (finite (readers s) \<and> rw_readers (hs_mu s) = card (readers s) \<and>
      (if rw_writer (hs_mu s) then \<exists>t. writers s = {t} else writers s = {}) \<and>
      (if rw_pending (hs_mu s) then \<exists>t. waiters s = {t} else waiters s = {}) \<and>
      (rw_pending (hs_mu s) \<longrightarrow> \<not> rw_writer (hs_mu s)) \<and>
      (rw_writer (hs_mu s) \<longrightarrow> readers s = {}))"

lemma readers_at_pc [simp]:
  "readers (at_pc t p s) = (if holds_read p then insert t (readers s) else readers s - {t})"
  by (auto simp: readers_def at_pc_def)

lemma writers_at_pc [simp]:
  "writers (at_pc t p s) = (if holds_write p then insert t (writers s) else writers s - {t})"
  by (auto simp: writers_def at_pc_def)

lemma waiters_at_pc [simp]:
  "waiters (at_pc t p s) = (if waits_write p then insert t (waiters s) else waiters s - {t})"
  by (auto simp: waiters_def at_pc_def)

lemma at_pc_fields [simp]:
  "hs_mu (at_pc t p s) = hs_mu s" "hs_current (at_pc t p s) = hs_current s"
  "hs_installed (at_pc t p s) = hs_installed s" "hs_pc (at_pc t p s) u = (if u = t then p else hs_pc s u)"
  by (simp_all add: at_pc_def)

lemma readers_update [simp]:
  "readers (s\<lparr>hs_mu := m\<rparr>) = readers s" "writers (s\<lparr>hs_mu := m\<rparr>) = writers s"
  "readers (s\<lparr>hs_current := h, hs_installed := l\<rparr>) = readers s"
  "writers (s\<lparr>hs_current := h, hs_installed := l\<rparr>) = writers s"
  "waiters (s\<lparr>hs_mu := m\<rparr>) = waiters s"
  "waiters (s\<lparr>hs_current := h, hs_installed := l\<rparr>) = waiters s"
  by (simp_all add: readers_def writers_def waiters_def)

lemma in_readers: "t \<in> readers s \<longleftrightarrow> holds_read (hs_pc s t)"
  by (simp add: readers_def)

lemma in_writers: "t \<in> writers s \<longleftrightarrow> holds_write (hs_pc s t)"
  by (simp add: writers_def)

lemma in_waiters: "t \<in> waiters s \<longleftrightarrow> waits_write (hs_pc s t)"
  by (simp add: waiters_def)

lemma lock_inv_step:
  assumes "hstep cfg start t s s'" and "lock_inv s"
  shows "lock_inv s'"
proof -
  have rd: "t \<in> readers s \<longleftrightarrow> holds_read (hs_pc s t)" by (rule in_readers)
  have wr: "t \<in> writers s \<longleftrightarrow> holds_write (hs_pc s t)" "t \<in> waiters s \<longleftrightarrow> waits_write (hs_pc s t)"
    by (rule in_writers, rule in_waiters)
  note inv = assms(2) [unfolded lock_inv_def]
  from assms(1) show ?thesis
  proof cases
    case (runlock cur)
    then show ?thesis using inv rd wr by (auto simp: lock_inv_def RUnlock_def)
  next
    case (unlock)
    then show ?thesis using inv rd wr by (auto simp: lock_inv_def Unlock_def split: if_splits)
  next
    case (lock nxt m)
    then show ?thesis using inv rd wr by (auto simp: lock_inv_def Lock_call_def split: if_splits)
  next
    case (locked nxt m)
    then show ?thesis using inv rd wr by (auto simp: lock_inv_def Lock_return_def split: if_splits)
  next
    case (rlock m)
    then show ?thesis using inv rd wr by (auto simp: lock_inv_def RLock_def split: if_splits)
  qed (use inv rd wr in \<open>auto simp: lock_inv_def insert_absorb split: if_splits\<close>)
qed

lemma lock_inv_reachable: "reachable cfg s \<Longrightarrow> lock_inv s"
proof (induction rule: reachable.induct)
  case (init h)
  then show ?case
    by (simp add: lock_inv_def initial_def free_mutex_def readers_def writers_def waiters_def)
next
  case (step s start t s')
  then show ?case using lock_inv_step by blast
qed

text \<open>What each thread's local variable holds.\<close>

definition local_ok :: "BuildConfig \<Rightarrow> hstate \<Rightarrow> pc \<Rightarrow> bool" where
  "local_ok cfg s p =
     (case p of
        Loaded h \<Rightarrow> h = hs_current s
      | Using h \<Rightarrow> h \<in> set (hs_installed s)
      | Locking h \<Rightarrow> good_handler cfg h
      | Waiting h \<Rightarrow> good_handler cfg h
      | Storing h \<Rightarrow> good_handler cfg h
      | _ \<Rightarrow> True)"

definition table_inv :: "BuildConfig \<Rightarrow> hstate \<Rightarrow> bool" where
  "table_inv cfg s =
     (hs_installed s \<noteq> [] \<and> hs_current s = last (hs_installed s) \<and>
      (\<forall>h \<in> set (hs_installed s). good_handler cfg h) \<and> (\<forall>t. local_ok cfg s (hs_pc s t)))"

lemma local_ok_simps [simp]:
  "local_ok cfg s Idle" "local_ok cfg s RLocking" "local_ok cfg s Loading" "local_ok cfg s Stored"
  "local_ok cfg s (Loaded h) \<longleftrightarrow> h = hs_current s"
  "local_ok cfg s (Using h) \<longleftrightarrow> h \<in> set (hs_installed s)"
  "local_ok cfg s (Locking h) \<longleftrightarrow> good_handler cfg h"
  "local_ok cfg s (Storing h) \<longleftrightarrow> good_handler cfg h"
  "local_ok cfg s (Waiting h) \<longleftrightarrow> good_handler cfg h"
  by (simp_all add: local_ok_def)

lemma local_ok_at_pc [simp]: "local_ok cfg (at_pc t p s) q = local_ok cfg s q"
  by (simp add: local_ok_def at_pc_def split: pc.splits)

lemma local_ok_mu [simp]: "local_ok cfg (s\<lparr>hs_mu := m\<rparr>) q = local_ok cfg s q"
  by (simp add: local_ok_def split: pc.splits)

text \<open>While a thread stores, no thread holds a loaded value: the mutex keeps them out.\<close>

lemma storing_excludes_loaded:
  assumes "lock_inv s" and "hs_pc s t = Storing next"
  shows "hs_pc s u \<noteq> Loaded h"
proof
  assume "hs_pc s u = Loaded h"
  then have "u \<in> readers s" by (simp add: in_readers)
  moreover have "t \<in> writers s" using assms(2) by (simp add: in_writers)
  ultimately show False using assms(1) by (auto simp: lock_inv_def split: if_splits)
qed

lemma local_ok_store:
  assumes "local_ok cfg s p" and "\<And>h. p \<noteq> Loaded h"
  shows "local_ok cfg (s\<lparr>hs_current := n, hs_installed := hs_installed s @ [n]\<rparr>) p"
  using assms by (cases p) (auto simp: local_ok_def)

lemma table_inv_step:
  assumes "hstep cfg start t s s'" and "lock_inv s" and "table_inv cfg s"
  shows "table_inv cfg s'"
  using assms(1)
proof cases
  case (store nxt)
  have "local_ok cfg (s\<lparr>hs_current := nxt, hs_installed := hs_installed s @ [nxt]\<rparr>) (hs_pc s u)" for u
    using assms(3) storing_excludes_loaded [OF assms(2) store(3)]
    by (intro local_ok_store) (auto simp: table_inv_def)
  moreover have "good_handler cfg nxt"
    using assms(3) store(3) by (metis local_ok_simps(8) table_inv_def)
  ultimately show ?thesis using assms(3) store by (simp add: table_inv_def)
next
  case (begin_replace rs r nxt)
  then have "good_handler cfg nxt"
    using New_with_Inr_good NewRouter_well_formed by blast
  then show ?thesis using assms(3) begin_replace by (simp add: table_inv_def)
next
  case (runlock cur)
  then have "cur = hs_current s" using assms(3) by (metis local_ok_simps(5) table_inv_def)
  then show ?thesis using assms(3) runlock by (simp add: table_inv_def)
next
  case (lock nxt m)
  then have "good_handler cfg nxt" using assms(3) by (metis local_ok_simps(7) table_inv_def)
  then show ?thesis using assms(3) lock by (simp add: table_inv_def)
next
  case (locked nxt m)
  then have "good_handler cfg nxt" using assms(3) by (metis local_ok_simps(9) table_inv_def)
  then show ?thesis using assms(3) locked by (simp add: table_inv_def)
qed (use assms(3) in \<open>auto simp: table_inv_def\<close>)

lemma table_inv_reachable: "reachable cfg s \<Longrightarrow> table_inv cfg s"
proof (induction rule: reachable.induct)
  case (init h)
  then show ?case by (simp add: table_inv_def initial_def)
next
  case (step s start t s')
  then show ?case using table_inv_step lock_inv_reachable by blast
qed

section \<open>Progress\<close>

text \<open>The number of statements a thread has left in its method.\<close>

primrec steps_left :: "pc \<Rightarrow> nat" where
  "steps_left Idle = 0"
| "steps_left RLocking = 4"
| "steps_left Loading = 3"
| "steps_left (Loaded h) = 2"
| "steps_left (Using h) = 1"
| "steps_left (Locking h) = 4"
| "steps_left (Waiting h) = 3"
| "steps_left (Storing h) = 2"
| "steps_left Stored = 1"

text \<open>A thread that holds the lock can go on; when none does, the writer that waits gets it, and
  when none waits, any thread that asks for it.\<close>

lemma holder_progress:
  assumes "holds_write (hs_pc s t) \<or> holds_read (hs_pc s t)"
  shows "\<exists>s'. hstep cfg False t s s'"
  using assms by (cases "hs_pc s t") (auto intro: load runlock store unlock)

lemma waiter_progress:
  assumes "waits_write (hs_pc s t)" and "rw_readers (hs_mu s) = 0"
  shows "\<exists>s'. hstep cfg False t s s'"
proof -
  obtain h where h: "hs_pc s t = Waiting h" using assms(1) by (cases "hs_pc s t") simp_all
  have "Lock_return (hs_mu s) = Some ((hs_mu s)\<lparr>rw_pending := False, rw_writer := True\<rparr>)"
    using assms(2) by (simp add: Lock_return_def)
  from locked [OF h this] show ?thesis by blast
qed

lemma asking_progress:
  assumes "hs_pc s t \<in> insert RLocking (range Locking)"
    and "\<not> rw_pending (hs_mu s)" and "\<not> rw_writer (hs_mu s)"
  shows "\<exists>s'. hstep cfg False t s s'"
proof -
  have free: "RLock (hs_mu s) = Some ((hs_mu s)\<lparr>rw_readers := Suc (rw_readers (hs_mu s))\<rparr>)"
    "Lock_call (hs_mu s) = Some ((hs_mu s)\<lparr>rw_pending := True\<rparr>)"
    using assms(2,3) by (simp_all add: RLock_def Lock_call_def)
  from assms(1) consider "hs_pc s t = RLocking" | h where "hs_pc s t = Locking h" by blast
  then show ?thesis
  proof cases
    case 1
    from rlock [OF this free(1)] show ?thesis by blast
  next
    case (2 h)
    from lock [OF this free(2)] show ?thesis by blast
  qed
qed

lemma internal_step_effect:
  assumes "hstep cfg False t s s'"
  shows "Suc (steps_left (hs_pc s' t)) = steps_left (hs_pc s t)" and "u \<noteq> t \<Longrightarrow> hs_pc s' u = hs_pc s u"
  using assms by (auto elim!: hstep.cases)

section \<open>What one call sees\<close>

text \<open>Runs that start when thread \<open>t\<close> has entered a reading method and in which it starts no
  other one; other threads do what they like.\<close>

inductive during_call :: "BuildConfig \<Rightarrow> nat \<Rightarrow> hstate \<Rightarrow> hstate \<Rightarrow> bool" for cfg t where
  entered: "hs_pc s t = RLocking \<Longrightarrow> during_call cfg t s s"
| goes_on: "during_call cfg t s s1 \<Longrightarrow> hstep cfg start u s1 s2 \<Longrightarrow> u = t \<Longrightarrow> \<not> start \<Longrightarrow>
    during_call cfg t s s2"
| others: "during_call cfg t s s1 \<Longrightarrow> hstep cfg start u s1 s2 \<Longrightarrow> u \<noteq> t \<Longrightarrow> during_call cfg t s s2"

text \<open>The handlers that were current at some moment since state \<open>s\<close>.\<close>

definition current_since :: "hstate \<Rightarrow> hstate \<Rightarrow> Handler set" where
  "current_since s s' = set (drop (length (hs_installed s) - 1) (hs_installed s'))"

definition seen_ok :: "Handler set \<Rightarrow> pc \<Rightarrow> bool" where
  "seen_ok H p =
     (case p of
        Idle \<Rightarrow> True | RLocking \<Rightarrow> True | Loading \<Rightarrow> True
      | Loaded h \<Rightarrow> h \<in> H | Using h \<Rightarrow> h \<in> H
      | _ \<Rightarrow> False)"

lemma installed_grows:
  "hstep cfg start t s s' \<Longrightarrow> \<exists>l. hs_installed s' = hs_installed s @ l"
  by (auto elim!: hstep.cases)

lemma seen_ok_mono: "seen_ok H p \<Longrightarrow> H \<subseteq> H' \<Longrightarrow> seen_ok H' p"
  by (auto simp: seen_ok_def split: pc.splits)

lemma last_in_drop: "n < length l \<Longrightarrow> last l \<in> set (drop n l)"
  by (metis drop_eq_Nil last_drop last_in_set not_le)

lemma reader_step:
  assumes "hstep cfg False t s s'" and "seen_ok H (hs_pc s t)" and "hs_current s \<in> H"
  shows "seen_ok H (hs_pc s' t)"
  using assms by (auto simp: seen_ok_def elim!: hstep.cases)

lemma other_step: "hstep cfg start u s s' \<Longrightarrow> u \<noteq> t \<Longrightarrow> hs_pc s' t = hs_pc s t"
  by (auto elim!: hstep.cases)

lemma current_since_last:
  assumes "reachable cfg s" and "reachable cfg s'" and "hs_installed s' = hs_installed s @ l"
  shows "hs_current s' \<in> current_since s s'"
proof -
  have "hs_current s' = last (hs_installed s')" "hs_installed s \<noteq> []"
    using table_inv_reachable [OF assms(1)] table_inv_reachable [OF assms(2)]
    by (simp_all add: table_inv_def)
  moreover from this(2) assms(3) have "length (hs_installed s) - 1 < length (hs_installed s')"
    by (cases "hs_installed s") auto
  ultimately show ?thesis by (simp add: current_since_def last_in_drop)
qed

lemma during_call_facts:
  assumes "during_call cfg t s s'" and "reachable cfg s"
  shows "reachable cfg s' \<and> (\<exists>l. hs_installed s' = hs_installed s @ l) \<and>
    hs_current s' \<in> current_since s s' \<and> seen_ok (current_since s s') (hs_pc s' t)"
  using assms
proof (induction rule: during_call.induct)
  case (entered s)
  then show ?case using current_since_last [of cfg s s "[]"] by (simp add: seen_ok_def)
next
  case (goes_on s s1 start u s2)
  note IH = goes_on.IH [OF goes_on.prems]
  from IH goes_on.hyps(2) have r2: "reachable cfg s2" by (blast intro: reachable.step)
  obtain l where l: "hs_installed s1 = hs_installed s @ l" using IH by blast
  obtain l' where l': "hs_installed s2 = hs_installed s1 @ l'"
    using installed_grows [OF goes_on.hyps(2)] by blast
  have sub: "current_since s s1 \<subseteq> current_since s s2" by (simp add: current_since_def l')
  have cur: "hs_current s2 \<in> current_since s s2"
    using current_since_last [OF goes_on.prems r2, of "l @ l'"] l l' by simp
  have "seen_ok (current_since s s1) (hs_pc s2 t)"
    using reader_step [of cfg t s1 s2] goes_on.hyps IH by simp
  with seen_ok_mono sub cur r2 l l' show ?case by auto
next
  case (others s s1 start u s2)
  note IH = others.IH [OF others.prems]
  from IH others.hyps(2) have r2: "reachable cfg s2" by (blast intro: reachable.step)
  obtain l where l: "hs_installed s1 = hs_installed s @ l" using IH by blast
  obtain l' where l': "hs_installed s2 = hs_installed s1 @ l'"
    using installed_grows [OF others.hyps(2)] by blast
  have sub: "current_since s s1 \<subseteq> current_since s s2" by (simp add: current_since_def l')
  have cur: "hs_current s2 \<in> current_since s s2"
    using current_since_last [OF others.prems r2, of "l @ l'"] l l' by simp
  have "hs_pc s2 t = hs_pc s1 t" using others.hyps by (intro other_step) simp_all
  with seen_ok_mono [OF _ sub] IH cur r2 l l' show ?case by auto
qed

section \<open>Properties\<close>

text \<open>A run for the witnesses: thread 7 enters \<open>ServeHTTP\<close>, locks, loads and unlocks.\<close>

definition demo_entered :: hstate where
  "demo_entered = at_pc 7 RLocking (initial demo_gateway)"

definition demo_loading :: hstate where
  "demo_loading = at_pc 7 Loading (demo_entered\<lparr>hs_mu := free_mutex\<lparr>rw_readers := 1\<rparr>\<rparr>)"

definition demo_using :: hstate where
  "demo_using =
     (let s = at_pc 7 (Loaded demo_gateway) demo_loading in
      at_pc 7 (Using demo_gateway) (s\<lparr>hs_mu := RUnlock (hs_mu s)\<rparr>))"

lemma demo_entered_reachable: "reachable demo_cfg demo_entered"
proof -
  have "hstep demo_cfg True 7 (initial demo_gateway) demo_entered"
    unfolding demo_entered_def by (rule begin_read) (simp add: initial_def)
  with reachable.init [OF demo_gateway_good(1)] show ?thesis by (rule reachable.step)
qed

lemma demo_run: "during_call demo_cfg 7 demo_entered demo_using"
proof -
  have "hs_pc demo_entered 7 = RLocking" by (simp add: demo_entered_def)
  then have c0: "during_call demo_cfg 7 demo_entered demo_entered" by (rule entered)
  have "hstep demo_cfg False 7 demo_entered demo_loading"
    unfolding demo_loading_def
    by (rule rlock) (simp_all add: demo_entered_def RLock_def initial_def free_mutex_def)
  with c0 have c1: "during_call demo_cfg 7 demo_entered demo_loading" by (rule goes_on) simp_all
  have "hstep demo_cfg False 7 demo_loading (at_pc 7 (Loaded (hs_current demo_loading)) demo_loading)"
    by (rule load) (simp add: demo_loading_def)
  moreover have "hs_current demo_loading = demo_gateway"
    by (simp add: demo_loading_def demo_entered_def initial_def)
  ultimately have c2: "during_call demo_cfg 7 demo_entered
      (at_pc 7 (Loaded demo_gateway) demo_loading)"
    using goes_on [OF c1, of False 7] by simp
  have "hstep demo_cfg False 7 (at_pc 7 (Loaded demo_gateway) demo_loading) demo_using"
    unfolding demo_using_def Let_def by (rule runlock) simp
  with c2 show ?thesis by (rule goes_on) simp_all
qed

text \<open>C7: a reading call is linearizable: the handler a request is served with (or \<open>Routes\<close>
  reads) was fully built with the holder's options and was the current one at some moment
  between the call's start and its use, however many replacements run at the same time.\<close>

theorem served_by_current_handler:
  assumes "reachable cfg s" and "during_call cfg t s s'" and "hs_pc s' t = Using h"
  shows "h \<in> current_since s s' \<and> good_handler cfg h"
proof -
  have f: "seen_ok (current_since s s') (Using h)" "reachable cfg s'"
    using during_call_facts [OF assms(2,1)] assms(3) by auto
  then have "local_ok cfg s' (Using h)"
    using table_inv_reachable [OF f(2)] assms(3) by (metis table_inv_def)
  then show ?thesis
    using f table_inv_reachable [OF f(2)] by (simp add: seen_ok_def table_inv_def)
qed

theorem served_by_current_handler_witness:
  "demo_gateway \<in> current_since demo_entered demo_using"
proof -
  have "hs_pc demo_using 7 = Using demo_gateway" by (simp add: demo_using_def Let_def)
  then show ?thesis
    using served_by_current_handler [OF demo_entered_reachable demo_run] by simp
qed

text \<open>The write to \<open>current\<close> never overlaps another access to it: while a thread stores, no
  other thread is inside the mutex.\<close>

theorem store_is_exclusive:
  assumes "reachable cfg s" and "holds_write (hs_pc s t)" and "u \<noteq> t"
  shows "\<not> holds_read (hs_pc s u) \<and> \<not> holds_write (hs_pc s u)"
proof -
  have inv: "lock_inv s" using assms(1) by (rule lock_inv_reachable)
  have "t \<in> writers s" using assms(2) by (simp add: in_writers)
  then have "writers s = {t}" "readers s = {}" using inv by (auto simp: lock_inv_def split: if_splits)
  then show ?thesis using assms(3) in_readers in_writers by blast
qed

text \<open>For its witness: thread 3 replaces the table.\<close>

definition demo_waiting :: hstate where
  "demo_waiting = at_pc 3 (Waiting demo_gateway)
     ((at_pc 3 (Locking demo_gateway) demo_entered)\<lparr>hs_mu := free_mutex\<lparr>rw_pending := True\<rparr>\<rparr>)"

definition demo_storing :: hstate where
  "demo_storing = at_pc 3 (Storing demo_gateway) (demo_waiting\<lparr>hs_mu := free_mutex\<lparr>rw_writer := True\<rparr>\<rparr>)"

lemma demo_waiting_reachable: "reachable demo_cfg demo_waiting"
proof -
  have "New_with demo_cfg (Some \<lparr>routes = rev demo_routes\<rparr>) = Inr demo_gateway"
    using demo_gateway_good by (simp add: good_handler_def)
  with demo_routes_accepted
  have "hstep demo_cfg True 3 demo_entered (at_pc 3 (Locking demo_gateway) demo_entered)"
    by (intro begin_replace) (simp_all add: demo_entered_def initial_def)
  with demo_entered_reachable have "reachable demo_cfg (at_pc 3 (Locking demo_gateway) demo_entered)"
    by (rule reachable.step)
  moreover have "hstep demo_cfg False 3 (at_pc 3 (Locking demo_gateway) demo_entered) demo_waiting"
    unfolding demo_waiting_def
    by (rule lock) (simp_all add: demo_entered_def Lock_call_def initial_def free_mutex_def)
  ultimately show ?thesis by (rule reachable.step)
qed

lemma demo_storing_reachable: "reachable demo_cfg demo_storing"
proof -
  have "hstep demo_cfg False 3 demo_waiting demo_storing"
    unfolding demo_storing_def
    by (rule locked) (simp_all add: demo_waiting_def Lock_return_def free_mutex_def)
  with demo_waiting_reachable show ?thesis by (rule reachable.step)
qed

theorem store_is_exclusive_witness:
  "holds_write (hs_pc demo_storing 3) \<and> \<not> holds_read (hs_pc demo_storing 7)"
proof -
  have "holds_write (hs_pc demo_storing 3)" by (simp add: demo_storing_def)
  with store_is_exclusive [OF demo_storing_reachable this, of 7] show ?thesis by simp
qed

text \<open>The holder cannot deadlock, although a waiting writer keeps readers out: as long as some call
  is unfinished and not yet (or no longer) past the mutex, some thread can take a step that
  brings its own call nearer to its end and leaves the others where they are; and that step is
  not the end of a call that has its handler, so nobody waits for a backend here.\<close>

theorem holder_no_deadlock:
  assumes "reachable cfg s" and "hs_pc s t \<noteq> Idle" and "\<And>h. hs_pc s t \<noteq> Using h"
  shows "\<exists>u s'. hstep cfg False u s s' \<and> (\<forall>h. hs_pc s u \<noteq> Using h) \<and>
    Suc (steps_left (hs_pc s' u)) = steps_left (hs_pc s u) \<and> (\<forall>v. v \<noteq> u \<longrightarrow> hs_pc s' v = hs_pc s v)"
proof -
  have inv: "lock_inv s" using assms(1) by (rule lock_inv_reachable)
  have "\<exists>u s'. hstep cfg False u s s' \<and> (\<forall>h. hs_pc s u \<noteq> Using h)"
  proof (cases "\<exists>u. holds_write (hs_pc s u) \<or> holds_read (hs_pc s u)")
    case True
    then obtain u where u: "holds_write (hs_pc s u) \<or> holds_read (hs_pc s u)" ..
    then have "\<forall>h. hs_pc s u \<noteq> Using h" by auto
    with holder_progress [OF u] show ?thesis by blast
  next
    case nobody: False
    then have "readers s = {}" "writers s = {}" by (auto simp: readers_def writers_def)
    with inv have free: "\<not> rw_writer (hs_mu s)" "rw_readers (hs_mu s) = 0"
      by (auto simp: lock_inv_def split: if_splits)
    show ?thesis
    proof (cases "\<exists>u. waits_write (hs_pc s u)")
      case True
      then obtain u where u: "waits_write (hs_pc s u)" ..
      then have "\<forall>h. hs_pc s u \<noteq> Using h" by auto
      with waiter_progress [OF u free(2)] show ?thesis by blast
    next
      case False
      then have "waiters s = {}" by (simp add: waiters_def)
      with inv have "\<not> rw_pending (hs_mu s)" by (auto simp: lock_inv_def split: if_splits)
      moreover have "hs_pc s t \<in> insert RLocking (range Locking)"
      proof -
        have "\<not> holds_write (hs_pc s t)" "\<not> holds_read (hs_pc s t)" "\<not> waits_write (hs_pc s t)"
          using nobody False by blast+
        moreover have "\<forall>h. hs_pc s t \<noteq> Using h" using assms(3) by blast
        ultimately show ?thesis using assms(2) by (cases "hs_pc s t") simp_all
      qed
      ultimately show ?thesis using asking_progress free(1) assms(3) by blast
    qed
  qed
  then show ?thesis using internal_step_effect by blast
qed

theorem holder_no_deadlock_witness:
  "\<exists>u s'. hstep demo_cfg False u demo_waiting s'"
proof -
  have "hs_pc demo_waiting 7 = RLocking" by (simp add: demo_waiting_def demo_entered_def)
  then have "hs_pc demo_waiting 7 \<noteq> Idle" "\<And>h. hs_pc demo_waiting 7 \<noteq> Using h" by simp_all
  from holder_no_deadlock [OF demo_waiting_reachable this] show ?thesis by blast
qed

end
