(* ===== verification/Overlap.thy ===== *)
theory Overlap
  imports Abstract Swap
begin

text \<open>
  Requests that overlap, with the route table replaced between them: the calls that a proxied
  request and the two methods of \<open>/admin/routes\<close> (\<open>internal/httpapi/routes_admin.go\<close>) make on
  the holder, statement by statement as in \<open>Swap\<close>, any number of requests at a time. A POST
  makes two calls, \<open>Replace\<close> and then \<open>Routes\<close> for its answer, and others can come between. The
  step \<open>answer\<close>, from the handler in hand to the end of the request, is the backend's and the
  client's as much as the gateway's: it may never come, and no property counts on it.
\<close>

section \<open>Requests as threads\<close>

text \<open>What a thread is doing. The number is a history variable: how many handlers the holder had
  held when the request came.\<close>

datatype task =
    Free
  | Proxying nat request
  | Listing nat
  | Replacing nat "route list"
  | Confirming nat "route list"

record ostate =
  os_holder :: hstate
  os_task :: "nat \<Rightarrow> task"

definition arrived :: "ostate \<Rightarrow> nat" where
  "arrived s = length (hs_installed (os_holder s))"

definition moves :: "nat \<Rightarrow> task \<Rightarrow> hstate \<Rightarrow> ostate \<Rightarrow> ostate" where
  "moves t k h s = s\<lparr>os_holder := h, os_task := (os_task s)(t := k)\<rparr>"

inductive ostep :: "BuildConfig \<Rightarrow> nat \<Rightarrow> ostate \<Rightarrow> ostate \<Rightarrow> bool" for cfg where
  proxied: "os_task s t = Free \<Longrightarrow> hs_pc (os_holder s) t = Idle \<Longrightarrow>
    ostep cfg t s (moves t (Proxying (arrived s) r) (at_pc t RLocking (os_holder s)) s)"
| get: "os_task s t = Free \<Longrightarrow> hs_pc (os_holder s) t = Idle \<Longrightarrow>
    ostep cfg t s (moves t (Listing (arrived s)) (at_pc t RLocking (os_holder s)) s)"
| post_refused: "os_task s t = Free \<Longrightarrow> posted_table body = None \<Longrightarrow> ostep cfg t s s"
| post: "os_task s t = Free \<Longrightarrow> hs_pc (os_holder s) t = Idle \<Longrightarrow> posted_table body = Some rs \<Longrightarrow>
    NewRouter rs = Inr r \<Longrightarrow> New_with cfg (Some r) = Inr next \<Longrightarrow>
    ostep cfg t s (moves t (Replacing (arrived s) rs) (at_pc t (Locking next) (os_holder s)) s)"
| inner: "hstep cfg False t (os_holder s) h \<Longrightarrow> (\<And>cur. hs_pc (os_holder s) t \<noteq> Using cur) \<Longrightarrow>
    ostep cfg t s (moves t (os_task s t) h s)"
| confirm: "os_task s t = Replacing n rs \<Longrightarrow> hs_pc (os_holder s) t = Idle \<Longrightarrow>
    ostep cfg t s (moves t (Confirming n rs) (at_pc t RLocking (os_holder s)) s)"
| answer: "hs_pc (os_holder s) t = Using cur \<Longrightarrow>
    ostep cfg t s (moves t Free (at_pc t Idle (os_holder s)) s)"

inductive_cases ostepE: "ostep cfg t s s'"

definition ostart :: "Handler \<Rightarrow> ostate" where
  "ostart h = \<lparr>os_holder = initial h, os_task = (\<lambda>t. Free)\<rparr>"

inductive osteps :: "BuildConfig \<Rightarrow> ostate \<Rightarrow> ostate \<Rightarrow> bool" for cfg where
  none: "osteps cfg s s"
| more: "osteps cfg s s1 \<Longrightarrow> ostep cfg t s1 s2 \<Longrightarrow> osteps cfg s s2"

definition oreach :: "BuildConfig \<Rightarrow> ostate \<Rightarrow> bool" where
  "oreach cfg s = (\<exists>h. good_handler cfg h \<and> osteps cfg (ostart h) s)"

lemma moves_sel [simp]:
  "os_holder (moves t k h s) = h" "os_task (moves t k h s) u = (if u = t then k else os_task s u)"
  by (simp_all add: moves_def)

lemma osteps_trans: "osteps cfg s s1 \<Longrightarrow> osteps cfg s1 s2 \<Longrightarrow> osteps cfg s s2"
  by (rotate_tac, induction rule: osteps.induct) (auto intro: osteps.more)

lemma oreach_more: "oreach cfg s \<Longrightarrow> osteps cfg s s' \<Longrightarrow> oreach cfg s'"
  unfolding oreach_def using osteps_trans by blast

section \<open>The holder underneath\<close>

text \<open>Every step is one of the holder's, or leaves it alone: what \<open>Swap\<close> shows holds here.\<close>

lemma ostep_holder:
  assumes "ostep cfg t s s'"
  shows "os_holder s' = os_holder s \<or> (\<exists>start. hstep cfg start t (os_holder s) (os_holder s'))"
  using assms
proof cases
  case (post body rs r nxt)
  then show ?thesis by (auto intro: begin_replace)
qed (auto intro: begin_read finish)

lemma osteps_holder:
  assumes "osteps cfg s s'" and "reachable cfg (os_holder s)"
  shows "reachable cfg (os_holder s') \<and> (\<exists>l. hs_installed (os_holder s') = hs_installed (os_holder s) @ l)"
  using assms
proof (induction rule: osteps.induct)
  case (more s s1 t s2)
  then obtain l where r: "reachable cfg (os_holder s1)"
    and l: "hs_installed (os_holder s1) = hs_installed (os_holder s) @ l" by blast
  from ostep_holder [OF more.hyps(2)] show ?case
  proof
    assume "\<exists>start. hstep cfg start t (os_holder s1) (os_holder s2)"
    then obtain start where h: "hstep cfg start t (os_holder s1) (os_holder s2)" ..
    with r installed_grows [OF h] l show ?thesis by (metis append.assoc reachable.step)
  qed (use r l in simp)
qed simp

lemma oreach_holder: "oreach cfg s \<Longrightarrow> reachable cfg (os_holder s)"
  unfolding oreach_def using osteps_holder [of cfg "ostart _" s] reachable.init
  by (auto simp: ostart_def)

section \<open>What a request has seen\<close>

definition holds_table :: "route list \<Rightarrow> Handler \<Rightarrow> bool" where
  "holds_table rs h = (Routes (hd_router h) = sort_routes rs)"

text \<open>A reading call that can only see handlers from number \<open>i\<close> on.\<close>

definition sees_from :: "nat \<Rightarrow> Handler list \<Rightarrow> pc \<Rightarrow> bool" where
  "sees_from i hs p =
     (i < length hs \<and>
      (case p of
         RLocking \<Rightarrow> True | Loading \<Rightarrow> True
       | Loaded h \<Rightarrow> h \<in> set (drop i hs) | Using h \<Rightarrow> h \<in> set (drop i hs)
       | _ \<Rightarrow> False))"

definition put_since :: "nat \<Rightarrow> route list \<Rightarrow> Handler list \<Rightarrow> nat \<Rightarrow> bool" where
  "put_since n rs hs i = (n \<le> i \<and> i < length hs \<and> holds_table rs (hs ! i))"

definition task_ok :: "Handler list \<Rightarrow> pc \<Rightarrow> task \<Rightarrow> bool" where
  "task_ok hs p k =
     (case k of
        Free \<Rightarrow> p = Idle
      | Proxying n r \<Rightarrow> 0 < n \<and> sees_from (n - 1) hs p
      | Listing n \<Rightarrow> 0 < n \<and> sees_from (n - 1) hs p
      | Replacing n rs \<Rightarrow> n \<le> length hs \<and>
          (case p of
             Locking h \<Rightarrow> holds_table rs h
           | Waiting h \<Rightarrow> holds_table rs h
           | Storing h \<Rightarrow> holds_table rs h
           | Stored \<Rightarrow> \<exists>i. put_since n rs hs i
           | Idle \<Rightarrow> \<exists>i. put_since n rs hs i
           | _ \<Rightarrow> False)
      | Confirming n rs \<Rightarrow> \<exists>i. put_since n rs hs i \<and> sees_from i hs p)"

definition tasks_inv :: "ostate \<Rightarrow> bool" where
  "tasks_inv s = (\<forall>t. task_ok (hs_installed (os_holder s)) (hs_pc (os_holder s) t) (os_task s t))"

lemma sees_from_grows: "sees_from i hs p \<Longrightarrow> sees_from i (hs @ l) p"
  by (auto simp: sees_from_def split: pc.splits)

lemma put_since_grows: "put_since n rs hs i \<Longrightarrow> put_since n rs (hs @ l) i"
  by (auto simp: put_since_def nth_append)

lemma task_ok_grows: "task_ok hs p k \<Longrightarrow> task_ok (hs @ l) p k"
  using sees_from_grows put_since_grows
  by (fastforce simp: task_ok_def split: task.splits pc.splits)

lemma sees_from_step:
  assumes "hstep cfg False t s s'" and "table_inv cfg s" and "\<And>cur. hs_pc s t \<noteq> Using cur"
    and "sees_from i (hs_installed s) (hs_pc s t)"
  shows "sees_from i (hs_installed s') (hs_pc s' t)"
proof -
  have "i < length (hs_installed s)" using assms(4) by (simp add: sees_from_def)
  then have "hs_current s \<in> set (drop i (hs_installed s))"
    using assms(2) by (simp add: table_inv_def last_in_drop)
  with assms(1,3,4) show ?thesis by cases (auto simp: sees_from_def)
qed

lemma replacing_step:
  assumes "hstep cfg False t s s'" and "task_ok (hs_installed s) (hs_pc s t) (Replacing n rs)"
  shows "task_ok (hs_installed s') (hs_pc s' t) (Replacing n rs)"
  using assms
proof cases
  case (store nxt)
  then have "put_since n rs (hs_installed s @ [nxt]) (length (hs_installed s))"
    using assms(2) by (simp add: task_ok_def put_since_def)
  with store assms(2) show ?thesis by (auto simp: task_ok_def)
qed (auto simp: task_ok_def)

lemma task_ok_inner:
  assumes "hstep cfg False t s s'" and "table_inv cfg s" and "\<And>cur. hs_pc s t \<noteq> Using cur"
    and "task_ok (hs_installed s) (hs_pc s t) k"
  shows "task_ok (hs_installed s') (hs_pc s' t) k"
proof (cases k)
  case Free
  with assms(4) have "hs_pc s t = Idle" by (simp add: task_ok_def)
  with assms(1) show ?thesis by (auto elim: hstep.cases)
next
  case (Replacing n rs)
  with replacing_step assms(1,4) show ?thesis by simp
next
  case (Confirming n rs)
  with assms(4) obtain i where i: "put_since n rs (hs_installed s) i"
    "sees_from i (hs_installed s) (hs_pc s t)"
    by (auto simp: task_ok_def)
  moreover obtain l where "hs_installed s' = hs_installed s @ l"
    using installed_grows [OF assms(1)] by blast
  ultimately have "put_since n rs (hs_installed s') i \<and> sees_from i (hs_installed s') (hs_pc s' t)"
    using sees_from_step [OF assms(1-3)] put_since_grows by simp
  with Confirming show ?thesis unfolding task_ok_def by (simp only: task.case) blast
qed (use assms(4) sees_from_step [OF assms(1-3)] in \<open>simp_all add: task_ok_def\<close>)

text \<open>A step changes its own thread; the others' tasks stay right when the history grows.\<close>

lemma tasks_inv_moves:
  assumes "tasks_inv s" and "hs_installed h = hs_installed (os_holder s) @ l"
    and "\<And>u. u \<noteq> t \<Longrightarrow> hs_pc h u = hs_pc (os_holder s) u"
    and "task_ok (hs_installed h) (hs_pc h t) k"
  shows "tasks_inv (moves t k h s)"
  using assms task_ok_grows [of "hs_installed (os_holder s)" _ _ l] by (simp add: tasks_inv_def)

lemma tasks_inv_step:
  assumes "ostep cfg t s s'" and "reachable cfg (os_holder s)" and "tasks_inv s"
  shows "tasks_inv s'"
proof -
  let ?hs = "hs_installed (os_holder s)"
  have inv: "table_inv cfg (os_holder s)" using assms(2) by (rule table_inv_reachable)
  then have some: "0 < length ?hs" by (simp add: table_inv_def)
  have here: "task_ok ?hs (hs_pc (os_holder s) t) (os_task s t)" using assms(3) by (simp add: tasks_inv_def)
  note goes = tasks_inv_moves [OF assms(3), of _ "[]"]
  from assms(1) show ?thesis
  proof cases
    case (proxied r)
    then show ?thesis using some by (auto intro!: goes simp: task_ok_def sees_from_def arrived_def)
  next
    case get
    then show ?thesis using some by (auto intro!: goes simp: task_ok_def sees_from_def arrived_def)
  next
    case (post_refused body)
    then show ?thesis using assms(3) by simp
  next
    case (post body rs r nxt)
    then have "hd_router nxt = \<lparr>routes = sort_routes rs\<rparr>"
      using New_with_router NewRouter_Inr_iff by metis
    with post show ?thesis
      by (auto intro!: goes simp: task_ok_def arrived_def holds_table_def Routes_def)
  next
    case (inner h)
    obtain l where l: "hs_installed h = ?hs @ l" using installed_grows [OF inner(2)] by blast
    have "tasks_inv (moves t (os_task s t) h s)"
      by (rule tasks_inv_moves [OF assms(3) l other_step [OF inner(2)]])
        (use task_ok_inner [OF inner(2) inv inner(3) here] in simp_all)
    with inner(1) show ?thesis by simp
  next
    case (confirm n rs)
    then show ?thesis using here by (auto intro!: goes simp: task_ok_def put_since_def sees_from_def)
  next
    case (answer cur)
    then show ?thesis by (auto intro!: goes simp: task_ok_def)
  qed
qed

lemma tasks_inv_osteps:
  "osteps cfg s s' \<Longrightarrow> oreach cfg s \<Longrightarrow> tasks_inv s \<Longrightarrow> tasks_inv s'"
proof (induction rule: osteps.induct)
  case (more s s1 t s2)
  then show ?case using tasks_inv_step oreach_holder oreach_more by blast
qed simp

lemma tasks_inv_oreach:
  assumes "oreach cfg s"
  shows "tasks_inv s"
proof -
  from assms obtain h where h: "good_handler cfg h" and run: "osteps cfg (ostart h) s"
    unfolding oreach_def by blast
  then have "oreach cfg (ostart h)" using osteps.none unfolding oreach_def by blast
  moreover have "tasks_inv (ostart h)"
    by (simp add: tasks_inv_def ostart_def initial_def task_ok_def)
  ultimately show ?thesis using tasks_inv_osteps [OF run] by blast
qed

section \<open>Runs of one thread\<close>

lemma moves_moves [simp]: "moves t k h (moves t k' h' s) = moves t k h s"
  by (simp add: moves_def)

lemma runs_inner:
  assumes "osteps cfg s0 (moves t k h s)" and "hstep cfg False t h h'" and "\<And>cur. hs_pc h t \<noteq> Using cur"
  shows "osteps cfg s0 (moves t k h' s)"
  using osteps.more [OF assms(1) ostep.inner [of cfg t "moves t k h s" h']] assms(2,3) by simp

definition unlocked :: "ostate \<Rightarrow> bool" where
  "unlocked s = (hs_mu (os_holder s) = free_mutex)"

lemma posts_alone:
  assumes "unlocked s" and "os_task s t = Free" and "hs_pc (os_holder s) t = Idle"
    and "posted_table body = Some rs"
  obtains s' nxt where "osteps cfg s s'" and "unlocked s'"
    and "os_task s' = (os_task s)(t := Replacing (arrived s) rs)"
    and "hs_pc (os_holder s') = hs_pc (os_holder s)" and "hs_current (os_holder s') = nxt"
    and "holds_table rs nxt"
proof -
  have "valid_table rs" using assms(4) by (auto simp: posted_table_def split: option.splits sum.splits if_splits)
  then have r: "NewRouter rs = Inr \<lparr>routes = sort_routes rs\<rparr>" by (rule NewRouter_valid)
  obtain nxt where nxt: "New_with cfg (Some \<lparr>routes = sort_routes rs\<rparr>) = Inr nxt"
    and router: "hd_router nxt = \<lparr>routes = sort_routes rs\<rparr>"
    by (rule New_with_good [OF NewRouter_well_formed [OF r]])
  let ?k = "Replacing (arrived s) rs" and ?h = "os_holder s"
  let ?h1 = "at_pc t (Locking nxt) ?h"
  let ?h1' = "at_pc t (Waiting nxt) (?h1\<lparr>hs_mu := free_mutex\<lparr>rw_pending := True\<rparr>\<rparr>)"
  let ?h2 = "at_pc t (Storing nxt) (?h1'\<lparr>hs_mu := free_mutex\<lparr>rw_writer := True\<rparr>\<rparr>)"
  let ?h3 = "at_pc t Stored (?h2\<lparr>hs_current := nxt, hs_installed := hs_installed ?h2 @ [nxt]\<rparr>)"
  let ?h4 = "at_pc t Idle (?h3\<lparr>hs_mu := Unlock (hs_mu ?h3)\<rparr>)"
  note mu = assms(1) [unfolded unlocked_def]
  have "osteps cfg s (moves t ?k ?h1 s)"
    by (rule osteps.more [OF osteps.none]) (rule post [OF assms(2-4) r nxt])
  moreover have "hstep cfg False t ?h1 ?h1'" by (rule lock) (simp_all add: mu Lock_call_def free_mutex_def)
  ultimately have "osteps cfg s (moves t ?k ?h1' s)" by (rule runs_inner) simp
  moreover have "hstep cfg False t ?h1' ?h2" by (rule locked) (simp_all add: Lock_return_def free_mutex_def)
  ultimately have "osteps cfg s (moves t ?k ?h2 s)" by (rule runs_inner) simp
  moreover have "hstep cfg False t ?h2 ?h3" by (rule store) simp
  ultimately have "osteps cfg s (moves t ?k ?h3 s)" by (rule runs_inner) simp
  moreover have "hstep cfg False t ?h3 ?h4" by (rule unlock) simp
  ultimately have run: "osteps cfg s (moves t ?k ?h4 s)" by (rule runs_inner) simp
  show thesis
    by (rule that [OF run])
      (use assms(3) router in \<open>auto simp: unlocked_def Unlock_def free_mutex_def moves_def at_pc_def holds_table_def Routes_def\<close>)
qed

lemma reads_alone:
  assumes "unlocked s" and "osteps cfg s (moves t k (at_pc t RLocking (os_holder s)) s)"
  obtains s' where "osteps cfg s s'" and "unlocked s'" and "os_task s' = (os_task s)(t := k)"
    and "hs_pc (os_holder s') = (hs_pc (os_holder s))(t := Using (hs_current (os_holder s)))"
    and "arrived s' = arrived s"
proof -
  let ?h = "os_holder s"
  let ?h1 = "at_pc t RLocking ?h"
  let ?h2 = "at_pc t Loading (?h1\<lparr>hs_mu := free_mutex\<lparr>rw_readers := 1\<rparr>\<rparr>)"
  let ?h3 = "at_pc t (Loaded (hs_current ?h2)) ?h2"
  let ?h4 = "at_pc t (Using (hs_current ?h2)) (?h3\<lparr>hs_mu := RUnlock (hs_mu ?h3)\<rparr>)"
  note mu = assms(1) [unfolded unlocked_def]
  have "hstep cfg False t ?h1 ?h2" by (rule rlock) (simp_all add: mu RLock_def free_mutex_def)
  with assms(2) have "osteps cfg s (moves t k ?h2 s)" by (rule runs_inner) simp
  moreover have "hstep cfg False t ?h2 ?h3" by (rule load) simp
  ultimately have "osteps cfg s (moves t k ?h3 s)" by (rule runs_inner) simp
  moreover have "hstep cfg False t ?h3 ?h4" by (rule runlock) simp
  ultimately have run: "osteps cfg s (moves t k ?h4 s)" by (rule runs_inner) simp
  show thesis
    by (rule that [OF run]) (auto simp: arrived_def unlocked_def RUnlock_def free_mutex_def moves_def at_pc_def)
qed

lemma confirms_alone:
  assumes "unlocked s" and "os_task s t = Replacing n rs" and "hs_pc (os_holder s) t = Idle"
  obtains s' where "osteps cfg s s'" and "unlocked s'" and "os_task s' = (os_task s)(t := Confirming n rs)"
    and "hs_pc (os_holder s') = (hs_pc (os_holder s))(t := Using (hs_current (os_holder s)))"
    and "arrived s' = arrived s"
proof (rule reads_alone [OF assms(1)])
  show "osteps cfg s (moves t (Confirming n rs) (at_pc t RLocking (os_holder s)) s)"
    by (rule osteps.more [OF osteps.none]) (rule confirm [OF assms(2,3)])
qed (rule that)

lemma proxies_alone:
  assumes "unlocked s" and "os_task s t = Free" and "hs_pc (os_holder s) t = Idle"
  obtains s' where "osteps cfg s s'" and "os_task s' t = Proxying (arrived s) r"
    and "hs_pc (os_holder s') t = Using (hs_current (os_holder s))"
proof (rule reads_alone [OF assms(1)])
  show "osteps cfg s (moves t (Proxying (arrived s) r) (at_pc t RLocking (os_holder s)) s)"
    by (rule osteps.more [OF osteps.none]) (rule proxied [OF assms(2,3)])
qed (metis fun_upd_same that)

lemma unlocked_ostart: "unlocked (ostart h)"
  by (simp add: unlocked_def ostart_def initial_def)

section \<open>Progress\<close>

definition busy :: "ostate \<Rightarrow> nat set" where
  "busy s = {t. os_task s t \<noteq> Free}"

text \<open>How many steps a request has left: a POST has its answering call still to come.\<close>

definition steps_to_go :: "ostate \<Rightarrow> nat \<Rightarrow> nat" where
  "steps_to_go s t =
     (case os_task s t of
        Free \<Rightarrow> 0
      | Replacing n rs \<Rightarrow> steps_left (hs_pc (os_holder s) t) + 5
      | _ \<Rightarrow> steps_left (hs_pc (os_holder s) t))"

text \<open>Runs in which requests go on but none arrives, with their length.\<close>

inductive draining :: "BuildConfig \<Rightarrow> nat \<Rightarrow> ostate \<Rightarrow> ostate \<Rightarrow> bool" for cfg where
  still: "draining cfg 0 s s"
| on: "draining cfg n s s1 \<Longrightarrow> os_task s1 t \<noteq> Free \<Longrightarrow> ostep cfg t s1 s2 \<Longrightarrow> draining cfg (Suc n) s s2"

lemma draining_osteps: "draining cfg n s s' \<Longrightarrow> osteps cfg s s'"
  by (induction rule: draining.induct) (auto intro: osteps.intros)

lemma step_of_busy:
  assumes "ostep cfg t s s'" and "os_task s t \<noteq> Free"
  shows "steps_to_go s' t < steps_to_go s t" and "u \<noteq> t \<Longrightarrow> steps_to_go s' u = steps_to_go s u"
    and "busy s' \<subseteq> busy s"
proof -
  from assms(1) have "steps_to_go s' t < steps_to_go s t \<and>
    (u \<noteq> t \<longrightarrow> steps_to_go s' u = steps_to_go s u) \<and> busy s' \<subseteq> busy s"
  proof cases
    case (inner h)
    then have "Suc (steps_left (hs_pc h t)) = steps_left (hs_pc (os_holder s) t)"
      "hs_pc h u = hs_pc (os_holder s) u" if "u \<noteq> t"
      using internal_step_effect [OF inner(2)] that by blast+
    moreover have "Suc (steps_left (hs_pc h t)) = steps_left (hs_pc (os_holder s) t)"
      by (rule internal_step_effect(1) [OF inner(2)])
    ultimately show ?thesis
      using inner(1) assms(2) by (auto simp: steps_to_go_def busy_def split: task.splits)
  qed (use assms(2) in \<open>auto simp: steps_to_go_def busy_def split: task.splits\<close>)
  then show "steps_to_go s' t < steps_to_go s t" "u \<noteq> t \<Longrightarrow> steps_to_go s' u = steps_to_go s u"
    "busy s' \<subseteq> busy s" by blast+
qed

text \<open>A request that has got the handler it is served with has only its own answer before it: the
  call of the proxy, which waits for a backend and for the client, or writing the table to the
  client. How long that takes is not the gateway's to say.\<close>

definition answering :: "ostate \<Rightarrow> nat \<Rightarrow> bool" where
  "answering s t = (\<exists>h. hs_pc (os_holder s) t = Using h)"

lemma busy_can_go:
  assumes "oreach cfg s" and "t \<in> busy s" and "\<not> answering s t"
  shows "\<exists>u \<in> busy s. \<not> answering s u \<and> (\<exists>s'. ostep cfg u s s')"
proof -
  let ?pc = "hs_pc (os_holder s)"
  have ok: "task_ok (hs_installed (os_holder s)) (?pc u) (os_task s u)" for u
    using tasks_inv_oreach [OF assms(1)] by (simp add: tasks_inv_def)
  have idle: "?pc u = Idle" if "os_task s u = Free" for u using ok [of u] that by (simp add: task_ok_def)
  have unserved: "\<forall>h. ?pc t \<noteq> Using h" using assms(3) by (simp add: answering_def)
  show ?thesis
  proof (cases "?pc t = Idle")
    case True
    with assms(2) ok [of t] obtain n rs where "os_task s t = Replacing n rs"
      by (cases "os_task s t") (auto simp: busy_def task_ok_def sees_from_def)
    then have "ostep cfg t s (moves t (Confirming n rs) (at_pc t RLocking (os_holder s)) s)"
      using True by (rule confirm)
    with assms(2,3) show ?thesis by blast
  next
    case False
    obtain u h where h: "hstep cfg False u (os_holder s) h" and own: "\<forall>h. ?pc u \<noteq> Using h"
      and "Suc (steps_left (hs_pc h u)) = steps_left (?pc u)"
      using holder_no_deadlock [OF oreach_holder [OF assms(1)] False] unserved by blast
    then have "?pc u \<noteq> Idle" by auto
    with idle [of u] have "u \<in> busy s" by (auto simp: busy_def)
    moreover have "\<not> answering s u" using own by (simp add: answering_def)
    moreover have "ostep cfg u s (moves u (os_task s u) h s)" using own by (intro inner [OF h]) blast
    ultimately show ?thesis by blast
  qed
qed

lemma unserved_stays:
  assumes "ostep cfg t s s'" and "os_task s t \<noteq> Free" and "\<not> answering s t"
  shows "os_task s' t \<noteq> Free"
  using assms by (auto simp: answering_def elim: ostepE)

lemma answer_can_come: "answering s t \<Longrightarrow> \<exists>s'. ostep cfg t s s' \<and> os_task s' t = Free"
  unfolding answering_def by (metis answer fun_upd_same moves_sel(2))

lemma draining_bound:
  assumes "draining cfg n s s'" and "finite (busy s)"
  shows "n + (\<Sum>t \<in> busy s. steps_to_go s' t) \<le> (\<Sum>t \<in> busy s. steps_to_go s t) \<and> busy s' \<subseteq> busy s"
  using assms
proof (induction rule: draining.induct)
  case (on n s s1 t s2)
  then have "t \<in> busy s" "finite (busy s)" by (auto simp: busy_def)
  then have "(\<Sum>u \<in> busy s. steps_to_go s2 u) < (\<Sum>u \<in> busy s. steps_to_go s1 u)"
    using step_of_busy [OF on.hyps(3,2)]
    by (intro sum_strict_mono_ex1) (auto, metis le_refl less_imp_le)
  with on step_of_busy(3) [OF on.hyps(3,2)] show ?case by fastforce
qed simp

lemma steps_to_go_le:
  "oreach cfg s \<Longrightarrow> steps_to_go s t \<le> 9"
proof -
  assume "oreach cfg s"
  then have "task_ok (hs_installed (os_holder s)) (hs_pc (os_holder s) t) (os_task s t)"
    using tasks_inv_oreach by (simp add: tasks_inv_def)
  then show ?thesis
    by (cases "hs_pc (os_holder s) t"; cases "os_task s t")
      (auto simp: task_ok_def sees_from_def steps_to_go_def)
qed

section \<open>Properties\<close>

lemma used_is_good:
  assumes "oreach cfg s" and "hs_pc (os_holder s) t = Using h"
  shows "good_handler cfg h"
proof -
  have "table_inv cfg (os_holder s)" using oreach_holder [OF assms(1)] by (rule table_inv_reachable)
  then show ?thesis using assms(2) unfolding table_inv_def by (metis local_ok_simps(6))
qed

lemma confirming_sees:
  assumes "oreach cfg s" and "os_task s t = Confirming n rs" and "hs_pc (os_holder s) t = Using h"
  shows "\<exists>i. put_since n rs (hs_installed (os_holder s)) i \<and> h \<in> set (drop i (hs_installed (os_holder s)))"
proof -
  have "task_ok (hs_installed (os_holder s)) (Using h) (Confirming n rs)"
    using tasks_inv_oreach [OF assms(1)] assms(2,3) unfolding tasks_inv_def by metis
  then show ?thesis by (simp add: task_ok_def sees_from_def) blast
qed

lemma proxying_sees:
  assumes "oreach cfg s" and "os_task s t = Proxying n r" and "hs_pc (os_holder s) t = Using h"
  shows "h \<in> set (drop (n - 1) (hs_installed (os_holder s)))"
proof -
  have "task_ok (hs_installed (os_holder s)) (Using h) (Proxying n r)"
    using tasks_inv_oreach [OF assms(1)] assms(2,3) unfolding tasks_inv_def by metis
  then show ?thesis by (simp add: task_ok_def sees_from_def)
qed

lemma set_drop_mono: "i \<le> j \<Longrightarrow> set (drop j xs) \<subseteq> set (drop i xs)"
  by (rule set_drop_subset_set_drop)

text \<open>What a table makes of a proxied request.\<close>

definition proxied_reaction :: "route list \<Rightarrow> header \<Rightarrow> request \<Rightarrow> reaction" where
  "proxied_reaction T rh r =
     (case spec_match T (u_path (r_URL r)) of
        None \<Rightarrow> Unrouted
      | Some x \<Rightarrow> if sane_upgrade rh then Forwarded x else BadUpgrade)"

lemma used_shows:
  assumes "good_handler cfg h" and "in_step w" and "\<not> header_sent w" and "cn_body (conn_of w) = ''''"
    and "Handler_ServeHTTP e h r w ws = (out, w', ws')"
  defines "T \<equiv> Routes (hd_router h)"
  shows "visible e T (proxied_reaction T (w_reqhdr ws) r) r out (conn_of w') ws ws'"
  using Handler_shows [OF table_of_good [OF assms(1)] assms(2-5)]
  unfolding T_def proxied_reaction_def
  by (cases "spec_match (Routes (hd_router h)) (u_path (r_URL r))") simp_all

text \<open>For the witnesses: the gateway of \<open>demo_gateway\<close>, on which thread 1 has posted \<open>demo_body\<close> and
  has read the table for its answer.\<close>

abbreviation demo_rs :: "route list" where
  "demo_rs \<equiv> [\<lparr>Prefix = ''/'', Backend = Some (demo_url ''a'')\<rparr>,
     \<lparr>Prefix = ''/b'', Backend = Some (demo_url ''b:81'')\<rparr>]"

lemma demo_answering:
  obtains s h where "oreach demo_cfg s" and "unlocked s" and "os_task s = (\<lambda>t. Free)(1 := Confirming 1 demo_rs)"
    and "hs_pc (os_holder s) = (\<lambda>t. Idle)(1 := Using h)"
proof -
  let ?s0 = "ostart demo_gateway"
  have idle: "os_task ?s0 = (\<lambda>t. Free)" "hs_pc (os_holder ?s0) = (\<lambda>t. Idle)" "arrived ?s0 = 1"
    by (simp_all add: ostart_def initial_def arrived_def)
  obtain s1 nxt where s1: "osteps demo_cfg ?s0 s1" "unlocked s1"
    "os_task s1 = (os_task ?s0)(1 := Replacing (arrived ?s0) demo_rs)"
    "hs_pc (os_holder s1) = hs_pc (os_holder ?s0)"
    by (rule posts_alone [OF unlocked_ostart _ _ demo_body_table, of demo_gateway 1 demo_cfg])
      (simp_all add: idle)
  obtain s2 where s2: "osteps demo_cfg s1 s2" "unlocked s2" "os_task s2 = (os_task s1)(1 := Confirming 1 demo_rs)"
    "hs_pc (os_holder s2) = (hs_pc (os_holder s1))(1 := Using (hs_current (os_holder s1)))"
    by (rule confirms_alone [OF s1(2), of 1 1 demo_rs demo_cfg]) (simp_all add: s1 idle)
  have "oreach demo_cfg s2"
    unfolding oreach_def using demo_gateway_good(1) osteps_trans [OF s1(1) s2(1)] by blast
  with s2 show thesis by (intro that) (simp_all add: s1 idle)
qed

text \<open>C8: new requests use the new table, however requests and replacements overlap: once a POST's
  \<open>Replace\<close> has returned, a request that comes after that is served by the handler of the posted
  table or of one installed later, never by an older one; and it is answered by that one table
  from beginning to end, whatever is installed while it runs.\<close>

theorem new_requests_use_new_table:
  assumes "oreach cfg s0" and "os_task s0 u = Confirming n rs"
    and "osteps cfg s0 s" and "os_task s t = Proxying m r" and "arrived s0 \<le> m"
    and "hs_pc (os_holder s) t = Using h"
    and "in_step w" and "\<not> header_sent w" and "cn_body (conn_of w) = ''''"
    and "Handler_ServeHTTP e h r w ws = (out, w', ws')"
  shows "\<exists>i. n \<le> i \<and> i < arrived s0 \<and>
    Routes (hd_router (hs_installed (os_holder s) ! i)) = sort_routes rs \<and>
    h \<in> set (drop i (hs_installed (os_holder s))) \<and>
    visible e (Routes (hd_router h)) (proxied_reaction (Routes (hd_router h)) (w_reqhdr ws) r)
      r out (conn_of w') ws ws'"
proof -
  have s: "oreach cfg s" using assms(1,3) by (rule oreach_more)
  have "task_ok (hs_installed (os_holder s0)) (hs_pc (os_holder s0) u) (Confirming n rs)"
    using tasks_inv_oreach [OF assms(1)] assms(2) unfolding tasks_inv_def by metis
  then obtain i where i: "put_since n rs (hs_installed (os_holder s0)) i"
    unfolding task_ok_def by auto
  moreover obtain l where "hs_installed (os_holder s) = hs_installed (os_holder s0) @ l"
    using osteps_holder [OF assms(3) oreach_holder [OF assms(1)]] by blast
  ultimately have put: "put_since n rs (hs_installed (os_holder s)) i" by (simp add: put_since_grows)
  have old: "i < arrived s0" using i by (simp add: put_since_def arrived_def)
  then have "i \<le> m - 1" using assms(5) by simp
  then have "set (drop (m - 1) (hs_installed (os_holder s))) \<subseteq> set (drop i (hs_installed (os_holder s)))"
    by (rule set_drop_mono)
  with proxying_sees [OF s assms(4,6)] have "h \<in> set (drop i (hs_installed (os_holder s)))" ..
  with put old used_shows [OF used_is_good [OF s assms(6)] assms(7-10)] show ?thesis
    unfolding put_since_def holds_table_def by (intro exI [of _ i] conjI) simp_all
qed

theorem new_requests_use_new_table_witness:
  "\<exists>s0 s h. oreach demo_cfg s0 \<and> osteps demo_cfg s0 s \<and> os_task s0 1 = Confirming 1 demo_rs \<and>
     hs_pc (os_holder s) 2 = Using h \<and> h \<in> set (drop 1 (hs_installed (os_holder s)))"
proof -
  let ?r = "demo_request ''GET'' ''/b/x''"
  obtain s0 h0 where s0: "oreach demo_cfg s0" "unlocked s0"
    "os_task s0 = (\<lambda>t. Free)(1 := Confirming 1 demo_rs)" "hs_pc (os_holder s0) = (\<lambda>t. Idle)(1 := Using h0)"
    by (rule demo_answering)
  then obtain s h where s: "osteps demo_cfg s0 s" "os_task s 2 = Proxying (arrived s0) ?r"
    "hs_pc (os_holder s) 2 = Using h"
    using proxies_alone [OF s0(2), of 2 demo_cfg ?r] by (metis fun_upd_other one_eq_numeral_iff semiring_norm(85))
  obtain out w' ws' where run: "Handler_ServeHTTP demo_env h ?r (Conn new_conn) quiet_world = (out, w', ws')"
    by (metis prod_cases3)
  have one: "os_task s0 1 = Confirming 1 demo_rs" using s0 by simp
  have body: "cn_body (conn_of (Conn new_conn)) = ''''" by (simp add: new_conn_def)
  obtain i where i: "1 \<le> i" "h \<in> set (drop i (hs_installed (os_holder s)))"
    using new_requests_use_new_table [OF s0(1) one s(1,2) order_refl s(3) new_conn_ready body run] by blast
  have "h \<in> set (drop 1 (hs_installed (os_holder s)))" using set_drop_mono [OF i(1), of "hs_installed (os_holder s)"] i(2) by blast
  with s0(1) s(1,3) one show ?thesis by blast
qed

text \<open>C24: what a successful POST answers: a table that was in force at some moment after its own
  table had been put in force, during the call.\<close>

theorem post_answer_fresh:
  assumes "oreach cfg s" and "os_task s t = Confirming n rs" and "hs_pc (os_holder s) t = Using h"
    and "in_step w" and "\<not> header_sent w"
    and "writeRoutes w (Routes (hd_router h)) = (out, w')"
  shows "(\<exists>i. n \<le> i \<and> i < arrived s \<and>
      Routes (hd_router (hs_installed (os_holder s) ! i)) = sort_routes rs \<and>
      h \<in> set (drop i (hs_installed (os_holder s)))) \<and>
    out = Returned \<and> cn_status (conn_of w') = 200 \<and>
    cn_body (conn_of w') = cn_body (conn_of w) @ table_text (Routes (hd_router h))"
proof -
  have "well_formed_router (hd_router h)"
    using used_is_good [OF assms(1,3)] by (simp add: good_handler_def)
  then have "valid_table (Routes (hd_router h))" by (simp add: well_formed_router_def Routes_def)
  then have "list_all (\<lambda>r. Backend r \<noteq> None) (Routes (hd_router h))"
    by (auto simp: valid_table_def list_all_iff)
  from writeRoutes_conn [OF assms(4,5) routes_out_total [OF this]] confirming_sees [OF assms(1-3)]
  show ?thesis
    using assms(6) by (auto simp: put_since_def holds_table_def arrived_def table_text_def)
qed

theorem post_answer_fresh_witness:
  "\<exists>s h. oreach demo_cfg s \<and> hs_pc (os_holder s) 1 = Using h \<and> h \<in> set (drop 1 (hs_installed (os_holder s))) \<and>
     cn_status (conn_of (snd (writeRoutes (Conn new_conn) (Routes (hd_router h))))) = 200"
proof -
  obtain s h where s: "oreach demo_cfg s" "os_task s = (\<lambda>t. Free)(1 := Confirming 1 demo_rs)"
    "hs_pc (os_holder s) = (\<lambda>t. Idle)(1 := Using h)"
    by (rule demo_answering)
  obtain out w' where run: "writeRoutes (Conn new_conn) (Routes (hd_router h)) = (out, w')" by fastforce
  have one: "os_task s 1 = Confirming 1 demo_rs" "hs_pc (os_holder s) 1 = Using h" using s by simp_all
  note fresh = post_answer_fresh [OF s(1) one new_conn_ready run]
  then obtain i where i: "1 \<le> i" "h \<in> set (drop i (hs_installed (os_holder s)))" by blast
  have "h \<in> set (drop 1 (hs_installed (os_holder s)))" using set_drop_mono [OF i(1), of "hs_installed (os_holder s)"] i(2) by blast
  with s(1) one fresh run show ?thesis by auto
qed

text \<open>C25: that table need not be the posted one: \<open>postRoutes\<close> reads the table for its answer in a
  call of its own. For any two acceptable bodies there is an interleaving of the two POSTs in
  which the first is answered, with 200, by the second's table.\<close>

theorem posts_race:
  assumes "good_handler cfg h0" and "posted_table body1 = Some rs1" and "posted_table body2 = Some rs2"
  shows "\<exists>s h. osteps cfg (ostart h0) s \<and> os_task s 1 = Confirming 1 rs1 \<and>
    hs_pc (os_holder s) 1 = Using h \<and> Routes (hd_router h) = sort_routes rs2"
proof -
  let ?s0 = "ostart h0"
  have idle: "os_task ?s0 t = Free" "hs_pc (os_holder ?s0) t = Idle" "arrived ?s0 = 1" for t
    by (simp_all add: ostart_def initial_def arrived_def)
  obtain s1 nxt1 where s1: "osteps cfg ?s0 s1" "unlocked s1"
    "os_task s1 = (os_task ?s0)(1 := Replacing (arrived ?s0) rs1)"
    "hs_pc (os_holder s1) = hs_pc (os_holder ?s0)"
    by (rule posts_alone [OF unlocked_ostart idle(1,2) assms(2)])
  then have "os_task s1 2 = Free" "hs_pc (os_holder s1) 2 = Idle" by (simp_all add: idle)
  then obtain s2 nxt2 where s2: "osteps cfg s1 s2" "unlocked s2"
    "os_task s2 = (os_task s1)(2 := Replacing (arrived s1) rs2)"
    "hs_pc (os_holder s2) = hs_pc (os_holder s1)" "hs_current (os_holder s2) = nxt2"
    "holds_table rs2 nxt2"
    by (rule posts_alone [OF s1(2) _ _ assms(3)])
  have "os_task s2 1 = Replacing 1 rs1" "hs_pc (os_holder s2) 1 = Idle"
    using s1 s2 by (simp_all add: idle)
  then obtain s3 where s3: "osteps cfg s2 s3" "os_task s3 = (os_task s2)(1 := Confirming 1 rs1)"
    "hs_pc (os_holder s3) = (hs_pc (os_holder s2))(1 := Using (hs_current (os_holder s2)))"
    by (rule confirms_alone [OF s2(2)])
  have "osteps cfg ?s0 s3" by (rule osteps_trans [OF osteps_trans [OF s1(1) s2(1)] s3(1)])
  moreover have "Routes (hd_router nxt2) = sort_routes rs2" using s2(6) by (simp add: holds_table_def)
  moreover have "os_task s3 1 = Confirming 1 rs1" "hs_pc (os_holder s3) 1 = Using nxt2"
    using s2(5) by (simp_all add: s3)
  ultimately show ?thesis by blast
qed

theorem posts_race_witness:
  "\<exists>s h. osteps demo_cfg (ostart demo_gateway) s \<and> os_task s 1 = Confirming 1 demo_rs \<and>
     hs_pc (os_holder s) 1 = Using h \<and> Routes (hd_router h) \<noteq> sort_routes demo_rs"
proof -
  have "valid_table (rev demo_routes)" by code_simp
  then have other: "posted_table (table_text (rev demo_routes)) = Some (rev demo_routes)"
    using demo_table_printable by (rule posted_table_text)
  have "sort_routes (rev demo_routes) \<noteq> sort_routes demo_rs" by code_simp
  with posts_race [OF demo_gateway_good(1) demo_body_table other] show ?thesis by metis
qed

text \<open>C22: no request holds another one up for good: when no more requests arrive, a run takes at most nine
  steps per request in flight, POSTs included, however the threads are scheduled; and as long as
  some request has not got the handler that serves it, some such request can take its next step
  without any backend or client doing anything. (A writer that waits keeps new readers out
  here, as \<open>sync.RWMutex\<close> does.) So a run that cannot go on is one in which every unfinished
  request waits for its own backend or client, and each of those ends when they answer.\<close>

theorem requests_drain:
  assumes "oreach cfg s" and "finite (busy s)" and "draining cfg n s s'"
  shows "n \<le> 9 * card (busy s) \<and>
    ((\<exists>t \<in> busy s'. \<not> answering s' t) \<longrightarrow>
       (\<exists>t \<in> busy s'. \<not> answering s' t \<and> (\<exists>s''. ostep cfg t s' s''))) \<and>
    (\<forall>t. answering s' t \<longrightarrow> (\<exists>s''. ostep cfg t s' s'' \<and> os_task s'' t = Free))"
proof -
  have "n \<le> (\<Sum>t \<in> busy s. steps_to_go s t)" using draining_bound [OF assms(3,2)] by simp
  also have "\<dots> \<le> 9 * card (busy s)"
    using sum_bounded_above [of "busy s" "steps_to_go s" 9] steps_to_go_le [OF assms(1)] by simp
  finally have "n \<le> 9 * card (busy s)" .
  moreover have "oreach cfg s'" using oreach_more [OF assms(1) draining_osteps [OF assms(3)]] .
  ultimately show ?thesis using busy_can_go answer_can_come by blast
qed

theorem requests_drain_witness:
  "\<exists>s s'. oreach demo_cfg s \<and> busy s = {1} \<and> draining demo_cfg 1 s s' \<and> busy s' = {} \<and> 1 \<le> 9 * card (busy s)"
proof -
  obtain s h where s: "oreach demo_cfg s" "os_task s = (\<lambda>t. Free)(1 := Confirming 1 demo_rs)"
    "hs_pc (os_holder s) = (\<lambda>t. Idle)(1 := Using h)"
    by (rule demo_answering)
  let ?s' = "moves 1 Free (at_pc 1 Idle (os_holder s)) s"
  have one: "busy s = {1}" "busy ?s' = {}" "finite (busy s)" by (auto simp: busy_def s moves_def)
  have "ostep demo_cfg 1 s ?s'" by (rule answer [of _ _ h]) (simp add: s)
  then have run: "draining demo_cfg (Suc 0) s ?s'" by (intro on [OF still]) (simp_all add: s)
  from requests_drain [OF s(1) one(3) run] have "Suc 0 \<le> 9 * card (busy s)" ..
  with s(1) one run show ?thesis unfolding One_nat_def by blast
qed

end
