(* ===== verification/Lifecycle.thy ===== *)
theory Lifecycle
  imports Server
begin

text \<open>
  The life of a started gateway, \<open>cmd/decision-gateway/main.go\<close> from the boot line to the exit
  code: the goroutine that runs \<open>ListenAndServe\<close>, the 50 ms wait, the readiness flag, the
  \<open>select\<close> between the context and the server's error, the shutdown and the deferred flush of
  the tracer. One step of the relation is one statement of \<open>run\<close> or of the goroutine, or an
  event from outside (a signal, the listener coming up or failing); they interleave in any
  order. Time passes only as far as it is visible: \<open>Sleep\<close> and \<open>Shutdown\<close> (which has a deadline)
  return sooner or later. So does the tracer's shutdown, which has a deadline too and may fail: what
  it returns is dropped (\<open>lc_flush\<close> keeps it for the properties).
\<close>

section \<open>States\<close>

text \<open>What \<open>ListenAndServe\<close> returns; it never returns \<open>nil\<close>.\<close>

datatype serve_error = ErrServerClosed | ServeError string

datatype main_pc =
    Sleeping | Waking | Selecting
  | CtxBranch | Draining | ShuttingDown | ErrBranch "string option"
  | Returning "string option" | Exited "string option"

datatype server_pc = Starting | Listening | Returned_with serve_error | Reported

record lifecycle =
  lc_main :: main_pc
  lc_server :: server_pc
  lc_serverErr :: "string option list"
  lc_ctxDone :: bool
  lc_inShutdown :: bool
  lc_otel :: bool
  lc_flush :: "string option option"
  lc_world :: world

text \<open>The goroutine's message: an error other than \<open>ErrServerClosed\<close>, or \<open>nil\<close>.\<close>

definition report :: "serve_error \<Rightarrow> string option" where
  "report err = (case err of ErrServerClosed \<Rightarrow> None | ServeError m \<Rightarrow> Some m)"

text \<open>A send on \<open>serverErr\<close>, a channel of capacity 1.\<close>

definition channel_send :: "string option \<Rightarrow> string option list \<Rightarrow> string option list option" where
  "channel_send m ch = (if length ch < 1 then Some (ch @ [m]) else None)"

definition started :: "bool \<Rightarrow> world \<Rightarrow> lifecycle" where
  "started otelEnabled w =
     \<lparr>lc_main = Sleeping, lc_server = Starting, lc_serverErr = [], lc_ctxDone = False,
      lc_inShutdown = False, lc_otel = otelEnabled, lc_flush = None, lc_world = w\<rparr>"

section \<open>Steps\<close>

inductive lstep :: "lifecycle \<Rightarrow> lifecycle \<Rightarrow> bool" where
  \<comment> \<open>outside: SIGINT or SIGTERM, the listener, the accept loop\<close>
  signal: "\<not> lc_ctxDone s \<Longrightarrow> lstep s (s\<lparr>lc_ctxDone := True\<rparr>)"
| bind: "lc_server s = Starting \<Longrightarrow> \<not> lc_inShutdown s \<Longrightarrow> lstep s (s\<lparr>lc_server := Listening\<rparr>)"
| bind_fails: "lc_server s = Starting \<Longrightarrow> lstep s (s\<lparr>lc_server := Returned_with (ServeError m)\<rparr>)"
| accept_fails:
    "lc_server s = Listening \<Longrightarrow> lstep s (s\<lparr>lc_server := Returned_with (ServeError m)\<rparr>)"
| closed: "lc_server s \<in> {Starting, Listening} \<Longrightarrow> lc_inShutdown s \<Longrightarrow>
    lstep s (s\<lparr>lc_server := Returned_with ErrServerClosed\<rparr>)"
  \<comment> \<open>the goroutine's send\<close>
| send: "lc_server s = Returned_with err \<Longrightarrow> channel_send (report err) (lc_serverErr s) = Some ch \<Longrightarrow>
    lstep s (s\<lparr>lc_server := Reported, lc_serverErr := ch\<rparr>)"
  \<comment> \<open>\<open>run\<close>\<close>
| sleep: "lc_main s = Sleeping \<Longrightarrow> lstep s (s\<lparr>lc_main := Waking\<rparr>)"
| ready: "lc_main s = Waking \<Longrightarrow>
    lstep s (s\<lparr>lc_main := Selecting, lc_world := markReady (lc_world s)\<rparr>)"
| select_ctx: "lc_main s = Selecting \<Longrightarrow> lc_ctxDone s \<Longrightarrow> lstep s (s\<lparr>lc_main := CtxBranch\<rparr>)"
| select_err: "lc_main s = Selecting \<Longrightarrow> lc_serverErr s = m # ch \<Longrightarrow>
    lstep s (s\<lparr>lc_main := ErrBranch m, lc_serverErr := ch\<rparr>)"
| drain: "lc_main s = CtxBranch \<Longrightarrow>
    lstep s (s\<lparr>lc_main := Draining, lc_world := markNotReady (lc_world s)\<rparr>)"
| shutdown: "lc_main s = Draining \<Longrightarrow>
    lstep s (s\<lparr>lc_main := ShuttingDown, lc_inShutdown := True\<rparr>)"
| shut: "lc_main s = ShuttingDown \<Longrightarrow> lstep s (s\<lparr>lc_main := Returning None\<rparr>)"
| fail: "lc_main s = ErrBranch m \<Longrightarrow>
    lstep s (s\<lparr>lc_main := Returning m, lc_world := markNotReady (lc_world s)\<rparr>)"
| defers: "lc_main s = Returning m \<Longrightarrow>
    lstep s (s\<lparr>lc_main := Exited m, lc_flush := (if lc_otel s then Some err else None)\<rparr>)"

inductive_cases lstepE: "lstep s s'"

inductive lreach :: "bool \<Rightarrow> world \<Rightarrow> lifecycle \<Rightarrow> bool" for otel w where
  lreach_start: "lreach otel w (started otel w)"
| lreach_step: "lreach otel w s \<Longrightarrow> lstep s s' \<Longrightarrow> lreach otel w s'"

text \<open>What \<open>main\<close> makes of \<open>run\<close>'s result: the exit code and the line on stderr.\<close>

definition main_exit :: "string option \<Rightarrow> int \<times> string list" where
  "main_exit err =
     (case err of
        None \<Rightarrow> (0, [])
      | Some m \<Rightarrow> (1, [''decision-gateway: '' @ m @ [newline]]))"

section \<open>Invariants\<close>

text \<open>What holds of the flag, the channel and the two program counters in every state.\<close>

definition ready_inv :: "lifecycle \<Rightarrow> bool" where
  "ready_inv s =
     (case lc_main s of
        Selecting \<Rightarrow> w_readyState (lc_world s) = 1
      | CtxBranch \<Rightarrow> w_readyState (lc_world s) = 1
      | ErrBranch m \<Rightarrow> w_readyState (lc_world s) = 1
      | _ \<Rightarrow> w_readyState (lc_world s) = 0)"

definition channel_inv :: "lifecycle \<Rightarrow> bool" where
  "channel_inv s = (length (lc_serverErr s) \<le> 1 \<and> (lc_server s \<noteq> Reported \<longrightarrow> lc_serverErr s = []))"

definition shutdown_inv :: "lifecycle \<Rightarrow> bool" where
  "shutdown_inv s =
     ((lc_inShutdown s \<longrightarrow> lc_ctxDone s \<and> lc_main s \<in> {ShuttingDown, Returning None, Exited None}) \<and>
      (lc_main s \<in> {ShuttingDown, Returning None, Exited None} \<longrightarrow> lc_inShutdown s) \<and>
      (lc_server s = Returned_with ErrServerClosed \<longrightarrow> lc_inShutdown s) \<and>
      (None \<in> set (lc_serverErr s) \<longrightarrow> lc_inShutdown s) \<and>
      (lc_main s \<in> {CtxBranch, Draining, ShuttingDown, Returning None, Exited None} \<longrightarrow> lc_ctxDone s) \<and>
      lc_main s \<noteq> ErrBranch None)"

definition flushed_inv :: "bool \<Rightarrow> lifecycle \<Rightarrow> bool" where
  "flushed_inv otel s =
     (lc_otel s = otel \<and> (\<forall>m. lc_main s = Exited m \<longrightarrow> (lc_flush s \<noteq> None \<longleftrightarrow> otel)))"

text \<open>Each is kept by every step; the shutdown invariant needs the channel's.\<close>

lemma ready_inv_step: "lstep s s' \<Longrightarrow> ready_inv s \<Longrightarrow> ready_inv s'"
  by (erule lstepE) (auto simp: ready_inv_def markReady_def markNotReady_def split: main_pc.splits)

lemma channel_inv_step: "lstep s s' \<Longrightarrow> channel_inv s \<Longrightarrow> channel_inv s'"
  by (erule lstepE) (auto simp: channel_inv_def channel_send_def split: if_splits)

lemma report_None [simp]:
  "report err = None \<longleftrightarrow> err = ErrServerClosed" "None = report err \<longleftrightarrow> err = ErrServerClosed"
  by (simp_all add: report_def split: serve_error.splits)

lemma channel_send_set: "channel_send m ch = Some ch' \<Longrightarrow> set ch' = insert m (set ch)"
  by (auto simp: channel_send_def split: if_splits)

lemma shutdown_inv_step: "lstep s s' \<Longrightarrow> shutdown_inv s \<Longrightarrow> shutdown_inv s'"
  by (erule lstepE) (auto simp: shutdown_inv_def dest: channel_send_set, metis not_None_eq)

lemma flushed_inv_step: "lstep s s' \<Longrightarrow> flushed_inv otel s \<Longrightarrow> flushed_inv otel s'"
  by (erule lstepE) (auto simp: flushed_inv_def)

lemma lreach_inv:
  assumes "lreach otel w s" and "w_readyState w = 0"
  shows "ready_inv s" and "channel_inv s" and "shutdown_inv s" and "flushed_inv otel s"
proof -
  have "ready_inv s \<and> channel_inv s \<and> shutdown_inv s \<and> flushed_inv otel s"
    using assms(1)
  proof (induction rule: lreach.induct)
    case lreach_start
    show ?case using assms(2)
      by (simp add: started_def ready_inv_def channel_inv_def shutdown_inv_def flushed_inv_def)
  next
    case (lreach_step s s')
    then show ?case
      using ready_inv_step channel_inv_step shutdown_inv_step flushed_inv_step by metis
  qed
  then show "ready_inv s" "channel_inv s" "shutdown_inv s" "flushed_inv otel s" by blast+
qed

text \<open>The server's error, from the moment \<open>ListenAndServe\<close> returned it: where it can be. A run that
  exits with an error exits with this one.\<close>

definition failure_inv :: "(string \<Rightarrow> bool) \<Rightarrow> lifecycle \<Rightarrow> bool" where
  "failure_inv failed s =
     ((\<forall>m. lc_server s = Returned_with (ServeError m) \<longrightarrow> failed m) \<and>
      (\<forall>m. Some m \<in> set (lc_serverErr s) \<longrightarrow> failed m) \<and>
      (\<forall>m. lc_main s \<in> {ErrBranch (Some m), Returning (Some m), Exited (Some m)} \<longrightarrow> failed m))"

text \<open>Runs that record what \<open>ListenAndServe\<close> returned.\<close>

inductive run_of :: "lifecycle \<Rightarrow> lifecycle list \<Rightarrow> lifecycle \<Rightarrow> bool" where
  run_here: "run_of s [] s"
| run_step: "run_of s tr t \<Longrightarrow> lstep t t' \<Longrightarrow> run_of s (tr @ [t']) t'"

lemma run_of_reach: "run_of s tr t \<Longrightarrow> s = started otel w \<Longrightarrow> lreach otel w t"
  by (induction rule: run_of.induct) (auto intro: lreach.intros)

lemma run_failure:
  assumes "run_of (started otel w) tr t"
  shows "failure_inv (\<lambda>m. \<exists>u \<in> set tr. lc_server u = Returned_with (ServeError m)) t"
  using assms
proof (induction "started otel w" tr t rule: run_of.induct)
  case run_here
  then show ?case by (simp add: failure_inv_def started_def)
next
  case (run_step tr t t')
  from run_step.hyps(3) run_step.hyps(2) show ?case
    by (cases rule: lstepE)
      (auto simp: failure_inv_def channel_send_def report_def split: serve_error.splits if_splits)
qed

text \<open>What \<open>run\<close> returns once the server was started.\<close>

lemma run_result:
  assumes "run_of (started otel w) tr t" and "w_readyState w = 0" and "lc_main t = Exited m"
  shows "lc_flush t \<noteq> None \<longleftrightarrow> otel"
    and "m = None \<Longrightarrow> lc_ctxDone t \<and> lc_inShutdown t"
    and "w_readyState (lc_world t) = 0"
    and "m = Some err \<Longrightarrow> \<exists>u \<in> set tr. lc_server u = Returned_with (ServeError err)"
proof -
  have r: "lreach otel w t" using run_of_reach [OF assms(1)] by blast
  show "lc_flush t \<noteq> None \<longleftrightarrow> otel"
    using lreach_inv(4) [OF r assms(2)] assms(3) by (simp add: flushed_inv_def)
  show "m = None \<Longrightarrow> lc_ctxDone t \<and> lc_inShutdown t"
    using lreach_inv(3) [OF r assms(2)] assms(3) by (simp add: shutdown_inv_def)
  show "w_readyState (lc_world t) = 0"
    using lreach_inv(1) [OF r assms(2)] assms(3) by (simp add: ready_inv_def)
  show "m = Some err \<Longrightarrow> \<exists>u \<in> set tr. lc_server u = Returned_with (ServeError err)"
    using run_failure [OF assms(1)] assms(3) by (simp add: failure_inv_def)
qed

section \<open>Every run ends\<close>

text \<open>A bound on the steps that are left.\<close>

definition main_left :: "main_pc \<Rightarrow> nat" where
  "main_left p =
     (case p of Sleeping \<Rightarrow> 7 | Waking \<Rightarrow> 6 | Selecting \<Rightarrow> 5 | CtxBranch \<Rightarrow> 4 | Draining \<Rightarrow> 3 | ShuttingDown \<Rightarrow> 2
      | ErrBranch m \<Rightarrow> 2 | Returning m \<Rightarrow> 1 | Exited m \<Rightarrow> 0)"

definition server_left :: "server_pc \<Rightarrow> nat" where
  "server_left p =
     (case p of Starting \<Rightarrow> 3 | Listening \<Rightarrow> 2 | Returned_with e \<Rightarrow> 1 | Reported \<Rightarrow> 0)"

definition run_left :: "lifecycle \<Rightarrow> nat" where
  "run_left s =
     main_left (lc_main s) + server_left (lc_server s) + (if lc_ctxDone s then 0 else 1)"

lemma lstep_decreases: "lstep s s' \<Longrightarrow> run_left s' < run_left s"
  by (induction rule: lstep.induct)
    (auto simp: run_left_def main_left_def server_left_def split: server_pc.splits)

text \<open>\<open>ends P s\<close>: whatever steps are taken from \<open>s\<close>, in whatever order, \<open>P\<close> comes to hold, and a
  step can be taken until it does.\<close>

inductive ends :: "(lifecycle \<Rightarrow> bool) \<Rightarrow> lifecycle \<Rightarrow> bool" for P where
  ends_now: "P s \<Longrightarrow> ends P s"
| ends_later: "\<exists>s'. lstep s s' \<Longrightarrow> \<forall>s'. lstep s s' \<longrightarrow> ends P s' \<Longrightarrow> ends P s"

lemma endsI:
  assumes "\<And>s. I s \<Longrightarrow> \<not> P s \<Longrightarrow> \<exists>s'. lstep s s'" and "\<And>s s'. I s \<Longrightarrow> lstep s s' \<Longrightarrow> I s'"
    and "I s"
  shows "ends P s"
  using assms(3)
proof (induction "run_left s" arbitrary: s rule: less_induct)
  case less
  show ?case
  proof (cases "P s")
    case True
    then show ?thesis by (rule ends_now)
  next
    case False
    show ?thesis
    proof (rule ends_later)
      show "\<exists>s'. lstep s s'" using assms(1) [OF less.prems False] .
      show "\<forall>s'. lstep s s' \<longrightarrow> ends P s'"
        using less.hyps lstep_decreases assms(2) less.prems by blast
    qed
  qed
qed

lemma main_enabled:
  assumes "lc_main s \<notin> {Selecting} \<union> range Exited"
  shows "\<exists>s'. lstep s s'"
  using assms by (cases "lc_main s") (auto intro: lstep.intros)

text \<open>After a signal, or once \<open>ListenAndServe\<close> returned, \<open>run\<close> can always go on until it exits.\<close>

definition stopping :: "lifecycle \<Rightarrow> bool" where
  "stopping s =
     (lc_ctxDone s \<or> (\<exists>err. lc_server s = Returned_with err) \<or> lc_serverErr s \<noteq> [] \<or>
      lc_main s \<in> range ErrBranch \<union> range Returning \<union> range Exited)"

lemma stopping_enabled:
  assumes "channel_inv s" and "stopping s" and "\<not> (\<exists>m. lc_main s = Exited m)"
  shows "\<exists>s'. lstep s s'"
proof (cases "lc_main s = Selecting")
  case True
  then consider "lc_ctxDone s" | err where "lc_server s = Returned_with err" | "lc_serverErr s \<noteq> []"
    using assms(2) by (auto simp: stopping_def)
  then show ?thesis
  proof cases
    case 1
    with True show ?thesis by (blast intro: select_ctx)
  next
    case 2
    then have "lc_serverErr s = []" using assms(1) by (simp add: channel_inv_def)
    then have "channel_send (report err) (lc_serverErr s) = Some [report err]"
      by (simp add: channel_send_def)
    with 2 show ?thesis by (blast intro: send)
  next
    case 3
    with True show ?thesis by (cases "lc_serverErr s") (auto intro: select_err)
  qed
next
  case False
  with assms(3) show ?thesis by (intro main_enabled) auto
qed

lemma stopping_step:
  assumes "lstep s s'" and "stopping s"
  shows "stopping s'"
  using assms by (cases rule: lstepE)
    (auto simp: stopping_def channel_send_def split: if_splits)

lemma stopping_ends:
  assumes "lreach otel w s" and "w_readyState w = 0" and "stopping s"
  shows "ends (\<lambda>s. \<exists>m. lc_main s = Exited m) s"
proof (rule endsI [where I = "\<lambda>s. lreach otel w s \<and> stopping s"])
  fix s assume "lreach otel w s \<and> stopping s" "\<not> (\<exists>m. lc_main s = Exited m)"
  then show "\<exists>s'. lstep s s'" using lreach_inv(2) [OF _ assms(2)] stopping_enabled by blast
next
  fix s s' assume "lreach otel w s \<and> stopping s" "lstep s s'"
  then show "lreach otel w s' \<and> stopping s'" using lreach_step stopping_step by blast
next
  show "lreach otel w s \<and> stopping s" using assms by blast
qed

text \<open>A run in which the port is taken: the gateway reports ready, then a signal wins the
  \<open>select\<close>.\<close>

lemma taken_port:
  obtains tr s tr' t where "run_of (started otel w) tr s"
    and "lc_server s = Reported" and "lc_serverErr s = [Some m]" and "lc_main s = Selecting"
    and "isReady (lc_world s) = ('''', True)" and "\<forall>u \<in> set tr. lc_server u \<noteq> Listening"
    and "run_of (started otel w) tr' t" and "lc_main t = Exited None" and "lc_serverErr t = [Some m]"
    and "lc_flush t = (if otel then Some fl else None)"
proof -
  let ?s0 = "started otel w"
  let ?s1 = "?s0\<lparr>lc_server := Returned_with (ServeError m)\<rparr>"
  let ?s2 = "?s1\<lparr>lc_server := Reported, lc_serverErr := [Some m]\<rparr>"
  let ?s3 = "?s2\<lparr>lc_main := Waking\<rparr>"
  let ?s4 = "?s3\<lparr>lc_main := Selecting, lc_world := markReady (lc_world ?s3)\<rparr>"
  let ?s5 = "?s4\<lparr>lc_ctxDone := True\<rparr>"
  let ?s6 = "?s5\<lparr>lc_main := CtxBranch\<rparr>"
  let ?s7 = "?s6\<lparr>lc_main := Draining, lc_world := markNotReady (lc_world ?s6)\<rparr>"
  let ?s7' = "?s7\<lparr>lc_main := ShuttingDown, lc_inShutdown := True\<rparr>"
  let ?s8 = "?s7'\<lparr>lc_main := Returning None\<rparr>"
  let ?s9 = "?s8\<lparr>lc_main := Exited None, lc_flush := (if lc_otel ?s8 then Some fl else None)\<rparr>"
  have 1: "run_of ?s0 ([] @ [?s1]) ?s1"
    by (rule run_step [OF run_here bind_fails]) (simp add: started_def)
  have 2: "run_of ?s0 (([] @ [?s1]) @ [?s2]) ?s2"
    by (rule run_step [OF 1 send [where err = "ServeError m"]])
      (simp_all add: channel_send_def report_def started_def)
  have 3: "run_of ?s0 ((([] @ [?s1]) @ [?s2]) @ [?s3]) ?s3"
    by (rule run_step [OF 2 sleep]) (simp add: started_def)
  have 4: "run_of ?s0 (((([] @ [?s1]) @ [?s2]) @ [?s3]) @ [?s4]) ?s4"
    by (rule run_step [OF 3 ready]) simp
  have "lstep ?s4 ?s5" by (rule signal) (simp add: started_def)
  moreover have "lstep ?s5 ?s6" by (rule select_ctx) simp_all
  moreover have "lstep ?s6 ?s7" by (rule drain) simp
  moreover have "lstep ?s7 ?s7'" by (rule shutdown) simp
  moreover have "lstep ?s7' ?s8" by (rule shut) simp
  moreover have "lstep ?s8 ?s9" by (rule defers) simp
  ultimately obtain tr' where 9: "run_of ?s0 tr' ?s9" using 4 run_step by meson
  show thesis
    by (rule that [OF 4 _ _ _ _ _ 9]) (simp_all add: isReady_def markReady_def started_def)
qed

section \<open>Properties\<close>

text \<open>C13: the readiness flag over the whole life of a gateway: it is up from the end of the 50 ms
  wait until \<open>run\<close> reacts to a signal or to the server's error, and down before and after; so
  \<open>/readyz\<close> answers 503 from the moment the shutdown starts to drain requests, and a \<open>run\<close>
  that is over never leaves it up.\<close>

theorem ready_only_while_serving:
  assumes "lreach otel w s" and "w_readyState w = 0"
  shows "(snd (isReady (lc_world s)) \<longleftrightarrow>
      lc_main s = Selecting \<or> lc_main s = CtxBranch \<or> (\<exists>m. lc_main s = ErrBranch m)) \<and>
    (lc_main s = Draining \<or> lc_main s = ShuttingDown \<longrightarrow> \<not> snd (isReady (lc_world s))) \<and>
    (lc_inShutdown s \<longrightarrow> w_readyState (lc_world s) = 0)"
  using lreach_inv(1,3) [OF assms]
  by (cases "lc_main s"; cases "lc_inShutdown s") (simp_all add: ready_inv_def shutdown_inv_def isReady_def)

theorem ready_only_while_serving_witness:
  "\<exists>s. lreach False quiet_world s \<and> lc_main s = Selecting \<and> snd (isReady (lc_world s))"
proof -
  obtain tr s where "run_of (started False quiet_world) tr s" and sel: "lc_main s = Selecting"
    by (rule taken_port)
  then have r: "lreach False quiet_world s" using run_of_reach by blast
  have "w_readyState quiet_world = 0" by code_simp
  with ready_only_while_serving [OF r] r sel show ?thesis by blast
qed

text \<open>C9: a gateway that is asked to stop, or whose server stopped, does stop: in every
  interleaving \<open>run\<close> returns, and until then some step can be taken. The goroutine never
  blocks on its send.\<close>

theorem stop_is_answered:
  assumes "lreach otel w s" and "w_readyState w = 0"
    and "lc_ctxDone s \<or> (\<exists>err. lc_server s = Returned_with err) \<or> lc_serverErr s \<noteq> []"
  shows "ends (\<lambda>s. \<exists>m. lc_main s = Exited m) s \<and>
    (\<forall>err. lc_server s = Returned_with err \<longrightarrow>
       channel_send (report err) (lc_serverErr s) = Some [report err])"
proof -
  have "stopping s" using assms(3) by (auto simp: stopping_def)
  with stopping_ends [OF assms(1,2)] lreach_inv(2) [OF assms(1,2)] show ?thesis
    by (simp add: channel_inv_def channel_send_def)
qed

theorem stop_is_answered_witness:
  "\<exists>s. lreach False quiet_world s \<and> lc_main s = Selecting \<and>
     ends (\<lambda>s. \<exists>m. lc_main s = Exited m) s"
proof -
  obtain tr s where "run_of (started False quiet_world) tr s" and sel: "lc_main s = Selecting"
    and ch: "lc_serverErr s = [Some ''bind: address already in use'']"
    by (rule taken_port)
  then have r: "lreach False quiet_world s" using run_of_reach by blast
  have "w_readyState quiet_world = 0" by code_simp
  moreover have "lc_serverErr s \<noteq> []" using ch by simp
  ultimately show ?thesis using stop_is_answered [OF r] r sel by blast
qed

text \<open>C36: two races of the start-up: the flag follows the clock, not the listener, so \<open>/readyz\<close>
  can say ready although binding the port failed and the server never listened; and when a
  signal arrives as well, the \<open>select\<close> may take it and the server's error is lost: the
  process exits with 0 and prints nothing.\<close>

theorem startup_races:
  "(\<exists>tr s. run_of (started otel w) tr s \<and> isReady (lc_world s) = ('''', True) \<and>
      lc_serverErr s = [Some m] \<and> list_all (\<lambda>u. lc_server u \<noteq> Listening) tr) \<and>
   (\<exists>tr t. run_of (started otel w) tr t \<and> lc_main t = Exited None \<and> lc_serverErr t = [Some m] \<and>
      main_exit None = (0, []))"
proof -
  obtain tr s tr' t where "run_of (started otel w) tr s" "isReady (lc_world s) = ('''', True)"
    "lc_serverErr s = [Some m]" "\<forall>u \<in> set tr. lc_server u \<noteq> Listening"
    "run_of (started otel w) tr' t" "lc_main t = Exited None" "lc_serverErr t = [Some m]"
    by (rule taken_port)
  moreover have "main_exit None = (0, [])" by (simp add: main_exit_def)
  ultimately show ?thesis by (auto simp: list_all_iff)
qed

end
