(* ===== verification/Drain.thy ===== *)
theory Drain
  imports Overlap Lifecycle
begin

text \<open>
  The process as a whole: the life cycle of \<open>run\<close> (\<open>Lifecycle\<close>) beside the connections its server
  has accepted and the requests on them (\<open>Overlap\<close>), from the first connection to the exit. The
  \<open>srv.Shutdown(shutdownCtx)\<close> of \<open>cmd/decision-gateway/main.go\<close>, one step in \<open>Lifecycle\<close>, is
  taken apart as \<open>net/http\<close> documents it: it closes the listener, closes idle connections as they
  become idle, and returns when no connection is left or its context's five seconds are over.
  A connection carries one request at a time, so its number is the number of the request's
  thread.
\<close>

section \<open>States\<close>

text \<open>\<open>http.ConnState\<close>; \<open>Unused\<close> is a connection the server has not accepted (yet).\<close>

datatype conn_state = Unused | StateNew | StateActive | StateIdle | StateClosed

record process =
  ps_life :: lifecycle
  ps_conn :: "nat \<Rightarrow> conn_state"
  ps_req :: ostate
  ps_deadline :: bool

definition booted :: "bool \<Rightarrow> world \<Rightarrow> Handler \<Rightarrow> process" where
  "booted otelEnabled w h =
     \<lparr>ps_life = started otelEnabled w, ps_conn = (\<lambda>c. Unused), ps_req = ostart h,
      ps_deadline = False\<rparr>"

definition alive :: "process \<Rightarrow> bool" where
  "alive p = (\<forall>m. lc_main (ps_life p) \<noteq> Exited m)"

definition set_conn :: "nat \<Rightarrow> conn_state \<Rightarrow> process \<Rightarrow> process" where
  "set_conn c st p = p\<lparr>ps_conn := (ps_conn p)(c := st)\<rparr>"

text \<open>What the server does with a connection when a request on it is answered: during a shutdown
  it does not keep connections alive.\<close>

definition after_request :: "process \<Rightarrow> conn_state" where
  "after_request p = (if lc_inShutdown (ps_life p) then StateClosed else StateIdle)"

definition shut_down :: "process \<Rightarrow> process" where
  "shut_down p = p\<lparr>ps_life := (ps_life p)\<lparr>lc_main := Returning None\<rparr>\<rparr>"

section \<open>Steps\<close>

text \<open>Who takes a step: the clients and the clock; the peers of a request that has its handler, its
  backend and its client, whose part is to let it be answered; or the process itself.\<close>

datatype actor = Outside | Peer | Itself

inductive pstep :: "BuildConfig \<Rightarrow> actor \<Rightarrow> process \<Rightarrow> process \<Rightarrow> bool" for cfg where
  \<comment> \<open>\<open>run\<close> and its goroutine, except the return of \<open>Shutdown\<close>\<close>
  life: "alive p \<Longrightarrow> lstep (ps_life p) l \<Longrightarrow>
    lc_main (ps_life p) = ShuttingDown \<longrightarrow> lc_main l = ShuttingDown \<Longrightarrow>
    pstep cfg Itself p (p\<lparr>ps_life := l\<rparr>)"
  \<comment> \<open>the clients\<close>
| accept: "alive p \<Longrightarrow> lc_server (ps_life p) = Listening \<Longrightarrow> \<not> lc_inShutdown (ps_life p) \<Longrightarrow>
    ps_conn p c = Unused \<Longrightarrow> pstep cfg Outside p (set_conn c StateNew p)"
| request: "alive p \<Longrightarrow> ps_conn p c \<in> {StateNew, StateIdle} \<Longrightarrow> os_task (ps_req p) c = Free \<Longrightarrow>
    ostep cfg c (ps_req p) q \<Longrightarrow> os_task q c \<noteq> Free \<Longrightarrow>
    pstep cfg Outside p (set_conn c StateActive (p\<lparr>ps_req := q\<rparr>))"
| own_answer: "alive p \<Longrightarrow> ps_conn p c \<in> {StateNew, StateIdle} \<Longrightarrow>
    pstep cfg Outside p (set_conn c (after_request p) p)"
| hangup: "alive p \<Longrightarrow> ps_conn p c \<in> {StateNew, StateIdle} \<Longrightarrow>
    pstep cfg Outside p (set_conn c StateClosed p)"
| deadline: "lc_main (ps_life p) = ShuttingDown \<Longrightarrow>
    pstep cfg Outside p (p\<lparr>ps_deadline := True\<rparr>)"
  \<comment> \<open>a request goes on, and is answered\<close>
| work: "alive p \<Longrightarrow> ps_conn p c = StateActive \<Longrightarrow> ostep cfg c (ps_req p) q \<Longrightarrow> os_task q c \<noteq> Free \<Longrightarrow>
    pstep cfg Itself p (p\<lparr>ps_req := q\<rparr>)"
| answered: "alive p \<Longrightarrow> ps_conn p c = StateActive \<Longrightarrow> ostep cfg c (ps_req p) q \<Longrightarrow> os_task q c = Free \<Longrightarrow>
    pstep cfg Peer p (set_conn c (after_request p) (p\<lparr>ps_req := q\<rparr>))"
  \<comment> \<open>\<open>ReadHeaderTimeout\<close>, and what \<open>Shutdown\<close> does with the connections\<close>
| header_timeout: "alive p \<Longrightarrow> ps_conn p c = StateNew \<Longrightarrow> pstep cfg Itself p (set_conn c StateClosed p)"
| close_idle: "lc_main (ps_life p) = ShuttingDown \<Longrightarrow> ps_conn p c = StateIdle \<Longrightarrow>
    pstep cfg Itself p (set_conn c StateClosed p)"
| drained: "lc_main (ps_life p) = ShuttingDown \<Longrightarrow> \<forall>c. ps_conn p c \<in> {Unused, StateClosed} \<Longrightarrow>
    pstep cfg Itself p (shut_down p)"
| timed_out: "lc_main (ps_life p) = ShuttingDown \<Longrightarrow> ps_deadline p \<Longrightarrow> pstep cfg Itself p (shut_down p)"

inductive_cases pstepE: "pstep cfg a p p'"

inductive psteps :: "BuildConfig \<Rightarrow> process \<Rightarrow> process \<Rightarrow> bool" for cfg where
  psteps_none: "psteps cfg p p"
| psteps_more: "psteps cfg p p1 \<Longrightarrow> pstep cfg a p1 p2 \<Longrightarrow> psteps cfg p p2"

definition preach :: "BuildConfig \<Rightarrow> bool \<Rightarrow> world \<Rightarrow> process \<Rightarrow> bool" where
  "preach cfg otel w p = (\<exists>h. good_handler cfg h \<and> psteps cfg (booted otel w h) p)"

lemma set_conn_sel [simp]:
  "ps_life (set_conn c st p) = ps_life p" "ps_req (set_conn c st p) = ps_req p"
  "ps_deadline (set_conn c st p) = ps_deadline p"
  "ps_conn (set_conn c st p) d = (if d = c then st else ps_conn p d)"
  by (simp_all add: set_conn_def)

lemma shut_down_sel [simp]:
  "ps_conn (shut_down p) = ps_conn p" "ps_req (shut_down p) = ps_req p"
  "ps_deadline (shut_down p) = ps_deadline p"
  "ps_life (shut_down p) = (ps_life p)\<lparr>lc_main := Returning None\<rparr>"
  by (simp_all add: shut_down_def)

section \<open>The two parts underneath\<close>

text \<open>Every step is one of the life cycle, or leaves it alone, and one of the requests, or leaves
  them alone: what \<open>Lifecycle\<close> and \<open>Overlap\<close> show holds of the process.\<close>

lemma pstep_parts:
  assumes "pstep cfg a p p'"
  shows "ps_life p' = ps_life p \<or> lstep (ps_life p) (ps_life p')"
    and "ps_req p' = ps_req p \<or> (\<exists>t. ostep cfg t (ps_req p) (ps_req p'))"
proof -
  show "ps_life p' = ps_life p \<or> lstep (ps_life p) (ps_life p')"
    using assms shut [of "ps_life p"] by cases simp_all
  show "ps_req p' = ps_req p \<or> (\<exists>t. ostep cfg t (ps_req p) (ps_req p'))"
    using assms by cases (simp_all, blast+)
qed

lemma preach_start: "good_handler cfg h \<Longrightarrow> preach cfg otel w (booted otel w h)"
  unfolding preach_def by (blast intro: psteps_none)

lemma preach_step: "preach cfg otel w p \<Longrightarrow> pstep cfg a p p' \<Longrightarrow> preach cfg otel w p'"
  unfolding preach_def by (blast intro: psteps_more)

lemma preach_induct [consumes 1, case_names start step]:
  assumes "preach cfg otel w p" and "\<And>h. good_handler cfg h \<Longrightarrow> P (booted otel w h)"
    and "\<And>a p p'. preach cfg otel w p \<Longrightarrow> P p \<Longrightarrow> pstep cfg a p p' \<Longrightarrow> P p'"
  shows "P p"
proof -
  obtain h where h: "good_handler cfg h" and run: "psteps cfg (booted otel w h) p"
    using assms(1) unfolding preach_def by blast
  from run have "preach cfg otel w p \<and> P p"
  proof (induction "booted otel w h" p rule: psteps.induct)
    case psteps_none
    then show ?case using assms(2) h preach_start by blast
  next
    case (psteps_more p1 a p2)
    then show ?case using assms(3) preach_step by blast
  qed
  then show ?thesis ..
qed

lemma preach_parts:
  assumes "preach cfg otel w p"
  shows "lreach otel w (ps_life p) \<and> oreach cfg (ps_req p)"
  using assms
proof (induction rule: preach_induct)
  case (start h)
  then show ?case by (auto simp: booted_def oreach_def intro: lreach_start osteps.none)
next
  case (step a p p')
  moreover have "oreach cfg (ps_req p')" if "ostep cfg t (ps_req p) (ps_req p')" for t
    using step.IH oreach_more osteps.more [OF osteps.none that] by blast
  ultimately show ?case using pstep_parts [OF step.hyps(2)] lreach_step by metis
qed

section \<open>Invariants\<close>

text \<open>A connection is active exactly while a request is in flight on it.\<close>

definition conn_inv :: "process \<Rightarrow> bool" where
  "conn_inv p = (\<forall>c. os_task (ps_req p) c = Free \<longleftrightarrow> ps_conn p c \<noteq> StateActive)"

text \<open>Once \<open>run\<close> is in \<open>Shutdown\<close>, or past it, the server is shut down; when the deadline did not
  pass, no connection is left after it.\<close>

definition closing_inv :: "process \<Rightarrow> bool" where
  "closing_inv p =
     ((lc_main (ps_life p) \<in> {ShuttingDown, Returning None, Exited None} \<longrightarrow> lc_inShutdown (ps_life p)) \<and>
      (lc_main (ps_life p) \<in> {Returning None, Exited None} \<and> \<not> ps_deadline p \<longrightarrow>
         (\<forall>c. ps_conn p c \<in> {Unused, StateClosed})))"

lemma ostep_other: "ostep cfg t s s' \<Longrightarrow> u \<noteq> t \<Longrightarrow> os_task s' u = os_task s u"
  by (auto elim: ostepE)

lemma conn_inv_set_conn:
  assumes "conn_inv p" and "ps_conn p c \<noteq> StateActive" and "st \<noteq> StateActive"
  shows "conn_inv (set_conn c st p)"
  using assms by (simp add: conn_inv_def)

lemma after_request_inactive [simp]: "after_request p \<noteq> StateActive"
  by (simp add: after_request_def)

lemma conn_inv_step:
  assumes "pstep cfg a p p'" and "conn_inv p"
  shows "conn_inv p'"
proof -
  have free: "os_task (ps_req p) c = Free \<longleftrightarrow> ps_conn p c \<noteq> StateActive" for c
    using assms(2) unfolding conn_inv_def by blast
  note set = conn_inv_set_conn [OF assms(2)]
  from assms(1) show ?thesis
  proof cases
    case (life l)
    with free show ?thesis by (simp add: conn_inv_def)
  next
    case (request c q)
    then show ?thesis using free ostep_other [OF request(6)] by (simp add: conn_inv_def)
  next
    case (own_answer c)
    then have "ps_conn p c \<noteq> StateActive" by auto
    with own_answer(2) set show ?thesis by simp
  next
    case (hangup c)
    then have "ps_conn p c \<noteq> StateActive" by auto
    with hangup(2) set show ?thesis by simp
  next
    case (work c q)
    then show ?thesis using free ostep_other [OF work(5)] by (simp add: conn_inv_def) metis
  next
    case (answered c q)
    then show ?thesis using free ostep_other [OF answered(5)] by (simp add: conn_inv_def)
  qed (use set free in \<open>simp_all add: conn_inv_def\<close>)
qed

lemma closing_life:
  assumes "lstep s l" and "shutdown_inv s"
    and "lc_main s \<in> {ShuttingDown, Returning None, Exited None} \<longrightarrow> lc_inShutdown s"
    and "lc_main s = ShuttingDown \<longrightarrow> lc_main l = ShuttingDown"
  shows "lc_main l \<in> {ShuttingDown, Returning None, Exited None} \<longrightarrow> lc_inShutdown l"
    and "lc_main l \<in> {Returning None, Exited None} \<longrightarrow> lc_main s \<in> {Returning None, Exited None}"
proof -
  have no: "lc_main s \<noteq> ErrBranch None" using assms(2) by (simp add: shutdown_inv_def)
  show "lc_main l \<in> {ShuttingDown, Returning None, Exited None} \<longrightarrow> lc_inShutdown l"
    using assms(1) by cases (use no assms(3,4) in auto)
  show "lc_main l \<in> {Returning None, Exited None} \<longrightarrow> lc_main s \<in> {Returning None, Exited None}"
    using assms(1) by cases (use no assms(4) in simp_all)
qed

text \<open>While connections are left, \<open>run\<close> is not past a \<open>Shutdown\<close> that has drained them.\<close>

lemma closing_invD:
  assumes "closing_inv p" and "ps_conn p c \<notin> {Unused, StateClosed}"
  shows "lc_main (ps_life p) \<in> {Returning None, Exited None} \<longrightarrow> ps_deadline p"
  using assms unfolding closing_inv_def by blast

lemma closing_inv_cong:
  assumes "closing_inv p" and "ps_life p' = ps_life p" and "ps_deadline p' = ps_deadline p"
    and "lc_main (ps_life p) \<in> {Returning None, Exited None} \<longrightarrow> ps_deadline p"
  shows "closing_inv p'"
  using assms unfolding closing_inv_def by (simp, blast)

lemma closing_inv_step:
  assumes "pstep cfg a p p'" and "closing_inv p" and "shutdown_inv (ps_life p)"
  shows "closing_inv p'"
proof -
  have busy: "closing_inv p'" if "ps_life p' = ps_life p" "ps_deadline p' = ps_deadline p"
      "ps_conn p c \<notin> {Unused, StateClosed}" for c
    using closing_inv_cong [OF assms(2) that(1,2) closing_invD [OF assms(2) that(3)]] .
  have sd: "lc_main (ps_life p) \<in> {ShuttingDown, Returning None, Exited None} \<longrightarrow> lc_inShutdown (ps_life p)"
    using assms(2) unfolding closing_inv_def by blast
  from assms(1) show ?thesis
  proof cases
    case (life l)
    note closing_life [OF life(4) assms(3) sd life(5)]
    with life(2) assms(2) show ?thesis unfolding closing_inv_def by (simp, blast)
  next
    case (accept c)
    then have "lc_main (ps_life p) \<notin> {ShuttingDown, Returning None, Exited None}" using sd by blast
    with accept(2) show ?thesis by (simp add: closing_inv_def)
  next
    case (request c q)
    then show ?thesis by (intro busy [of c]) auto
  next
    case (own_answer c)
    then show ?thesis by (intro busy [of c]) auto
  next
    case (hangup c)
    then show ?thesis by (intro busy [of c]) auto
  next
    case (work c q)
    then show ?thesis by (intro busy [of c]) auto
  next
    case (answered c q)
    then show ?thesis by (intro busy [of c]) auto
  next
    case (header_timeout c)
    then show ?thesis by (intro busy [of c]) auto
  qed (use sd in \<open>simp_all add: closing_inv_def\<close>)
qed

lemma preach_inv:
  assumes "preach cfg otel w p" and "w_readyState w = 0"
  shows "conn_inv p" and "closing_inv p"
proof -
  from assms(1) have "conn_inv p \<and> closing_inv p"
  proof (induction rule: preach_induct)
    case (start h)
    then show ?case by (simp add: conn_inv_def closing_inv_def booted_def started_def ostart_def)
  next
    case (step a p p')
    moreover have "shutdown_inv (ps_life p)"
      using preach_parts [OF step.hyps(1)] lreach_inv(3) assms(2) by blast
    ultimately show ?case using conn_inv_step closing_inv_step by blast
  qed
  then show "conn_inv p" "closing_inv p" by simp_all
qed

section \<open>Progress of a shutdown\<close>

text \<open>The connections that have been accepted, and what is left to do.\<close>

definition accepted :: "process \<Rightarrow> nat set" where
  "accepted p = {c. ps_conn p c \<noteq> Unused}"

definition conn_left :: "process \<Rightarrow> nat \<Rightarrow> nat" where
  "conn_left p c =
     (case ps_conn p c of
        StateActive \<Rightarrow> steps_to_go (ps_req p) c
      | StateNew \<Rightarrow> 1
      | StateIdle \<Rightarrow> 1
      | _ \<Rightarrow> 0)"

text \<open>Runs without new requests and without the clock, with their length: steps of the process and
  answers that come.\<close>

inductive left_alone :: "BuildConfig \<Rightarrow> nat \<Rightarrow> process \<Rightarrow> process \<Rightarrow> bool" for cfg where
  alone_none: "left_alone cfg 0 p p"
| alone_more: "left_alone cfg n p p1 \<Longrightarrow> pstep cfg a p1 p2 \<Longrightarrow> a \<noteq> Outside \<Longrightarrow> left_alone cfg (Suc n) p p2"

lemma left_alone_psteps: "left_alone cfg n p p' \<Longrightarrow> psteps cfg p p'"
  by (induction rule: left_alone.induct) (auto intro: psteps.intros)

text \<open>A connection whose request only waits for its backend or its client.\<close>

definition awaits :: "process \<Rightarrow> nat \<Rightarrow> bool" where
  "awaits p c = (ps_conn p c = StateActive \<and> answering (ps_req p) c)"

lemma shutdown_stays: "lstep s l \<Longrightarrow> lc_inShutdown s \<Longrightarrow> lc_inShutdown l"
  by (auto elim: lstepE)

lemma shutdown_stays_pstep:
  "pstep cfg a p p' \<Longrightarrow> lc_inShutdown (ps_life p) \<Longrightarrow> lc_inShutdown (ps_life p')"
  using pstep_parts(1) shutdown_stays by metis

lemma accepted_pstep:
  assumes "pstep cfg a p p'" and "lc_inShutdown (ps_life p) \<or> a \<noteq> Outside"
  shows "accepted p' = accepted p"
  using assms(1)
proof cases
  case (request c q)
  then show ?thesis by (auto simp: accepted_def)
next
  case (own_answer c)
  then show ?thesis by (auto simp: accepted_def after_request_def)
next
  case (hangup c)
  then show ?thesis by (auto simp: accepted_def)
next
  case (answered c q)
  then show ?thesis by (auto simp: accepted_def after_request_def)
qed (use assms(2) in \<open>auto simp: accepted_def\<close>)

text \<open>A step of the process during a shutdown uses up what is left.\<close>

definition shutdown_left :: "nat set \<Rightarrow> process \<Rightarrow> nat" where
  "shutdown_left C p = (\<Sum>c \<in> C. conn_left p c) + run_left (ps_life p)"

lemma sum_decreases:
  fixes f g :: "nat \<Rightarrow> nat"
  assumes "finite C" and "c \<in> C" and "g c < f c" and "\<And>d. d \<noteq> c \<Longrightarrow> g d = f d"
  shows "sum g C < sum f C"
  using assms(1)
proof (rule sum_strict_mono_ex1)
  show "\<forall>d \<in> C. g d \<le> f d" using assms(3,4) by (metis le_refl less_imp_le)
  show "\<exists>d \<in> C. g d < f d" using assms(2,3) by blast
qed

lemma conn_step_decreases:
  assumes "finite (accepted p)" and "ps_conn p c \<noteq> Unused" and "conn_left p' c < conn_left p c"
    and "\<And>d. d \<noteq> c \<Longrightarrow> conn_left p' d = conn_left p d" and "ps_life p' = ps_life p"
  shows "shutdown_left (accepted p) p' < shutdown_left (accepted p) p"
proof -
  have "c \<in> accepted p" using assms(2) by (simp add: accepted_def)
  from sum_decreases [where f = "conn_left p" and g = "conn_left p'", OF assms(1) this assms(3,4)]
    assms(5)
  show ?thesis
    by (simp add: shutdown_left_def)
qed

lemma life_step_decreases:
  assumes "lstep (ps_life p) (ps_life p')" and "ps_conn p' = ps_conn p" and "ps_req p' = ps_req p"
  shows "shutdown_left (accepted p) p' < shutdown_left (accepted p) p"
proof -
  have "conn_left p' = conn_left p" by (rule ext) (simp only: conn_left_def assms(2,3))
  with lstep_decreases [OF assms(1)] show ?thesis by (simp add: shutdown_left_def)
qed

lemma alone_decreases:
  assumes "pstep cfg a p p'" and "a \<noteq> Outside" and "lc_inShutdown (ps_life p)" and "conn_inv p"
    and "finite (accepted p)"
  shows "shutdown_left (accepted p) p' < shutdown_left (accepted p) p"
proof -
  have busy: "os_task (ps_req p) c \<noteq> Free" if "ps_conn p c = StateActive" for c
    using assms(4) that by (simp add: conn_inv_def)
  from assms(1) show ?thesis
  proof cases
    case (life l)
    then show ?thesis by (intro life_step_decreases) simp_all
  next
    case (work c q)
    note step = step_of_busy [OF work(5) busy [OF work(4)]]
    show ?thesis
      by (rule conn_step_decreases [OF assms(5), of c])
        (use work(2,4) step(1,2) in \<open>simp_all add: conn_left_def split: conn_state.splits\<close>)
  next
    case (answered c q)
    note step = step_of_busy [OF answered(5) busy [OF answered(4)]]
    have closed: "after_request p = StateClosed" using assms(3) by (simp add: after_request_def)
    show ?thesis
      by (rule conn_step_decreases [OF assms(5), of c])
        (use answered(2,4) step(1,2) closed in \<open>auto simp: conn_left_def split: conn_state.splits\<close>)
  next
    case (header_timeout c)
    show ?thesis
      by (rule conn_step_decreases [OF assms(5), of c])
        (use header_timeout in \<open>simp_all add: conn_left_def split: conn_state.splits\<close>)
  next
    case (close_idle c)
    show ?thesis
      by (rule conn_step_decreases [OF assms(5), of c])
        (use close_idle in \<open>simp_all add: conn_left_def split: conn_state.splits\<close>)
  next
    case drained
    then show ?thesis using shut [OF drained(3)] by (intro life_step_decreases) simp_all
  next
    case timed_out
    then show ?thesis using shut [OF timed_out(3)] by (intro life_step_decreases) simp_all
  qed (use assms(2) in simp_all)
qed

lemma accepted_grows: "pstep cfg a p p' \<Longrightarrow> \<exists>c. accepted p' \<subseteq> insert c (accepted p)"
  by (erule pstepE) (auto simp: accepted_def)

lemma finite_accepted: "preach cfg otel w p \<Longrightarrow> finite (accepted p)"
proof (induction rule: preach_induct)
  case (start h)
  then show ?case by (simp add: accepted_def booted_def)
next
  case (step a p p')
  then show ?case using accepted_grows by (meson finite.insertI finite_subset)
qed

lemma preach_psteps: "psteps cfg p p' \<Longrightarrow> preach cfg otel w p \<Longrightarrow> preach cfg otel w p'"
  by (induction rule: psteps.induct) (auto intro: preach_step)

lemma psteps_shutdown:
  assumes "psteps cfg p p'" and "lc_inShutdown (ps_life p)"
  shows "lc_inShutdown (ps_life p')" and "accepted p' = accepted p"
proof -
  from assms have "lc_inShutdown (ps_life p') \<and> accepted p' = accepted p"
    by (induction rule: psteps.induct) (use shutdown_stays_pstep accepted_pstep in blast)+
  then show "lc_inShutdown (ps_life p')" "accepted p' = accepted p" by simp_all
qed

lemma left_alone_bound:
  assumes "left_alone cfg n p p'" and "preach cfg otel w p" and "w_readyState w = 0"
    and "lc_inShutdown (ps_life p)"
  shows "n + shutdown_left (accepted p) p' \<le> shutdown_left (accepted p) p"
  using assms
proof (induction rule: left_alone.induct)
  case (alone_more n p p1 a p2)
  note run = left_alone_psteps [OF alone_more.hyps(1)]
  note down = psteps_shutdown [OF run alone_more.prems(3)]
  have r: "preach cfg otel w p1" using preach_psteps [OF run alone_more.prems(1)] .
  have "shutdown_left (accepted p1) p2 < shutdown_left (accepted p1) p1"
    using alone_decreases [OF alone_more.hyps(2,3) down(1)] preach_inv(1) [OF r alone_more.prems(2)]
      finite_accepted [OF r] by blast
  with alone_more.IH alone_more.prems down(2) show ?case by simp
qed simp

lemma shutdown_left_le:
  assumes "preach cfg otel w p" and "w_readyState w = 0" and "lc_inShutdown (ps_life p)"
  shows "shutdown_left (accepted p) p \<le> 9 * card (accepted p) + 5"
proof -
  note parts = preach_parts [OF assms(1)]
  have "shutdown_inv (ps_life p)" using parts lreach_inv(3) assms(2) by blast
  then have "run_left (ps_life p) \<le> 5" using assms(3)
    by (auto simp: shutdown_inv_def run_left_def main_left_def server_left_def split: server_pc.splits)
  moreover have "conn_left p c \<le> 9" for c
    using steps_to_go_le [of cfg "ps_req p" c] parts by (simp add: conn_left_def split: conn_state.splits)
  then have "(\<Sum>c \<in> accepted p. conn_left p c) \<le> 9 * card (accepted p)"
    using sum_bounded_above [of "accepted p" "conn_left p" 9] by simp
  ultimately show ?thesis by (simp add: shutdown_left_def)
qed

text \<open>A process that is shutting down can go on, unless all that is left to it is to wait for the
  peers of its last requests; and when the deadline has passed it need not even do that.\<close>

lemma unserved_goes_on:
  assumes "preach cfg otel w p" and "w_readyState w = 0" and "alive p"
    and "c \<in> busy (ps_req p)" and "\<not> answering (ps_req p) c"
  shows "\<exists>p'. pstep cfg Itself p p'"
proof -
  obtain u q where u: "os_task (ps_req p) u \<noteq> Free" "\<not> answering (ps_req p) u"
    and q: "ostep cfg u (ps_req p) q"
    using busy_can_go [OF conjunct2 [OF preach_parts [OF assms(1)]] assms(4,5)] by (auto simp: busy_def)
  have "ps_conn p u = StateActive" using preach_inv(1) [OF assms(1,2)] u(1) by (simp add: conn_inv_def)
  with work [OF assms(3) _ q unserved_stays [OF q u]] show ?thesis by blast
qed

lemma open_goes_on:
  assumes "lc_main (ps_life p) = ShuttingDown" and "ps_conn p c \<in> {StateNew, StateIdle}"
  shows "\<exists>p'. pstep cfg Itself p p'"
proof -
  have "alive p" using assms(1) by (simp add: alive_def)
  with assms show ?thesis by (blast intro: header_timeout close_idle)
qed

lemma shutdown_goes_on:
  assumes "preach cfg otel w p" and "w_readyState w = 0" and "lc_inShutdown (ps_life p)" and "alive p"
  shows "(\<exists>p'. pstep cfg Itself p p') \<or>
    \<not> ps_deadline p \<and> (\<exists>c. awaits p c) \<and>
      (\<forall>c. ps_conn p c = Unused \<or> ps_conn p c = StateClosed \<or> awaits p c)"
proof (rule disjCI)
  assume wait: "\<not> (\<not> ps_deadline p \<and> (\<exists>c. awaits p c) \<and>
      (\<forall>c. ps_conn p c = Unused \<or> ps_conn p c = StateClosed \<or> awaits p c))"
  have inv: "conn_inv p" by (rule preach_inv(1) [OF assms(1,2)])
  have "shutdown_inv (ps_life p)" using preach_parts [OF assms(1)] lreach_inv(3) assms(2) by blast
  then consider "lc_main (ps_life p) = ShuttingDown" | "lc_main (ps_life p) = Returning None"
    using assms(3,4) by (auto simp: shutdown_inv_def alive_def)
  then show "\<exists>p'. pstep cfg Itself p p'"
  proof cases
    case 1
    consider (late) "ps_deadline p" | (idle) c where "ps_conn p c \<in> {StateNew, StateIdle}"
      | (unserved) c where "ps_conn p c = StateActive" "\<not> answering (ps_req p) c"
      | (quiet) "\<not> ps_deadline p" "\<And>c. ps_conn p c \<in> {Unused, StateClosed} \<or> awaits p c"
    proof -
      have "ps_conn p c \<in> {StateNew, StateIdle} \<or> ps_conn p c = StateActive \<and> \<not> answering (ps_req p) c
          \<or> ps_conn p c \<in> {Unused, StateClosed} \<or> awaits p c" for c
        by (cases "ps_conn p c") (simp_all add: awaits_def)
      then show thesis using that by blast
    qed
    then show ?thesis
    proof cases
      case late
      with timed_out [OF 1] show ?thesis by blast
    next
      case (idle c)
      with open_goes_on [OF 1] show ?thesis by blast
    next
      case (unserved c)
      then have "c \<in> busy (ps_req p)" using inv by (simp add: conn_inv_def busy_def)
      with unserved_goes_on [OF assms(1,2,4)] unserved(2) show ?thesis by blast
    next
      case quiet
      with wait have "\<forall>c. ps_conn p c \<in> {Unused, StateClosed}" by blast
      with drained [OF 1] show ?thesis by blast
    qed
  next
    case 2
    then show ?thesis using life [OF assms(4) defers [OF 2]] by auto
  qed
qed

lemma awaits_answered:
  assumes "alive p" and "awaits p c"
  shows "\<exists>p'. pstep cfg Peer p p'"
proof -
  obtain q where "ostep cfg c (ps_req p) q" "os_task q c = Free"
    using answer_can_come assms(2) unfolding awaits_def by blast
  with answered [OF assms(1)] assms(2) show ?thesis unfolding awaits_def by blast
qed

section \<open>A request that is being served\<close>

text \<open>A server that listens, with one request in flight on connection \<open>c\<close>, while \<open>run\<close> still
  waits; and the ways it goes on without anything happening to the request.\<close>

definition serving :: "bool \<Rightarrow> world \<Rightarrow> Handler \<Rightarrow> nat \<Rightarrow> request \<Rightarrow> process" where
  "serving otelEnabled w h c r =
     \<lparr>ps_life = (started otelEnabled w)\<lparr>lc_server := Listening\<rparr>,
      ps_conn = (\<lambda>c. Unused)(c := StateActive),
      ps_req = moves c (Proxying 1 r) (at_pc c RLocking (initial h)) (ostart h),
      ps_deadline = False\<rparr>"

text \<open>A run of \<open>run\<close> alone, up to its return from a \<open>Shutdown\<close>, is one of the process.\<close>

lemma psteps_life:
  assumes "run_of l0 tr l" and "ps_life p = l0"
    and "\<forall>u \<in> set (l0 # tr). lc_main u \<notin> insert (Returning None) (range Exited)"
  shows "psteps cfg p (p\<lparr>ps_life := l\<rparr>)"
  using assms
proof (induction rule: run_of.induct)
  case (run_here s)
  then have "p\<lparr>ps_life := s\<rparr> = p" by auto
  then show ?case by (simp add: psteps_none)
next
  case (run_step s tr t t')
  let ?p = "p\<lparr>ps_life := t\<rparr>"
  have "t \<in> set (s # tr)" using run_step.hyps(1) by (cases rule: run_of.cases) auto
  then have "alive ?p" using run_step.prems(2) by (auto simp: alive_def)
  moreover have "lc_main t' = ShuttingDown" if "lc_main t = ShuttingDown"
    using run_step.hyps(2) that run_step.prems(2) by cases simp_all
  ultimately have "pstep cfg Itself ?p (?p\<lparr>ps_life := t'\<rparr>)"
    using run_step.hyps(2) by (intro life) simp_all
  with run_step show ?case using psteps_more by fastforce
qed

lemma reaches_serving: "psteps cfg (booted otel w h) (serving otel w h c r)"
proof -
  let ?p0 = "booted otel w h"
  let ?p1 = "?p0\<lparr>ps_life := (ps_life ?p0)\<lparr>lc_server := Listening\<rparr>\<rparr>"
  let ?p2 = "set_conn c StateNew ?p1"
  let ?q = "moves c (Proxying (arrived (ps_req ?p2)) r) (at_pc c RLocking (os_holder (ps_req ?p2))) (ps_req ?p2)"
  let ?p3 = "set_conn c StateActive (?p2\<lparr>ps_req := ?q\<rparr>)"
  have 1: "psteps cfg ?p0 ?p1"
    by (rule psteps_life [OF run_step [OF run_here bind]]) (auto simp: booted_def started_def)
  have "pstep cfg Outside ?p1 ?p2"
    by (rule accept) (simp_all add: booted_def started_def alive_def)
  moreover have "pstep cfg Outside ?p2 ?p3"
  proof (rule request)
    show "ostep cfg c (ps_req ?p2) ?q"
      by (rule proxied) (simp_all add: booted_def ostart_def initial_def)
  qed (simp_all add: booted_def started_def alive_def ostart_def)
  moreover have "?p3 = serving otel w h c r"
    by (simp add: serving_def booted_def set_conn_def ostart_def arrived_def initial_def)
  ultimately show ?thesis using 1 psteps_more by metis
qed

text \<open>The life of the process, from there to a \<open>Shutdown\<close> that is being waited for, and to the
  error of an accept loop that failed.\<close>

lemma serving_shuts_down:
  obtains l where "lc_main l = ShuttingDown" and "lc_inShutdown l"
    and "psteps cfg (serving otel w h c r) ((serving otel w h c r)\<lparr>ps_life := l\<rparr>)"
proof -
  let ?p = "serving otel w h c r"
  let ?l0 = "(started otel w)\<lparr>lc_server := Listening\<rparr>"
  let ?l1 = "?l0\<lparr>lc_main := Waking\<rparr>"
  let ?l2 = "?l1\<lparr>lc_main := Selecting, lc_world := markReady (lc_world ?l1)\<rparr>"
  let ?l3 = "?l2\<lparr>lc_ctxDone := True\<rparr>"
  let ?l4 = "?l3\<lparr>lc_main := CtxBranch\<rparr>"
  let ?l5 = "?l4\<lparr>lc_main := Draining, lc_world := markNotReady (lc_world ?l4)\<rparr>"
  let ?l6 = "?l5\<lparr>lc_main := ShuttingDown, lc_inShutdown := True\<rparr>"
  have "run_of ?l0 [?l1] ?l1" using run_step [OF run_here sleep, of ?l0] by (simp add: started_def)
  then have "run_of ?l0 ([?l1] @ [?l2]) ?l2" by (rule run_step) (rule ready, simp)
  then have "run_of ?l0 (([?l1] @ [?l2]) @ [?l3]) ?l3" by (rule run_step) (rule signal, simp add: started_def)
  then have "run_of ?l0 ((([?l1] @ [?l2]) @ [?l3]) @ [?l4]) ?l4" by (rule run_step) (rule select_ctx, simp_all)
  then have "run_of ?l0 (((([?l1] @ [?l2]) @ [?l3]) @ [?l4]) @ [?l5]) ?l5" by (rule run_step) (rule drain, simp)
  then have run: "run_of ?l0 ((((([?l1] @ [?l2]) @ [?l3]) @ [?l4]) @ [?l5]) @ [?l6]) ?l6"
    by (rule run_step) (rule shutdown, simp)
  have "psteps cfg ?p (?p\<lparr>ps_life := ?l6\<rparr>)"
    by (rule psteps_life [OF run]) (auto simp: serving_def started_def)
  then show thesis by (rule that [rotated 2]) simp_all
qed

lemma serving_fails:
  obtains l where "lc_main l = Returning (Some m)" and "\<not> lc_inShutdown l"
    and "psteps cfg (serving otel w h c r) ((serving otel w h c r)\<lparr>ps_life := l\<rparr>)"
proof -
  let ?p = "serving otel w h c r"
  let ?l0 = "(started otel w)\<lparr>lc_server := Listening\<rparr>"
  let ?l1 = "?l0\<lparr>lc_server := Returned_with (ServeError m)\<rparr>"
  let ?l2 = "?l1\<lparr>lc_server := Reported, lc_serverErr := [Some m]\<rparr>"
  let ?l3 = "?l2\<lparr>lc_main := Waking\<rparr>"
  let ?l4 = "?l3\<lparr>lc_main := Selecting, lc_world := markReady (lc_world ?l3)\<rparr>"
  let ?l5 = "?l4\<lparr>lc_main := ErrBranch (Some m), lc_serverErr := []\<rparr>"
  let ?l6 = "?l5\<lparr>lc_main := Returning (Some m), lc_world := markNotReady (lc_world ?l5)\<rparr>"
  have "run_of ?l0 [?l1] ?l1" using run_step [OF run_here accept_fails, of ?l0] by simp
  then have "run_of ?l0 ([?l1] @ [?l2]) ?l2"
    by (rule run_step) (rule send [where err = "ServeError m"], simp_all add: channel_send_def report_def started_def)
  then have "run_of ?l0 (([?l1] @ [?l2]) @ [?l3]) ?l3" by (rule run_step) (rule sleep, simp add: started_def)
  then have "run_of ?l0 ((([?l1] @ [?l2]) @ [?l3]) @ [?l4]) ?l4" by (rule run_step) (rule ready, simp)
  then have "run_of ?l0 (((([?l1] @ [?l2]) @ [?l3]) @ [?l4]) @ [?l5]) ?l5"
    by (rule run_step) (rule select_err, simp_all)
  then have run: "run_of ?l0 ((((([?l1] @ [?l2]) @ [?l3]) @ [?l4]) @ [?l5]) @ [?l6]) ?l6"
    by (rule run_step) (rule fail, simp)
  have "psteps cfg ?p (?p\<lparr>ps_life := ?l6\<rparr>)"
    by (rule psteps_life [OF run]) (auto simp: serving_def started_def)
  then show thesis by (rule that [rotated 2]) (simp_all add: started_def)
qed

lemma psteps_exit:
  assumes "psteps cfg p p'" and "lc_main (ps_life p') = Returning m"
  obtains q where "psteps cfg p q" and "lc_main (ps_life q) = Exited m" and "ps_req q = ps_req p'"
    and "ps_conn q = ps_conn p'" and "lc_inShutdown (ps_life q) = lc_inShutdown (ps_life p')"
    and "ps_deadline q = ps_deadline p'"
proof -
  have "alive p'" using assms(2) by (simp add: alive_def)
  then show thesis
    by (rule that [OF psteps_more [OF assms(1) life [OF _ defers [OF assms(2)]]]])
      (simp_all add: assms(2))
qed

lemma psteps_trans: "psteps cfg p1 p2 \<Longrightarrow> psteps cfg p p1 \<Longrightarrow> psteps cfg p p2"
  by (induction rule: psteps.induct) (auto intro: psteps.intros)

text \<open>Left to itself, a process that is shutting down exits, and its clock stands still.\<close>

lemma alone_deadline: "left_alone cfg n p p' \<Longrightarrow> ps_deadline p' = ps_deadline p"
  by (induction rule: left_alone.induct) (auto elim: pstepE)

lemma down_exits:
  assumes "preach cfg otel w p" and "w_readyState w = 0" and "lc_inShutdown (ps_life p)" and "\<not> alive p"
  shows "lc_main (ps_life p) = Exited None"
proof -
  have "shutdown_inv (ps_life p)" using preach_parts [OF assms(1)] lreach_inv(3) assms(2) by blast
  with assms(3,4) show ?thesis by (auto simp: shutdown_inv_def alive_def)
qed

lemma run_to_exit:
  assumes "preach cfg otel w p" and "w_readyState w = 0" and "lc_inShutdown (ps_life p)"
  shows "\<exists>n p'. left_alone cfg n p p' \<and> lc_main (ps_life p') = Exited None"
proof (rule ccontr)
  assume no: "\<not> ?thesis"
  have "\<exists>p'. left_alone cfg n p p'" for n
  proof (induction n)
    case 0
    show ?case using alone_none by blast
  next
    case (Suc n)
    then obtain q where q: "left_alone cfg n p q" by blast
    note run = left_alone_psteps [OF q]
    note r = preach_psteps [OF run assms(1)] and down = psteps_shutdown(1) [OF run assms(3)]
    have "alive q" using down_exits [OF r assms(2) down] no q by blast
    then have "\<exists>a p'. a \<noteq> Outside \<and> pstep cfg a q p'"
      using shutdown_goes_on [OF r assms(2) down] awaits_answered by blast
    with q show ?case using alone_more by blast
  qed
  then obtain p' where "left_alone cfg (Suc (shutdown_left (accepted p) p)) p p'" by blast
  from left_alone_bound [OF this assms] show False by simp
qed

section \<open>Properties\<close>

text \<open>C10: a process that shuts down and is not overtaken by the deadline leaves nothing behind: when
  \<open>run\<close> returns from \<open>Shutdown\<close>, every connection it accepted is closed and every request,
  the POSTs to \<open>/admin/routes\<close> included, was answered before the exit.\<close>

theorem graceful_exit:
  assumes "preach cfg otel w p" and "w_readyState w = 0"
    and "lc_main (ps_life p) \<in> {Returning None, Exited None}" and "\<not> ps_deadline p"
  shows "(\<forall>c. ps_conn p c = Unused \<or> ps_conn p c = StateClosed) \<and> (\<forall>t. os_task (ps_req p) t = Free)"
proof -
  have "ps_conn p c \<in> {Unused, StateClosed}" for c
    using preach_inv(2) [OF assms(1,2)] assms(3,4) unfolding closing_inv_def by blast
  then have closed: "ps_conn p c = Unused \<or> ps_conn p c = StateClosed" for c by simp
  then have "os_task (ps_req p) t = Free" for t
    using preach_inv(1) [OF assms(1,2)] closed [of t] unfolding conn_inv_def by fastforce
  with closed show ?thesis by blast
qed

lemma demo_shutting_down:
  obtains p where "preach demo_cfg False quiet_world p" and "w_readyState quiet_world = 0"
    and "lc_main (ps_life p) = ShuttingDown" and "lc_inShutdown (ps_life p)"
    and "accepted p = {1}" and "os_task (ps_req p) 1 \<noteq> Free" and "\<not> ps_deadline p"
proof -
  let ?s = "serving False quiet_world demo_gateway 1 (demo_request ''GET'' ''/a'')"
  obtain l where l: "lc_main l = ShuttingDown" "lc_inShutdown l"
    "psteps demo_cfg ?s (?s\<lparr>ps_life := l\<rparr>)"
    by (rule serving_shuts_down)
  have "preach demo_cfg False quiet_world (?s\<lparr>ps_life := l\<rparr>)"
    using preach_psteps [OF psteps_trans [OF l(3) reaches_serving] preach_start]
      demo_gateway_good(1) by blast
  moreover have "w_readyState quiet_world = 0" by code_simp
  ultimately show thesis
    by (rule that) (auto simp: l(1,2) serving_def accepted_def)
qed

theorem graceful_exit_witness:
  "\<exists>p. preach demo_cfg False quiet_world p \<and> lc_main (ps_life p) = Exited None \<and>
     accepted p = {1} \<and> ps_conn p 1 = StateClosed \<and> os_task (ps_req p) 1 = Free"
proof -
  obtain p where p: "preach demo_cfg False quiet_world p" "w_readyState quiet_world = 0"
    "lc_main (ps_life p) = ShuttingDown" "lc_inShutdown (ps_life p)"
    "accepted p = {1}" "os_task (ps_req p) 1 \<noteq> Free" "\<not> ps_deadline p"
    by (rule demo_shutting_down)
  obtain n q where q: "left_alone demo_cfg n p q" and out: "lc_main (ps_life q) = Exited None"
    using run_to_exit [OF p(1,2,4)] by blast
  note run = left_alone_psteps [OF q]
  have r: "preach demo_cfg False quiet_world q" by (rule preach_psteps [OF run p(1)])
  have same: "accepted q = {1}" using psteps_shutdown(2) [OF run p(4)] p(5) by simp
  then have "ps_conn q 1 \<noteq> Unused" by (auto simp: accepted_def)
  with graceful_exit [OF r p(2)] out alone_deadline [OF q] p(7) r same show ?thesis by auto
qed

text \<open>C11: a shutdown completes: once \<open>Shutdown\<close> is called and the clients send nothing more, the
  process takes at most nine steps per connection and five of its own, in any order. Until it
  has exited it can always take one by itself, unless all that keeps it are requests in flight
  each of which waits for its own backend or client; and when the five seconds are over it does
  not wait for those either: the exit is only ever a bounded number of its own steps away.\<close>

theorem shutdown_completes:
  assumes "preach cfg otel w p" and "w_readyState w = 0" and "lc_inShutdown (ps_life p)"
    and "left_alone cfg n p p'"
  shows "n \<le> 9 * card (accepted p) + 5 \<and>
    (lc_main (ps_life p') = Exited None \<or>
     (\<exists>p''. pstep cfg Itself p' p'') \<or>
     \<not> ps_deadline p' \<and> (\<exists>c. awaits p' c) \<and>
       (\<forall>c. ps_conn p' c = Unused \<or> ps_conn p' c = StateClosed \<or> awaits p' c))"
proof -
  note run = left_alone_psteps [OF assms(4)]
  note r = preach_psteps [OF run assms(1)] and down = psteps_shutdown(1) [OF run assms(3)]
  have "n \<le> 9 * card (accepted p) + 5"
    using left_alone_bound [OF assms(4,1-3)] shutdown_left_le [OF assms(1-3)] by simp
  with down_exits [OF r assms(2) down] shutdown_goes_on [OF r assms(2) down] show ?thesis by blast
qed

theorem shutdown_completes_witness:
  "\<exists>n p p'. preach demo_cfg False quiet_world p \<and> lc_main (ps_life p) = ShuttingDown \<and>
     os_task (ps_req p) 1 \<noteq> Free \<and> left_alone demo_cfg n p p' \<and>
     lc_main (ps_life p') = Exited None \<and> n \<le> 14"
proof -
  obtain p where p: "preach demo_cfg False quiet_world p" "w_readyState quiet_world = 0"
    "lc_main (ps_life p) = ShuttingDown" "lc_inShutdown (ps_life p)"
    "accepted p = {1}" "os_task (ps_req p) 1 \<noteq> Free" "\<not> ps_deadline p"
    by (rule demo_shutting_down)
  obtain n q where q: "left_alone demo_cfg n p q" and out: "lc_main (ps_life q) = Exited None"
    using run_to_exit [OF p(1,2,4)] by blast
  from shutdown_completes [OF p(1,2,4) q] p(5) have "n \<le> 14" by simp
  with p q out show ?thesis by blast
qed

text \<open>C15: from the call of \<open>Shutdown\<close> on no new connection is accepted, while the readiness flag is
  down: a probe that opens a connection finds the port closed, not the 503 of \<open>/readyz\<close>.\<close>

theorem no_drain_window:
  assumes "preach cfg otel w p" and "w_readyState w = 0" and "lc_inShutdown (ps_life p)"
    and "psteps cfg p p'"
  shows "accepted p' = accepted p \<and> (\<forall>c. ps_conn p c = Unused \<longrightarrow> ps_conn p' c = Unused) \<and>
    \<not> snd (isReady (lc_world (ps_life p')))"
proof -
  note down = psteps_shutdown [OF assms(4,3)]
  have l: "lreach otel w (ps_life p')" using preach_parts [OF preach_psteps [OF assms(4,1)]] ..
  have "ps_conn p' c = Unused" if "ps_conn p c = Unused" for c
    using down(2) that unfolding accepted_def by blast
  moreover have "w_readyState (lc_world (ps_life p')) = 0"
    using lreach_inv(1,3) [OF l assms(2)] down(1)
    by (auto simp: ready_inv_def shutdown_inv_def split: main_pc.splits)
  ultimately show ?thesis using down(2) by (simp add: isReady_def)
qed

theorem no_drain_window_witness:
  "\<exists>p p'. preach demo_cfg False quiet_world p \<and> lc_main (ps_life p) = ShuttingDown \<and>
     os_task (ps_req p) 1 \<noteq> Free \<and> psteps demo_cfg p p' \<and> lc_main (ps_life p') = Exited None \<and>
     accepted p' = {1}"
proof -
  obtain p where p: "preach demo_cfg False quiet_world p" "w_readyState quiet_world = 0"
    "lc_main (ps_life p) = ShuttingDown" "lc_inShutdown (ps_life p)"
    "accepted p = {1}" "os_task (ps_req p) 1 \<noteq> Free" "\<not> ps_deadline p"
    by (rule demo_shutting_down)
  obtain n q where q: "left_alone demo_cfg n p q" and out: "lc_main (ps_life q) = Exited None"
    using run_to_exit [OF p(1,2,4)] by blast
  with no_drain_window [OF p(1,2,4) left_alone_psteps [OF q]] p left_alone_psteps [OF q]
  show ?thesis by metis
qed

text \<open>C14: requests that are cut off, for any request: when the five seconds of the shutdown pass while
  it is in flight, \<open>run\<close> drops the error that \<open>Shutdown\<close> returns, so the process exits with 0
  and prints nothing; and when the server's accept loop fails, \<open>run\<close> returns its error without
  a \<open>Shutdown\<close>, so the requests in flight get no chance to finish.\<close>

theorem requests_cut_off:
  "(\<exists>p. psteps cfg (booted otel w h) p \<and> lc_main (ps_life p) = Exited None \<and>
      main_exit None = (0, []) \<and> os_task (ps_req p) c = Proxying 1 r) \<and>
   (\<exists>p. psteps cfg (booted otel w h) p \<and> lc_main (ps_life p) = Exited (Some m) \<and>
      fst (main_exit (Some m)) = 1 \<and> \<not> lc_inShutdown (ps_life p) \<and> \<not> ps_deadline p \<and>
      os_task (ps_req p) c = Proxying 1 r)"
proof (intro conjI)
  let ?s = "serving otel w h c r"
  have task: "os_task (ps_req ?s) c = Proxying 1 r" by (simp add: serving_def)
  obtain l where l: "lc_main l = ShuttingDown" "psteps cfg ?s (?s\<lparr>ps_life := l\<rparr>)"
    by (rule serving_shuts_down)
  let ?p = "?s\<lparr>ps_life := l\<rparr>"
  let ?d = "?p\<lparr>ps_deadline := True\<rparr>"
  have "pstep cfg Outside ?p ?d" by (rule deadline) (simp add: l)
  moreover have "pstep cfg Itself ?d (shut_down ?d)" by (rule timed_out) (simp_all add: l)
  ultimately have run: "psteps cfg (booted otel w h) (shut_down ?d)"
    using psteps_trans [OF l(2) reaches_serving] psteps_more by meson
  obtain q where "psteps cfg (booted otel w h) q" "lc_main (ps_life q) = Exited None"
    "ps_req q = ps_req (shut_down ?d)"
    by (rule psteps_exit [OF run, of None]) simp_all
  with task show "\<exists>p. psteps cfg (booted otel w h) p \<and> lc_main (ps_life p) = Exited None \<and>
      main_exit None = (0, []) \<and> os_task (ps_req p) c = Proxying 1 r"
    by (auto simp: main_exit_def)
next
  let ?s = "serving otel w h c r"
  have task: "os_task (ps_req ?s) c = Proxying 1 r" by (simp add: serving_def)
  obtain l where l: "lc_main l = Returning (Some m)" "\<not> lc_inShutdown l"
    "psteps cfg ?s (?s\<lparr>ps_life := l\<rparr>)"
    by (rule serving_fails)
  have run: "psteps cfg (booted otel w h) (?s\<lparr>ps_life := l\<rparr>)"
    by (rule psteps_trans [OF l(3) reaches_serving])
  obtain q where "psteps cfg (booted otel w h) q" "lc_main (ps_life q) = Exited (Some m)"
    "ps_req q = ps_req ?s" "\<not> lc_inShutdown (ps_life q)" "\<not> ps_deadline q"
    by (rule psteps_exit [OF run, of "Some m"]) (use l in \<open>simp_all add: serving_def\<close>)
  with task show "\<exists>p. psteps cfg (booted otel w h) p \<and> lc_main (ps_life p) = Exited (Some m) \<and>
      fst (main_exit (Some m)) = 1 \<and> \<not> lc_inShutdown (ps_life p) \<and> \<not> ps_deadline p \<and>
      os_task (ps_req p) c = Proxying 1 r"
    by (auto simp: main_exit_def)
qed

end
