(* ===== verification/LogRoute.thy ===== *)
theory LogRoute
  imports Abstract
begin

text \<open>
  The route in the access log. The proxy stamps the matched prefix on its response writer
  (\<open>stampRoute\<close> in \<open>internal/proxy/proxy.go\<close>), the recorder of \<open>internal/middleware/accesslog.go\<close>
  keeps it, and the log line prints it: which prefix that is, in terms of the abstract machine
  of \<open>Abstract\<close>.
\<close>

section \<open>Handlers that stamp nothing\<close>

fun plain_op :: "writer_op \<Rightarrow> bool" where
  "plain_op (OpStamp p) = False"
| "plain_op _ = True"

lemma plain_ops_keep_routes:
  "list_all plain_op ops \<Longrightarrow> recorded_routes (run_ops ops w) = recorded_routes w"
proof (induction ops arbitrary: w)
  case (Cons op ops)
  then show ?case by (cases op) simp_all
qed simp

lemma own_answers_routes:
  "recorded_routes (fst (snd (bad_star r w s))) = recorded_routes w"
  "recorded_routes (fst (snd (mux_NotFound r w s))) = recorded_routes w"
  "recorded_routes (fst (snd (Redirect loc r w s))) = recorded_routes w"
  by (simp_all add: bad_star_def mux_NotFound_def Redirect_def Let_def)

lemma writeError_routes [simp]: "recorded_routes (writeError w status msg) = recorded_routes w"
  by (simp add: writeError_def Encode_to_def Let_def)

lemma writeRoutes_routes: "recorded_routes (snd (writeRoutes w rs)) = recorded_routes w"
  by (simp add: writeRoutes_def Encode_to_def Let_def split: option.splits)

lemma writeCurrent_routes: "recorded_routes (fst (snd (writeCurrent r w s))) = recorded_routes w"
  using writeRoutes_routes
  by (simp add: writeCurrent_def split: option.splits prod.splits) (metis snd_conv)

lemma admin_routes: "recorded_routes (fst (snd (RoutesAdmin e h r w s))) = recorded_routes w"
  by (simp add: RoutesAdmin_def postRoutes_def writeCurrent_routes Let_def
      split: option.splits prod.splits sum.splits proxy_error.splits)

lemma probes_routes:
  "recorded_routes (fst (snd (Healthz r w s))) = recorded_routes w"
  "recorded_routes (fst (snd (Readyz ready r w s))) = recorded_routes w"
  by (simp_all add: Healthz_def Readyz_def Encode_to_def Let_def split: prod.splits)

section \<open>The handler that stamps\<close>

lemma answer_plain: "list_all plain_op (snd (answer res))"
  by (simp add: answer_def deliver_ops_def split: sum.splits)

lemma ReverseProxy_routes:
  "recorded_routes (fst (snd (ReverseProxy_ServeHTTP e p r w s))) = recorded_routes w"
proof -
  have "recorded_routes (run_ops ops w) = recorded_routes w" if "answer res = (out, ops)" for res out ops
    using plain_ops_keep_routes answer_plain [of res] that by simp
  then show ?thesis by (simp add: ReverseProxy_run Let_def split: prod.splits)
qed

lemma Handler_routes:
  assumes "good_handler cfg h" and "Handler_ServeHTTP e h r w s = (out, w', s')"
  shows "recorded_routes w' = recorded_routes
    (case Match (hd_router h) (u_path (r_URL r)) of None \<Rightarrow> w | Some x \<Rightarrow> stamp_route w (Prefix x))"
proof (cases "Match (hd_router h) (u_path (r_URL r))")
  case None
  have "list_all plain_op notFound_ops" by (simp add: notFound_ops_def)
  with None assms(2) show ?thesis using plain_ops_keep_routes by (auto simp: Handler_run)
next
  case (Some x)
  obtain p where "Handler_ServeHTTP e h r w s =
      ReverseProxy_ServeHTTP e p r (stamp_route w (Prefix x)) (with_id r s)"
    using Handler_matched [OF assms(1) Some] by metis
  with ReverseProxy_routes [of e p r "stamp_route w (Prefix x)" "with_id r s"] assms(2) Some
  show ?thesis by simp
qed

section \<open>The mux\<close>

text \<open>The route a reaction is logged with: the match of a request that goes to the proxy.\<close>

definition logged_route :: "route list \<Rightarrow> string \<Rightarrow> reaction \<Rightarrow> string" where
  "logged_route table path a =
     (case a of
        Forwarded x \<Rightarrow> Prefix x
      | BadUpgrade \<Rightarrow> Prefix (the (spec_match table path))
      | _ \<Rightarrow> '''')"

lemma stamped_recorder:
  "recorded_routes (AccessRec sr w') = recorded_routes (stamp_route (AccessRec sr0 w) p) \<Longrightarrow> sr_route sr = p"
  by (cases w) (auto simp: stamp_route_def method_defs)

lemma mux_routes:
  assumes T: "serves_table cfg cur T"
    and now: "if f_routesAdmin opts then w_current s = Some cur else h = cur"
    and run: "ServeMux_ServeHTTP (served_mux e promhttp opts cfg h) r (AccessRec fresh_recorder w) s
      = (out, AccessRec sr w', s')"
  defines "a \<equiv> react opts (w_readyState s = 1) T (w_reqhdr s) r"
  assumes "a \<noteq> Exporter"
  shows "sr_route sr = logged_route T (u_path (r_URL r)) a"
proof -
  let ?w = "AccessRec fresh_recorder w" and ?path = "u_path (r_URL r)"
  have plain: "sr_route sr = ''''" if "f r ?w s = (out, AccessRec sr w', s')"
    "recorded_routes (fst (snd (f r ?w s))) = recorded_routes ?w" for f :: handler
    using that by (simp add: fresh_recorder_def)
  note run = run [unfolded served_mux_cases]
  consider (star) "r_RequestURI r = ''*''"
    | (unclean) "r_RequestURI r \<noteq> ''*''" "r_Method r \<noteq> ''CONNECT''" "cleanPath ?path \<noteq> ?path"
    | (served) "r_RequestURI r \<noteq> ''*''" "r_Method r \<noteq> ''CONNECT'' \<longrightarrow> cleanPath ?path = ?path"
    by blast
  then show ?thesis
  proof cases
    case star
    with run have "sr_route sr = ''''" by (intro plain [of bad_star] own_answers_routes) simp
    with star show ?thesis by (simp add: a_def react_def logged_route_def Let_def)
  next
    case unclean
    let ?loc = "url_String (empty_url\<lparr>u_path := cleanPath ?path, u_rawquery := u_rawquery (r_URL r)\<rparr>)"
    from unclean run have "sr_route sr = ''''"
      by (intro plain [of "Redirect ?loc"] own_answers_routes) simp
    with unclean show ?thesis by (simp add: a_def react_def logged_route_def Let_def)
  next
    case served
    consider (health) "?path = ''/healthz''" | (ready) "?path = ''/readyz''"
      | (metrics) "?path = ''/metrics''" "f_metricsEnabled opts"
      | (admin) "?path = ''/admin/routes''" "f_routesAdmin opts"
      | (rest) "?path \<noteq> ''/healthz''" "?path \<noteq> ''/readyz''"
          "\<not> (f_metricsEnabled opts \<and> ?path = ''/metrics'')"
          "\<not> (f_routesAdmin opts \<and> ?path = ''/admin/routes'')"
      by blast
    then show ?thesis
    proof cases
      case health
      with served run have "sr_route sr = ''''" by (intro plain [of Healthz] probes_routes) auto
      with served health show ?thesis by (auto simp: a_def react_def logged_route_def Let_def)
    next
      case ready
      with served run have "sr_route sr = ''''" by (intro plain [of "Readyz isReady"] probes_routes) auto
      with served ready show ?thesis by (auto simp: a_def react_def logged_route_def Let_def)
    next
      case metrics
      with served assms(5) show ?thesis by (auto simp: a_def react_def Let_def)
    next
      case admin
      with served run have "sr_route sr = ''''"
        by (intro plain [of "RoutesAdmin e (Some \<lparr>ho_cfg = cfg\<rparr>)"] admin_routes) auto
      with served admin show ?thesis
        by (auto simp: a_def react_def logged_route_def Let_def split: option.splits)
    next
      case rest
      show ?thesis
      proof (cases "HasPrefix ?path ''/''")
        case False
        with served rest run have "sr_route sr = ''''"
          by (intro plain [of mux_NotFound] own_answers_routes) auto
        with False served rest show ?thesis
          by (auto simp: a_def react_def logged_route_def Let_def split: option.splits)
      next
        case True
        with served rest run now have "Handler_ServeHTTP e cur r ?w s = (out, AccessRec sr w', s')"
          by (auto simp: Holder_ServeHTTP_def split: if_splits)
        moreover have "good_handler cfg cur" "Match (hd_router cur) ?path = spec_match T ?path"
          using T by (simp_all add: serves_table_def)
        ultimately have "recorded_routes (AccessRec sr w') = recorded_routes
            (case spec_match T ?path of None \<Rightarrow> ?w | Some x \<Rightarrow> stamp_route ?w (Prefix x))"
          using Handler_routes by metis
        then have "sr_route sr = (case spec_match T ?path of None \<Rightarrow> '''' | Some x \<Rightarrow> Prefix x)"
          using stamped_recorder by (auto simp: fresh_recorder_def split: option.splits)
        with True served rest show ?thesis
          by (auto simp: a_def react_def logged_route_def Let_def split: option.splits)
      qed
    qed
  qed
qed

section \<open>The gateway\<close>

lemma gateway_log_route:
  assumes "wire e sdk promhttp opts s0 = (Inr g, s1)" and "inner_handler promhttp"
    and "leaves_table promhttp" and "serves g s1 s"
    and "gw_handler g r (Conn new_conn) (s\<lparr>w_reqhdr := rh\<rparr>) = (Returned, w', s')"
  defines "a \<equiv> react opts (w_readyState s = 1) (active_table opts g s) rh r"
  assumes "a \<noteq> Exporter"
  shows "\<exists>r' sr t0 t1. w_stdout s' = w_stdout s @ [access_line e r' sr t0 t1] \<and>
    r_Method r' = r_Method r \<and> r_URL r' = r_URL r \<and>
    sr_status sr = (if cn_wrote (conn_of w') then cn_status (conn_of w') else 200) \<and>
    sr_route sr = logged_route (active_table opts g s) (u_path (r_URL r)) a"
proof -
  let ?T = "active_table opts g s"
  obtain rt tr h cid r1 w1 s2 w2 s3 sr t0 t1 where rt: "NewRouter (gw_routes g) = Inr rt"
    and tr: "wired_tracer sdk opts = Inr tr"
    and h: "good_handler (build_cfg opts tr) h" "hd_router h = rt"
    and m: "ServeMux_ServeHTTP (served_mux e promhttp opts (build_cfg opts tr) h) r1
      (AccessRec fresh_recorder w1) s2 = (Returned, AccessRec sr w2, s3)"
    and same: "same_request r1 (r\<lparr>r_ctx := (r_ctx r)\<lparr>cx_correlation := Some cid\<rparr>\<rparr>)"
      "same_start (AccessRec fresh_recorder w1) s2
        (on_header (hdr_Set CorrelationIDHeader cid) (Conn new_conn)) (s\<lparr>w_reqhdr := rh\<rparr>)"
      "same_end (AccessRec sr w2) s3 w' s'"
    and log: "w_stdout s' = w_stdout (s\<lparr>w_reqhdr := rh\<rparr>) @ (case Returned of
        Returned \<Rightarrow> [access_line e r1 sr t0 t1] | Panicked \<Rightarrow> [])"
    by (rule log_run [OF assms(1,2,5)])
  obtain cur where cur: "serves_table (build_cfg opts tr) cur ?T"
    "if f_routesAdmin opts then w_current s = Some cur \<and> Routes (hd_router cur) = ?T else h = cur"
    by (rule table_in_force [OF assms(1-4) tr h(1) rt [folded h(2)]])
  have start: "w_current s2 = w_current s" "w_reqhdr s2 = rh" "w_readyState s2 = w_readyState s"
    using same(2) by (simp_all add: same_start_def)
  have req: "asks_same r1 r" using same(1) by (simp add: same_request_def asks_same_def)
  then have url: "r_Method r1 = r_Method r" "r_URL r1 = r_URL r" by (simp_all add: asks_same_def)
  have a: "react opts (w_readyState s2 = 1) ?T (w_reqhdr s2) r1 = a"
    using react_cong [OF req] start by (simp add: a_def)
  have route: "sr_route sr = logged_route ?T (u_path (r_URL r1))
      (react opts (w_readyState s2 = 1) ?T (w_reqhdr s2) r1)"
    by (rule mux_routes [OF cur(1) _ m]) (use cur(2) start a assms(7) in auto)
  have mux: "http_handler (ServeMux_ServeHTTP (served_mux e promhttp opts (build_cfg opts tr) h))"
    using served_mux_inner [OF assms(2)] by (simp add: inner_handler_def)
  have "in_step (AccessRec fresh_recorder w1)" using same(2) by (simp add: same_start_def)
  then have "in_step (AccessRec sr w2)" using http_handler.keeps_in_step [OF mux m] by simp
  then have "sr_status sr = status_view (Conn (conn_of w'))"
    using same(3) in_step_conn [of w2] by (simp add: same_end_def)
  then show ?thesis
    using route [unfolded a url] log url client_status [of "conn_of w'"]
    by (intro exI [of _ r1] exI [of _ sr] exI [of _ t0] exI [of _ t1]) simp
qed

text \<open>That route is a prefix of the table, or none.\<close>

lemma logged_route_bounded:
  "logged_route T (u_path (r_URL r)) (react opts b T rh r) \<in> insert '''' (Prefix ` set T)"
proof -
  have "Prefix x \<in> Prefix ` set T" if "spec_match T path = Some x" for x path
    using that by (auto simp: spec_match_def dest: find_Some_mem)
  then show ?thesis
    by (auto simp: react_def logged_route_def Let_def split: option.splits)
qed

end
