(* ===== verification/LogSink.thy ===== *)
theory LogSink
  imports AccessLog
begin

text \<open>
  The access log under concurrent requests: the closure of \<open>AccessLog\<close> with its mutex
  (\<open>internal/middleware/accesslog.go\<close>). Every request is a thread; the steps of the threads
  interleave in any order. \<open>Encode\<close> hands the sink the bytes of one entry, and the sink takes
  them in as many pieces as it likes, or fails; the error is dropped. The sequential model
  (\<open>AccessLog\<close>) appends an entry to the log in one step: the theorem here is why it may.
\<close>

section \<open>Threads\<close>

text \<open>What the closure knows when the inner handler has returned.\<close>

record served =
  sv_request :: request
  sv_wrapped :: statusRecorder
  sv_start :: int
  sv_stop :: int

definition served_line :: "env \<Rightarrow> served \<Rightarrow> string" where
  "served_line e v = access_line e (sv_request v) (sv_wrapped v) (sv_start v) (sv_stop v)"

text \<open>Where a thread is: in the inner handler; before \<open>mu.Lock()\<close>; in \<open>Encode\<close> with these bytes
  left to write; after it, with or without an error; after \<open>mu.Unlock()\<close>; or gone, when the
  inner handler panicked.\<close>

datatype log_pc =
    Serving
  | Waiting served
  | Encoding served string
  | Encoded served bool
  | Done served bool
  | Aborted

record log_state =
  ls_mu :: bool
  ls_out :: string
  ls_pc :: "nat \<Rightarrow> log_pc"

definition goto :: "nat \<Rightarrow> log_pc \<Rightarrow> log_state \<Rightarrow> log_state" where
  "goto t p s = s\<lparr>ls_pc := (ls_pc s)(t := p)\<rparr>"

inductive log_step :: "env \<Rightarrow> nat \<Rightarrow> log_state \<Rightarrow> log_state \<Rightarrow> bool" for e where
  answered: "ls_pc s t = Serving \<Longrightarrow> log_step e t s (goto t (Waiting v) s)"
| panicked: "ls_pc s t = Serving \<Longrightarrow> log_step e t s (goto t Aborted s)"
| lock: "ls_pc s t = Waiting v \<Longrightarrow> \<not> ls_mu s \<Longrightarrow>
    log_step e t s (goto t (Encoding v (served_line e v)) (s\<lparr>ls_mu := True\<rparr>))"
| taken: "ls_pc s t = Encoding v (piece @ rest) \<Longrightarrow>
    log_step e t s (goto t (Encoding v rest) (s\<lparr>ls_out := ls_out s @ piece\<rparr>))"
| encoded: "ls_pc s t = Encoding v '''' \<Longrightarrow> log_step e t s (goto t (Encoded v True) s)"
| write_error: "ls_pc s t = Encoding v rest \<Longrightarrow> rest \<noteq> '''' \<Longrightarrow>
    log_step e t s (goto t (Encoded v False) s)"
| unlock: "ls_pc s t = Encoded v ok \<Longrightarrow>
    log_step e t s (goto t (Done v ok) (s\<lparr>ls_mu := False\<rparr>))"

inductive_cases log_stepE: "log_step e t s s'"

text \<open>The log starts with what was printed before the server was started.\<close>

definition log_start :: "string \<Rightarrow> log_state" where
  "log_start before = \<lparr>ls_mu = False, ls_out = before, ls_pc = (\<lambda>t. Serving)\<rparr>"

inductive log_reach :: "env \<Rightarrow> string \<Rightarrow> log_state \<Rightarrow> bool" for e before where
  start: "log_reach e before (log_start before)"
| step: "log_reach e before s \<Longrightarrow> log_step e t s s' \<Longrightarrow> log_reach e before s'"

lemma goto_sel [simp]:
  "ls_mu (goto t p s) = ls_mu s" "ls_out (goto t p s) = ls_out s"
  "ls_pc (goto t p s) u = (if u = t then p else ls_pc s u)"
  by (simp_all add: goto_def)

section \<open>Who writes\<close>

fun in_section :: "log_pc \<Rightarrow> bool" where
  "in_section (Encoding v rest) = True"
| "in_section (Encoded v ok) = True"
| "in_section _ = False"

fun has_piece :: "log_pc \<Rightarrow> bool" where
  "has_piece (Done v ok) = True"
| "has_piece p = in_section p"

text \<open>The bytes \<open>x\<close> a thread at this point has contributed to the log.\<close>

fun piece_of :: "env \<Rightarrow> log_pc \<Rightarrow> string \<Rightarrow> bool" where
  "piece_of e (Encoding v rest) x = (x @ rest = served_line e v)"
| "piece_of e (Encoded v ok) x = (if ok then x = served_line e v else prefix x (served_line e v))"
| "piece_of e (Done v ok) x = (if ok then x = served_line e v else prefix x (served_line e v))"
| "piece_of e _ x = False"

text \<open>The log is made of one piece per thread that has got the mutex, in the order they got it;
  only the last one can be unfinished.\<close>

definition pieces_inv :: "env \<Rightarrow> string \<Rightarrow> (nat \<times> string) list \<Rightarrow> log_state \<Rightarrow> bool" where
  "pieces_inv e before ps s =
     (ls_out s = before @ concat (map snd ps) \<and> distinct (map fst ps) \<and>
      (\<forall>t. has_piece (ls_pc s t) \<longleftrightarrow> t \<in> fst ` set ps) \<and>
      (\<forall>(t, x) \<in> set ps. piece_of e (ls_pc s t) x) \<and>
      (\<forall>t. in_section (ls_pc s t) \<longrightarrow> ls_mu s \<and> ps \<noteq> [] \<and> t = fst (last ps)))"

lemma pieces_inv_sel:
  assumes "pieces_inv e before ps s"
  shows "ls_out s = before @ concat (map snd ps)" and "distinct (map fst ps)"
    and "has_piece (ls_pc s t) \<longleftrightarrow> t \<in> fst ` set ps"
    and "(t, x) \<in> set ps \<Longrightarrow> piece_of e (ls_pc s t) x"
    and "in_section (ls_pc s t) \<Longrightarrow> ls_mu s" and "in_section (ls_pc s t) \<Longrightarrow> ps \<noteq> []"
    and "in_section (ls_pc s t) \<Longrightarrow> t = fst (last ps)"
  using assms unfolding pieces_inv_def by blast+

lemma pieces_invD:
  assumes "pieces_inv e before ps s" and "in_section (ls_pc s t)"
  obtains qs x where "ps = qs @ [(t, x)]" and "t \<notin> fst ` set qs"
    and "\<And>u. u \<noteq> t \<Longrightarrow> \<not> in_section (ls_pc s u)"
proof -
  note sel = pieces_inv_sel [OF assms(1)]
  from sel(6,7) [OF assms(2)] have ps: "ps = butlast ps @ [(t, snd (last ps))]" by simp
  with sel(2) have "distinct (map fst (butlast ps @ [(t, snd (last ps))]))" by simp
  then have "t \<notin> fst ` set (butlast ps)" by simp
  with ps that sel(7) assms(2) show thesis by metis
qed

text \<open>A thread that is alone in the section changes its own piece and its own place.\<close>

lemma pieces_inv_last:
  assumes "pieces_inv e before (qs @ [(t, x)]) s" and "in_section (ls_pc s t)" and "has_piece p"
    and "piece_of e p (x @ y)" and "in_section p \<longrightarrow> m"
  shows "pieces_inv e before (qs @ [(t, x @ y)]) (goto t p (s\<lparr>ls_mu := m, ls_out := ls_out s @ y\<rparr>))"
proof -
  note sel = pieces_inv_sel [OF assms(1)]
  have t: "t \<notin> fst ` set qs" using sel(2) by simp
  have alone: "\<not> in_section (ls_pc s u)" if "u \<noteq> t" for u using sel(7) that by auto
  have others: "u \<noteq> t \<and> piece_of e (ls_pc s u) z" if "(u, z) \<in> set qs" for u z
    using that sel(4) t by force
  show ?thesis
    unfolding pieces_inv_def using sel(1,2,3) assms(3-5) others alone by auto
qed

text \<open>A thread outside the section moves there, or stays outside, and no piece changes.\<close>

lemma pieces_inv_outside:
  assumes "pieces_inv e before ps s" and "\<not> has_piece (ls_pc s t)" and "\<not> has_piece p"
  shows "pieces_inv e before ps (goto t p s)"
proof -
  have "t \<notin> fst ` set ps" using assms(1,2) by (auto simp: pieces_inv_def)
  then have "u \<noteq> t" if "(u, z) \<in> set ps" for u z using that by force
  moreover have "\<not> in_section p" using assms(3) by (cases p) auto
  ultimately show ?thesis using assms by (auto simp: pieces_inv_def)
qed

lemma pieces_inv_lock:
  assumes "pieces_inv e before ps s" and "ls_pc s t = Waiting v" and "\<not> ls_mu s"
  shows "pieces_inv e before (ps @ [(t, '''')])
    (goto t (Encoding v (served_line e v)) (s\<lparr>ls_mu := True\<rparr>))"
proof -
  have "\<not> has_piece (ls_pc s t)" using assms(2) by simp
  then have "t \<notin> fst ` set ps" using assms(1) by (auto simp: pieces_inv_def)
  moreover from this have "u \<noteq> t" if "(u, z) \<in> set ps" for u z using that by force
  moreover have "\<not> in_section (ls_pc s u)" for u using assms(1,3) by (auto simp: pieces_inv_def)
  ultimately show ?thesis using assms(1) by (auto simp: pieces_inv_def)
qed

lemma pieces_inv_step:
  assumes "log_step e t s s'" and "pieces_inv e before ps s"
  shows "\<exists>ps'. pieces_inv e before ps' s'"
proof -
  have last: "\<exists>ps'. pieces_inv e before ps' (goto t p (s\<lparr>ls_mu := m, ls_out := ls_out s @ y\<rparr>))"
    if inside: "in_section (ls_pc s t)" and "has_piece p" "in_section p \<longrightarrow> m"
      "\<And>x. piece_of e (ls_pc s t) x \<Longrightarrow> piece_of e p (x @ y)" for p m y
  proof -
    obtain qs x where ps: "ps = qs @ [(t, x)]" by (rule pieces_invD [OF assms(2) inside])
    then have "piece_of e (ls_pc s t) x" using pieces_inv_sel(4) [OF assms(2)] by simp
    from pieces_inv_last [OF assms(2) [unfolded ps] that(1,2) that(4) [OF this] that(3)]
    show ?thesis ..
  qed
  have locked: "in_section (ls_pc s t) \<Longrightarrow> ls_mu s" using assms(2) by (simp add: pieces_inv_def)
  have keep: "s\<lparr>ls_mu := ls_mu s, ls_out := y\<rparr> = s\<lparr>ls_out := y\<rparr>" for y by simp
  from assms(1) show ?thesis
  proof cases
    case (answered v)
    then show ?thesis using pieces_inv_outside [OF assms(2), of t "Waiting v"] by auto
  next
    case panicked
    then show ?thesis using pieces_inv_outside [OF assms(2), of t Aborted] by auto
  next
    case (lock v)
    then show ?thesis using pieces_inv_lock [OF assms(2)] by blast
  next
    case (taken v piece rest)
    then show ?thesis using last [of "Encoding v rest" "ls_mu s" piece, unfolded keep] locked by simp
  next
    case (encoded v)
    then show ?thesis using last [of "Encoded v True" "ls_mu s" "''''", unfolded keep] locked by simp
  next
    case (write_error v rest)
    moreover have "prefix x (served_line e v)" if "x @ rest = served_line e v" for x
      using that by (metis prefixI)
    ultimately show ?thesis
      using last [of "Encoded v False" "ls_mu s" "''''", unfolded keep] locked by simp
  next
    case (unlock v ok)
    then show ?thesis using last [of "Done v ok" False "''''"] by auto
  qed
qed

lemma log_reach_pieces: "log_reach e before s \<Longrightarrow> \<exists>ps. pieces_inv e before ps s"
proof (induction rule: log_reach.induct)
  case start
  have "pieces_inv e before [] (log_start before)" by (simp add: pieces_inv_def log_start_def)
  then show ?case ..
next
  case (step s t s')
  then show ?case using pieces_inv_step by blast
qed

section \<open>Reading the log back\<close>

text \<open>How a line-oriented reader cuts the log: the complete lines, and what follows the last
  newline.\<close>

fun cut_lines :: "string \<Rightarrow> string list \<times> string" where
  "cut_lines [] = ([], [])"
| "cut_lines (c # cs) =
     (let (ls, rest) = cut_lines cs in
      if c = newline then ([c] # ls, rest)
      else (case ls of [] \<Rightarrow> ([], c # rest) | l # ls' \<Rightarrow> ((c # l) # ls', rest)))"

definition one_line :: "string \<Rightarrow> bool" where
  "one_line l = (l \<noteq> [] \<and> last l = newline \<and> newline \<notin> set (butlast l))"

lemma one_line_snoc: "one_line l \<longleftrightarrow> (\<exists>t. l = t @ [newline] \<and> newline \<notin> set t)"
  unfolding one_line_def by (metis append_butlast_last_id butlast_snoc last_snoc snoc_eq_iff_butlast)

lemma cut_lines_part: "newline \<notin> set x \<Longrightarrow> cut_lines x = ([], x)"
  by (induction x) auto

lemma cut_lines_line:
  "newline \<notin> set t \<Longrightarrow> cut_lines (t @ newline # x) = ((t @ [newline]) # fst (cut_lines x), snd (cut_lines x))"
  by (induction t) (auto split: prod.splits)

lemma cut_lines_concat:
  assumes "\<forall>l \<in> set ls. one_line l" and "newline \<notin> set x"
  shows "cut_lines (concat ls @ x) = (ls, x)"
  using assms(1)
proof (induction ls)
  case Nil
  then show ?case using assms(2) by (simp add: cut_lines_part)
next
  case (Cons l ls)
  from Cons.prems obtain t where "l = t @ [newline]" "newline \<notin> set t"
    by (auto simp: one_line_snoc)
  with Cons show ?case by (simp add: cut_lines_line)
qed

lemma served_line_one_line:
  assumes "\<And>q. printable (e_float e q)"
  shows "one_line (served_line e v)"
proof -
  obtain t where t: "served_line e v = t @ [newline]" and "printable t"
    using access_line_one_line [OF assms] unfolding served_line_def by blast
  moreover have "\<not> 32 \<le> byte_of newline" by code_simp
  ultimately have "newline \<notin> set t" by (auto simp: printable_def list_all_iff)
  with t show ?thesis by (auto simp: one_line_snoc)
qed

lemma one_line_part:
  assumes "one_line (x @ y)" and "y \<noteq> []"
  shows "newline \<notin> set x"
  using assms by (auto simp: one_line_def butlast_append)

section \<open>Lines never interleave\<close>

text \<open>The entry of a thread all of whose bytes are in the log.\<close>

fun entry_logged :: "log_pc \<Rightarrow> served option" where
  "entry_logged (Encoding v rest) = (if rest = '''' then Some v else None)"
| "entry_logged (Encoded v ok) = (if ok then Some v else None)"
| "entry_logged (Done v ok) = (if ok then Some v else None)"
| "entry_logged _ = None"

fun write_failed :: "log_pc \<Rightarrow> bool" where
  "write_failed (Encoded v ok) = (\<not> ok)"
| "write_failed (Done v ok) = (\<not> ok)"
| "write_failed _ = False"

definition line_of :: "env \<Rightarrow> log_state \<Rightarrow> nat \<Rightarrow> string" where
  "line_of e s t = served_line e (the (entry_logged (ls_pc s t)))"

lemma whole_piece:
  assumes "piece_of e p x" and "entry_logged p = Some v"
  shows "x = served_line e v"
  using assms by (cases p) (auto split: if_splits)

lemma unfinished_piece:
  assumes "piece_of e p x" and "\<not> write_failed p" and "entry_logged p = None"
  obtains v rest where "p = Encoding v rest" and "rest \<noteq> ''''" and "x @ rest = served_line e v"
  using assms by (cases p) (auto split: if_splits)

lemma in_section_unless_done:
  "piece_of e p x \<Longrightarrow> \<not> write_failed p \<Longrightarrow> entry_logged p = None \<Longrightarrow> in_section p"
  by (cases p) (auto split: if_splits)

text \<open>Without failed writes the log is whole lines, and at most one unfinished piece at the
  end.\<close>

lemma log_whole_lines:
  assumes "pieces_inv e before ps s" and "\<forall>t. \<not> write_failed (ls_pc s t)"
  obtains ts x where "distinct ts" and "set ts = {t. entry_logged (ls_pc s t) \<noteq> None}"
    and "ls_out s = before @ concat (map (line_of e s) ts) @ x"
    and "x = '''' \<or> (\<exists>t v rest. ls_pc s t = Encoding v rest \<and> rest \<noteq> '''' \<and> x @ rest = served_line e v)"
proof -
  note sel = pieces_inv_sel [OF assms(1)]
  have has: "has_piece (ls_pc s t)" if "entry_logged (ls_pc s t) \<noteq> None" for t
    using that by (cases "ls_pc s t") auto
  have line: "z = line_of e s u" if "(u, z) \<in> set ps" "entry_logged (ls_pc s u) \<noteq> None" for u z
    using whole_piece [OF sel(4) [OF that(1)]] that(2) by (auto simp: line_of_def)
  show thesis
  proof (cases "\<exists>t \<in> fst ` set ps. entry_logged (ls_pc s t) = None")
    case False
    then have "\<forall>(u, z) \<in> set ps. entry_logged (ls_pc s u) \<noteq> None" by auto
    then have "map snd ps = map (line_of e s) (map fst ps)" using line by auto
    moreover have "set (map fst ps) = {t. entry_logged (ls_pc s t) \<noteq> None}"
      using False has sel(3) by auto
    moreover have "ls_out s = before @ concat (map (line_of e s) (map fst ps)) @ ''''"
      using sel(1) calculation(1) by (simp only: append_Nil2)
    ultimately show thesis using that sel(2) by blast
  next
    case True
    then obtain t x where t: "(t, x) \<in> set ps" "entry_logged (ls_pc s t) = None" by auto
    with sel(4) assms(2) obtain v rest where v: "ls_pc s t = Encoding v rest" "rest \<noteq> ''''"
        "x @ rest = served_line e v"
      by (metis unfinished_piece)
    then obtain qs y where ps: "ps = qs @ [(t, y)]" and qs: "t \<notin> fst ` set qs"
        and alone: "\<And>u. u \<noteq> t \<Longrightarrow> \<not> in_section (ls_pc s u)"
      using pieces_invD [OF assms(1), of t] by (metis in_section.simps(1))
    from ps qs t have y: "y = x" by force
    have whole: "entry_logged (ls_pc s u) \<noteq> None" if "(u, z) \<in> set qs" for u z
      using that qs alone [of u] in_section_unless_done [OF sel(4) [of u z]] assms(2) ps by force
    have "map snd qs = map (line_of e s) (map fst qs)" using line whole ps by auto
    moreover have "set (map fst qs) = {t. entry_logged (ls_pc s t) \<noteq> None}"
      using whole has sel(3) t(2) ps by force
    moreover have "distinct (map fst qs)" using sel(2) ps by simp
    moreover have "ls_out s = before @ concat (map (line_of e s) (map fst qs)) @ x"
      using sel(1) calculation(1) ps y by simp
    ultimately show thesis using that v by blast
  qed
qed

text \<open>Every interleaving in which one thread runs alone is among the runs.\<close>

lemma log_begins:
  assumes "log_reach e before s" and "ls_pc s t = Serving" and "\<not> ls_mu s"
  shows "\<exists>s'. log_reach e before s' \<and> ls_mu s' \<and>
    ls_pc s' = (ls_pc s)(t := Encoding v (drop k (served_line e v))) \<and>
    ls_out s' = ls_out s @ take k (served_line e v)"
proof -
  let ?l = "served_line e v"
  let ?s1 = "goto t (Waiting v) s" and ?s2 = "goto t (Encoding v ?l) (goto t (Waiting v) s\<lparr>ls_mu := True\<rparr>)"
  have "log_reach e before ?s1" using assms(1) answered [OF assms(2)] by (rule log_reach.step)
  moreover have "log_step e t ?s1 ?s2" by (rule log_step.lock) (use assms(3) in simp_all)
  ultimately have "log_reach e before ?s2" by (rule log_reach.step)
  moreover have "ls_pc ?s2 t = Encoding v (take k ?l @ drop k ?l)" by simp
  then have "log_step e t ?s2 (goto t (Encoding v (drop k ?l)) (?s2\<lparr>ls_out := ls_out ?s2 @ take k ?l\<rparr>))"
    by (rule taken)
  ultimately have "log_reach e before
      (goto t (Encoding v (drop k ?l)) (?s2\<lparr>ls_out := ls_out ?s2 @ take k ?l\<rparr>))"
    by (rule log_reach.step)
  then show ?thesis by (intro exI conjI) (assumption, simp_all add: goto_def)
qed

lemma log_ends:
  assumes "log_reach e before s" and "ls_pc s t = Encoding v ''''"
  shows "\<exists>s'. log_reach e before s' \<and> \<not> ls_mu s' \<and> ls_pc s' = (ls_pc s)(t := Done v True) \<and>
    ls_out s' = ls_out s"
proof -
  let ?s1 = "goto t (Encoded v True) s"
  have "log_reach e before ?s1" using assms(1) encoded [OF assms(2)] by (rule log_reach.step)
  moreover have "log_step e t ?s1 (goto t (Done v True) (?s1\<lparr>ls_mu := False\<rparr>))"
    by (rule unlock) simp
  ultimately have "log_reach e before (goto t (Done v True) (?s1\<lparr>ls_mu := False\<rparr>))"
    by (rule log_reach.step)
  then show ?thesis by (intro exI conjI) (assumption, simp_all add: goto_def)
qed

text \<open>C23: access log lines never interleave. However the requests are scheduled and in however
  many pieces the sink takes the bytes, a reader that cuts the log at its newlines gets the lines
  printed before the server started and then one whole line per logged request, each once and as
  that request's entry is encoded; what follows the last newline, if anything, is the beginning
  of the line being written. (As long as no write to the log has failed: its error is dropped.)\<close>

theorem log_lines_never_interleave:
  assumes "log_reach e (concat boot) s" and "\<forall>t. \<not> write_failed (ls_pc s t)"
    and "\<And>q. printable (e_float e q)" and "\<forall>l \<in> set boot. one_line l"
  shows "\<exists>ts. distinct ts \<and> set ts = {t. entry_logged (ls_pc s t) \<noteq> None} \<and>
    fst (cut_lines (ls_out s)) = boot @ map (line_of e s) ts \<and>
    (snd (cut_lines (ls_out s)) = '''' \<or>
     (\<exists>t v rest. ls_pc s t = Encoding v rest \<and> rest \<noteq> '''' \<and>
        snd (cut_lines (ls_out s)) @ rest = served_line e v))"
proof -
  obtain ps where "pieces_inv e (concat boot) ps s" using log_reach_pieces [OF assms(1)] ..
  then obtain ts x where ts: "distinct ts" "set ts = {t. entry_logged (ls_pc s t) \<noteq> None}"
    and out: "ls_out s = concat boot @ concat (map (line_of e s) ts) @ x"
    and x: "x = '''' \<or> (\<exists>t v rest. ls_pc s t = Encoding v rest \<and> rest \<noteq> '''' \<and> x @ rest = served_line e v)"
    by (rule log_whole_lines [OF _ assms(2)])
  have "one_line (served_line e v)" for v using served_line_one_line [OF assms(3)] .
  then have "\<forall>l \<in> set (boot @ map (line_of e s) ts). one_line l" "newline \<notin> set x"
    using assms(4) x one_line_part by (auto simp: line_of_def) metis
  then have "cut_lines (concat (boot @ map (line_of e s) ts) @ x) = (boot @ map (line_of e s) ts, x)"
    by (rule cut_lines_concat)
  with ts out x show ?thesis by auto
qed

definition demo_served :: "string \<Rightarrow> served" where
  "demo_served path = \<lparr>sv_request = demo_request ''GET'' path, sv_wrapped = fresh_recorder,
     sv_start = 0, sv_stop = 9\<rparr>"

theorem log_lines_never_interleave_witness:
  "\<exists>s rest. log_reach demo_env (concat [''booted'' @ [newline]]) s \<and>
     ls_pc s 1 = Encoding (demo_served ''/b'') rest \<and> rest \<noteq> '''' \<and>
     fst (cut_lines (ls_out s)) = [''booted'' @ [newline], served_line demo_env (demo_served ''/a'')]"
proof -
  let ?boot = "[''booted'' @ [newline]]" and ?v = "demo_served ''/a''" and ?w = "demo_served ''/b''"
  have printable: "printable (e_float demo_env q)" for q
    unfolding demo_env_def by (simp, code_simp)
  have long: "1 < length (served_line demo_env ?w)" by code_simp
  have boot: "\<forall>l \<in> set ?boot. one_line l" by code_simp
  obtain s1 where s1: "log_reach demo_env (concat ?boot) s1" "ls_pc s1 0 = Encoding ?v ''''"
      "ls_pc s1 = (\<lambda>t. Serving)(0 := Encoding ?v '''')"
    using log_begins [OF log_reach.start, of "concat ?boot" 0 demo_env ?v "length (served_line demo_env ?v)"]
    by (auto simp: log_start_def)
  obtain s2 where s2: "log_reach demo_env (concat ?boot) s2" "\<not> ls_mu s2"
      "ls_pc s2 = (\<lambda>t. Serving)(0 := Done ?v True)"
    using log_ends [OF s1(1,2)] s1(3) by auto
  then have "ls_pc s2 1 = Serving" by simp
  then obtain s3 where s3: "log_reach demo_env (concat ?boot) s3"
      "ls_pc s3 = (\<lambda>t. Serving)(0 := Done ?v True, 1 := Encoding ?w (drop 1 (served_line demo_env ?w)))"
    using log_begins [OF s2(1) _ s2(2), of 1 ?w 1] s2(3) by auto
  have "\<forall>t. \<not> write_failed (ls_pc s3 t)" by (simp add: s3(2))
  from log_lines_never_interleave [OF s3(1) this printable boot] obtain ts where
    ts: "distinct ts" "set ts = {t. entry_logged (ls_pc s3 t) \<noteq> None}"
    and lines: "fst (cut_lines (ls_out s3)) = ?boot @ map (line_of demo_env s3) ts"
    by blast
  have "set ts = {0}" using long by (auto simp: ts(2) s3(2) split: if_splits)
  with ts(1) have "ts = [0]" by (cases ts; cases "tl ts") auto
  with lines have "fst (cut_lines (ls_out s3)) = [''booted'' @ [newline], served_line demo_env ?v]"
    by (simp add: line_of_def s3(2))
  with s3 long show ?thesis by (intro exI [of _ s3] exI) auto
qed

end
