(* ===== verification/Strconv.thy ===== *)
theory Strconv
  imports Metrics
begin

text \<open>
  How the \<open>flag\<close> package reads the values of flags (Go 1.18): \<open>strconv.ParseBool\<close>,
  \<open>strconv.ParseInt(s, 0, 64)\<close> and \<open>time.ParseDuration\<close>. Every error is \<open>None\<close>: the callers only
  ask whether there was one. Fractions of a duration are computed in \<open>float64\<close>; that
  multiplication is the parameter \<open>fmul\<close>.
\<close>

section \<open>Booleans\<close>

definition ParseBool :: "string \<Rightarrow> bool option" where
  "ParseBool s =
     (if s \<in> set [''1'', ''t'', ''T'', ''TRUE'', ''true'', ''True''] then Some True
      else if s \<in> set [''0'', ''f'', ''F'', ''FALSE'', ''false'', ''False''] then Some False
      else None)"

section \<open>Integers\<close>

definition digit_val :: "char \<Rightarrow> int option" where
  "digit_val c =
     (if is_digit c then Some (int (byte_of c) - 48)
      else if is_lower (to_lower c) then Some (int (byte_of (to_lower c)) - 87)
      else None)"

fun digits_loop :: "int \<Rightarrow> int \<Rightarrow> string \<Rightarrow> int option" where
  "digits_loop b n [] = Some n"
| "digits_loop b n (c # s) =
     (if c = CHR ''_'' then digits_loop b n s
      else (case digit_val c of
              None \<Rightarrow> None
            | Some d \<Rightarrow> if d \<ge> b then None else digits_loop b (n * b + d) s))"

text \<open>\<open>underscoreOK\<close>: an underscore stands between digits, or between base prefix and digit.\<close>

fun underscore_loop :: "bool \<Rightarrow> char \<Rightarrow> string \<Rightarrow> bool" where
  "underscore_loop hex i [] = (i \<noteq> CHR ''_'')"
| "underscore_loop hex i (c # s) =
     (if is_digit c \<or> hex \<and> 97 \<le> byte_of (to_lower c) \<and> byte_of (to_lower c) \<le> 102
      then underscore_loop hex (CHR ''0'') s
      else if c = CHR ''_'' then i = CHR ''0'' \<and> underscore_loop hex (CHR ''_'') s
      else i \<noteq> CHR ''_'' \<and> underscore_loop hex (CHR ''!'') s)"

definition based :: "string \<Rightarrow> char \<Rightarrow> bool" where
  "based s p = (2 \<le> length s \<and> s ! 0 = CHR ''0'' \<and> to_lower (s ! 1) = p)"

definition underscoreOK :: "string \<Rightarrow> bool" where
  "underscoreOK s =
     (if based s (CHR ''b'') \<or> based s (CHR ''o'') \<or> based s (CHR ''x'')
      then underscore_loop (based s (CHR ''x'')) (CHR ''0'') (drop 2 s)
      else underscore_loop False (CHR ''^'') s)"

definition base_of :: "string \<Rightarrow> int \<times> string" where
  "base_of s =
     (if HasPrefix s ''0'' then
        (if 3 \<le> length s \<and> based s (CHR ''b'') then (2, drop 2 s)
         else if 3 \<le> length s \<and> based s (CHR ''o'') then (8, drop 2 s)
         else if 3 \<le> length s \<and> based s (CHR ''x'') then (16, drop 2 s)
         else (8, tl s))
      else (10, s))"

definition ParseUint :: "string \<Rightarrow> int option" where
  "ParseUint s =
     (if s = '''' then None
      else (let (b, t) = base_of s in
            case digits_loop b 0 t of
              None \<Rightarrow> None
            | Some n \<Rightarrow> if CHR ''_'' \<in> set t \<and> \<not> underscoreOK s then None else Some n))"

definition ParseInt :: "string \<Rightarrow> int option" where
  "ParseInt s =
     (let neg = HasPrefix s ''-'';
          t = (if neg \<or> HasPrefix s ''+'' then tl s else s) in
      case ParseUint t of
        None \<Rightarrow> None
      | Some n \<Rightarrow>
          if neg then (if n > 9223372036854775808 then None else Some (- n))
          else (if n \<ge> 9223372036854775808 then None else Some n))"

section \<open>Durations\<close>

fun leadingInt :: "int \<Rightarrow> string \<Rightarrow> (int \<times> string) option" where
  "leadingInt x [] = Some (x, [])"
| "leadingInt x (c # s) =
     (if is_digit c then
        (if x > 922337203685477580 then None
         else (let x = x * 10 + (int (byte_of c) - 48) in
               if x > 9223372036854775808 then None else leadingInt x s))
      else Some (x, c # s))"

text \<open>The digits after the point, with how many of them count; more than fit are dropped.\<close>

fun leadingFraction :: "bool \<Rightarrow> int \<Rightarrow> nat \<Rightarrow> string \<Rightarrow> int \<times> nat \<times> string" where
  "leadingFraction over x k [] = (x, k, [])"
| "leadingFraction over x k (c # s) =
     (if is_digit c then
        (if over \<or> x > 922337203685477580 then leadingFraction True x k s
         else (let y = x * 10 + (int (byte_of c) - 48) in
               if y > 9223372036854775808 then leadingFraction True x k s
               else leadingFraction False y (Suc k) s))
      else (x, k, c # s))"

definition unitMap :: "(string \<times> int) list" where
  "unitMap =
     [(''ns'', 1), (''us'', 1000), ([CHR 0xC2, CHR 0xB5, CHR ''s''], 1000),
      ([CHR 0xCE, CHR 0xBC, CHR ''s''], 1000), (''ms'', 1000000), (''s'', 1000000000),
      (''m'', 60000000000), (''h'', 3600000000000)]"

definition unit_char :: "char \<Rightarrow> bool" where
  "unit_char c = (c \<noteq> CHR ''.'' \<and> \<not> is_digit c)"

text \<open>One number with its unit.\<close>

definition duration_part :: "(int \<Rightarrow> int \<Rightarrow> nat \<Rightarrow> int) \<Rightarrow> string \<Rightarrow> (int \<times> string) option" where
  "duration_part fmul s =
     (if s = '''' \<or> \<not> (hd s = CHR ''.'' \<or> is_digit (hd s)) then None
      else case leadingInt 0 s of
        None \<Rightarrow> None
      | Some (v, t) \<Rightarrow>
          (let pre = (length t \<noteq> length s);
               (f, k, post, t) =
                 (if HasPrefix t ''.'' then
                    (let (f, k, t') = leadingFraction False 0 0 (tl t) in
                     (f, k, length t' \<noteq> length (tl t), t'))
                  else (0, 0, False, t));
               u = takeWhile unit_char t;
               t = dropWhile unit_char t in
           if \<not> pre \<and> \<not> post \<or> u = '''' then None
           else case map_of unitMap u of
             None \<Rightarrow> None
           | Some unit \<Rightarrow>
               if v > 9223372036854775808 div unit then None
               else (let v = v * unit;
                         v = (if f > 0 then (v + fmul f unit k) mod 18446744073709551616 else v) in
                     if f > 0 \<and> v > 9223372036854775808 then None else Some (v, t))))"

lemma leadingInt_shorter: "leadingInt x s = Some (y, t) \<Longrightarrow> length t \<le> length s"
  by (induction x s rule: leadingInt.induct) (auto simp: Let_def split: if_splits)

lemma leadingFraction_shorter: "leadingFraction over x k s = (y, j, t) \<Longrightarrow> length t \<le> length s"
  by (induction over x k s rule: leadingFraction.induct) (auto simp: Let_def split: if_splits)

lemma dropWhile_shorter: "takeWhile P s \<noteq> [] \<Longrightarrow> length (dropWhile P s) < length s"
  by (cases s) (auto simp: length_dropWhile_le less_Suc_eq_le split: if_splits)

lemma duration_part_shorter:
  assumes "duration_part fmul s = Some (v, t)"
  shows "length t < length s"
proof -
  obtain w a where a: "leadingInt 0 s = Some (w, a)"
    using assms by (auto simp: duration_part_def split: option.splits if_splits)
  then have "length a \<le> length s" by (rule leadingInt_shorter)
  obtain f k t' where b: "leadingFraction False 0 0 (tl a) = (f, k, t')" by (metis prod_cases3)
  then have "length t' \<le> length (tl a)" by (rule leadingFraction_shorter)
  have "\<exists>b. length b \<le> length a \<and> takeWhile unit_char b \<noteq> [] \<and> t = dropWhile unit_char b"
    using assms a b \<open>length t' \<le> length (tl a)\<close>
    by (auto simp: duration_part_def Let_def split: option.splits if_splits intro: exI [of _ t'] exI [of _ a])
  then show ?thesis using dropWhile_shorter \<open>length a \<le> length s\<close> by fastforce
qed

function duration_loop :: "(int \<Rightarrow> int \<Rightarrow> nat \<Rightarrow> int) \<Rightarrow> int \<Rightarrow> string \<Rightarrow> int option" where
  "duration_loop fmul d s =
     (if s = '''' then Some d
      else case duration_part fmul s of
        None \<Rightarrow> None
      | Some (v, t) \<Rightarrow>
          (let d = (d + v) mod 18446744073709551616 in
           if d > 9223372036854775808 then None else duration_loop fmul d t))"
  by pat_completeness auto
termination
  by (relation "measure (\<lambda>(fmul, d, s). length s)") (auto dest: duration_part_shorter)

declare duration_loop.simps [simp del]

definition ParseDuration :: "(int \<Rightarrow> int \<Rightarrow> nat \<Rightarrow> int) \<Rightarrow> string \<Rightarrow> duration option" where
  "ParseDuration fmul s =
     (let neg = HasPrefix s ''-'';
          t = (if neg \<or> HasPrefix s ''+'' then tl s else s) in
      if t = ''0'' then Some 0
      else if t = '''' then None
      else case duration_loop fmul 0 t of
        None \<Rightarrow> None
      | Some d \<Rightarrow>
          if neg then Some (- d)
          else if d > 9223372036854775807 then None else Some d)"

section \<open>Printed numbers are read back\<close>

lemma byte_of_decimal: "n < 10 \<Longrightarrow> byte_of (char_of (48 + n)) = 48 + (n :: nat)"
  by (simp add: byte_of_def)

lemma digits_of_are_digits: "list_all is_digit (digits_of n)"
proof -
  have "is_digit (char_of k)" if "k \<in> {48..57}" for k :: nat
    using that by (simp add: is_digit_def byte_of_def)
  then show ?thesis using digits_of_digits [of n] by (auto simp: list_all_iff)
qed

lemma digits_of_nonempty: "digits_of n \<noteq> ''''"
  by (subst digits_of.simps) simp

lemma digits_of_head:
  "0 < n \<Longrightarrow> hd (digits_of n) \<noteq> CHR ''0''"
proof (induction n rule: digits_of.induct)
  case (1 n)
  show ?case
  proof (cases "n < 10")
    case True
    have "CHR ''0'' = char_of (48 :: nat)" by code_simp
    then have "char_of (48 + n) \<noteq> CHR ''0''"
      using True 1(2) byte_of_decimal [of n] byte_of_decimal [of 0] by auto
    with True show ?thesis by (subst digits_of.simps) simp
  next
    case False
    with 1 have "hd (digits_of (n div 10)) \<noteq> CHR ''0''" by simp
    with False show ?thesis by (subst digits_of.simps) (simp add: digits_of_nonempty)
  qed
qed

lemma decimal_value_ge: "x \<le> decimal_value x s"
proof (induction x s rule: decimal_value.induct)
  case (2 acc c s)
  then have "10 * acc \<le> decimal_value acc (c # s)" by simp
  then show ?case by linarith
qed simp

lemma digits_loop_decimal:
  "list_all is_digit s \<Longrightarrow> digits_loop 10 (int x) s = Some (int (decimal_value x s))"
proof (induction s arbitrary: x)
  case (Cons c s)
  have "byte_of (CHR ''_'') = 95" by code_simp
  with Cons.prems have "c \<noteq> CHR ''_''" by (auto simp: is_digit_def)
  moreover have "digit_val c = Some (int (byte_of c - 48))" "\<not> 10 \<le> int (byte_of c - 48)"
    using Cons.prems by (auto simp: digit_val_def is_digit_def)
  moreover have "int x * 10 + int (byte_of c - 48) = int (10 * x + (byte_of c - 48))" by simp
  moreover have "list_all is_digit s" using Cons.prems by simp
  note Cons.IH [OF this, of "10 * x + (byte_of c - 48)"]
  ultimately show ?case by (simp only: digits_loop.simps decimal_value.simps option.case if_False)
qed simp

lemma not_digit [simp]: "\<not> is_digit (CHR ''-'')" "\<not> is_digit (CHR ''+'')" "\<not> is_digit (CHR ''_'')"
  "\<not> is_digit (CHR ''.'')" "\<not> is_digit (CHR ''n'')" "\<not> is_digit (CHR ''s'')"
  by code_simp+

lemma head_is_digit: "is_digit (hd (digits_of n))"
  using digits_of_are_digits [of n] digits_of_nonempty [of n] by (cases "digits_of n") simp_all

lemma ParseUint_decimal: "ParseUint (digits_of n) = Some (int n)"
proof (cases "n = 0")
  case True
  moreover have "digits_of 0 = ''0''" "ParseUint ''0'' = Some 0" by code_simp+
  ultimately show ?thesis by simp
next
  case False
  have "CHR ''_'' \<notin> set (digits_of n)"
    using digits_of_are_digits [of n] not_digit(3) unfolding list_all_iff by blast
  moreover have "base_of (digits_of n) = (10, digits_of n)"
    using digits_of_head [of n] False digits_of_nonempty [of n]
    by (cases "digits_of n") (simp_all add: base_of_def HasPrefix_def)
  moreover have "digits_loop 10 0 (digits_of n) = Some (int n)"
    using digits_loop_decimal [OF digits_of_are_digits, of 0 n] by (simp add: decimal_value_digits_of)
  ultimately show ?thesis using digits_of_nonempty [of n] by (simp add: ParseUint_def)
qed

lemma digits_of_no_sign: "\<not> HasPrefix (digits_of n) ''-''" "\<not> HasPrefix (digits_of n) ''+''"
  using head_is_digit [of n] digits_of_nonempty [of n]
  by (cases "digits_of n"; auto simp: HasPrefix_def)+

lemma ParseInt_Itoa:
  assumes "- 9223372036854775808 \<le> i" and "i < 9223372036854775808"
  shows "ParseInt (Itoa i) = Some i"
proof (cases "i < 0")
  case True
  with assms show ?thesis by (simp add: ParseInt_def Itoa_def ParseUint_decimal HasPrefix_def)
next
  case False
  with assms show ?thesis
    by (simp add: ParseInt_def Itoa_def ParseUint_decimal digits_of_no_sign)
qed

lemma leadingInt_decimal:
  assumes "list_all is_digit s" and "int (decimal_value x s) \<le> 9223372036854775808"
    and "t = '''' \<or> \<not> is_digit (hd t)"
  shows "leadingInt (int x) (s @ t) = Some (int (decimal_value x s), t)"
  using assms(1,2)
proof (induction s arbitrary: x)
  case Nil
  then show ?case using assms(3) by (cases t) simp_all
next
  case (Cons c s)
  let ?y = "10 * x + (byte_of c - 48)"
  have "int ?y \<le> 9223372036854775808"
    using Cons.prems(2) decimal_value_ge [of ?y s] by simp
  then have fits: "\<not> 9223372036854775808 < int ?y" "\<not> 922337203685477580 < int x" by simp_all
  have digit: "is_digit c" "int x * 10 + (int (byte_of c) - 48) = int ?y"
    using Cons.prems(1) by (auto simp: is_digit_def)
  have "leadingInt (int x) ((c # s) @ t) = leadingInt (int ?y) (s @ t)"
    by (simp only: append_Cons leadingInt.simps Let_def digit fits if_True if_False)
  moreover have "leadingInt (int ?y) (s @ t) = Some (int (decimal_value ?y s), t)"
    using Cons.prems by (intro Cons.IH) simp_all
  ultimately show ?case by (simp only: decimal_value.simps)
qed

lemma duration_of_decimal:
  assumes "int n \<le> 9223372036854775808"
  shows "duration_loop fmul 0 (digits_of n @ ''ns'') = Some (int n)"
proof -
  have li: "leadingInt 0 (digits_of n @ ''ns'') = Some (int n, ''ns'')"
    using leadingInt_decimal [OF digits_of_are_digits, of 0 n "''ns''"] assms
    by (simp add: decimal_value_digits_of)
  have hd: "is_digit (hd (digits_of n @ ''ns''))" using head_is_digit digits_of_nonempty by simp
  have u: "takeWhile unit_char ''ns'' = ''ns''" "dropWhile unit_char ''ns'' = ''''"
    "map_of unitMap ''ns'' = Some 1" "\<not> HasPrefix ''ns'' ''.''"
    by code_simp+
  have "length (digits_of n) \<noteq> 0" using digits_of_nonempty by simp
  then have "duration_part fmul (digits_of n @ ''ns'') = Some (int n, '''')"
    using li hd u assms by (simp add: duration_part_def)
  then show ?thesis
    using assms by (subst duration_loop.simps) (simp add: duration_loop.simps)
qed

lemma ParseDuration_printed:
  assumes "- 9223372036854775808 \<le> d" and "d < 9223372036854775808"
  shows "ParseDuration fmul (Itoa d @ ''ns'') = Some d"
proof (cases "d < 0")
  case True
  have "digits_of (nat (- d)) @ ''ns'' \<noteq> ''0''" using digits_of_nonempty by (cases "digits_of (nat (- d))") auto
  with True assms duration_of_decimal [of "nat (- d)" fmul] show ?thesis
    by (simp add: ParseDuration_def Itoa_def HasPrefix_def)
next
  case False
  have "digits_of (nat d) @ ''ns'' \<noteq> ''0''" using digits_of_nonempty by (cases "digits_of (nat d)") auto
  moreover have "\<not> HasPrefix (digits_of (nat d) @ ''ns'') ''-''" "\<not> HasPrefix (digits_of (nat d) @ ''ns'') ''+''"
    using digits_of_no_sign [of "nat d"] digits_of_nonempty [of "nat d"]
    by (cases "digits_of (nat d)"; simp add: HasPrefix_def)+
  ultimately show ?thesis
    using False assms duration_of_decimal [of "nat d" fmul] by (simp add: ParseDuration_def Itoa_def)
qed

section \<open>What is read fits in 64 bits\<close>

definition int64 :: "int \<Rightarrow> bool" where
  "int64 i = (- 9223372036854775808 \<le> i \<and> i < 9223372036854775808)"

lemma digit_val_ge: "digit_val c = Some d \<Longrightarrow> 0 \<le> d"
  by (auto simp: digit_val_def is_digit_def is_lower_def split: if_splits)

lemma digits_loop_ge:
  "digits_loop b n s = Some i \<Longrightarrow> 0 \<le> n \<Longrightarrow> 0 \<le> i"
proof (induction b n s rule: digits_loop.induct)
  case (2 b n c s)
  show ?case
  proof (cases "c = CHR ''_''")
    case False
    then obtain d where d: "digit_val c = Some d" "\<not> b \<le> d" and i: "digits_loop b (n * b + d) s = Some i"
      using "2.prems"(1) by (auto split: option.splits if_splits)
    have "0 \<le> d" using d(1) by (rule digit_val_ge)
    moreover from this d(2) have "0 \<le> n * b" using "2.prems"(2) by simp
    ultimately show ?thesis using "2.IH"(2) [OF False d i] by simp
  qed (use 2 in simp)
qed simp

lemma ParseUint_ge: "ParseUint s = Some i \<Longrightarrow> 0 \<le> i"
  by (auto simp: ParseUint_def split: if_splits prod.splits option.splits dest: digits_loop_ge)

lemma ParseInt_int64: "ParseInt s = Some i \<Longrightarrow> int64 i"
  by (auto simp: ParseInt_def int64_def Let_def split: if_splits option.splits dest!: ParseUint_ge)

lemma duration_loop_bounds:
  "duration_loop fmul d s = Some i \<Longrightarrow> 0 \<le> d \<and> d \<le> 9223372036854775808 \<Longrightarrow>
   0 \<le> i \<and> i \<le> 9223372036854775808"
proof (induction fmul d s rule: duration_loop.induct)
  case (1 fmul d s)
  show ?case
  proof (cases "s = ''''")
    case True
    with 1(2,3) show ?thesis by (simp add: duration_loop.simps)
  next
    case False
    with 1(2) obtain v t where p: "duration_part fmul s = Some (v, t)"
      by (auto simp: duration_loop.simps [of fmul d s] split: option.splits)
    let ?d = "(d + v) mod 18446744073709551616"
    have le: "\<not> 9223372036854775808 < ?d" and go: "duration_loop fmul ?d t = Some i"
      using 1(2) False p by (auto simp: duration_loop.simps [of fmul d s] Let_def split: if_splits)
    have "0 \<le> ?d \<and> ?d \<le> 9223372036854775808" using le by simp
    with 1(1) [OF False p refl refl le go] show ?thesis .
  qed
qed

lemma ParseDuration_int64: "ParseDuration fmul s = Some d \<Longrightarrow> int64 d"
  using duration_loop_bounds
  by (fastforce simp: ParseDuration_def int64_def Let_def split: if_splits option.splits)

end
