(* ===== verification/Durations.thy ===== *)
theory Durations
  imports Strconv
begin

text \<open>
  What \<open>time.ParseDuration\<close> means: a reading of durations in unbounded numbers, and where the
  reading of \<open>Strconv\<close>, which counts nanoseconds in 64 bits as Go does, agrees with it.
\<close>

section \<open>The meaning of a duration\<close>

definition maxNanos :: int where
  "maxNanos = 9223372036854775808"

text \<open>One number with its unit: digits, a fraction (in \<open>float64\<close>, hence a parameter), a unit.\<close>

definition exact_part :: "(int \<Rightarrow> int \<Rightarrow> nat \<Rightarrow> int) \<Rightarrow> string \<Rightarrow> (int \<times> string) option" where
  "exact_part fmul s =
     (let digits = takeWhile is_digit s;
          t = dropWhile is_digit s;
          (f, k, post, t) =
            (if HasPrefix t ''.'' then
               (let (f, k, t') = leadingFraction False 0 0 (tl t) in
                (f, k, length t' \<noteq> length (tl t), t'))
             else (0, 0, False, t));
          u = takeWhile unit_char t in
      if digits = '''' \<and> \<not> post \<or> u = '''' then None
      else map_option
        (\<lambda>unit. (int (decimal_value 0 digits) * unit + (if f > 0 then fmul f unit k else 0),
           dropWhile unit_char t))
        (map_of unitMap u))"

text \<open>A fraction of a unit is not negative and at most the unit.\<close>

definition takes_fractions :: "(int \<Rightarrow> int \<Rightarrow> nat \<Rightarrow> int) \<Rightarrow> bool" where
  "takes_fractions fmul = (\<forall>f u k. 0 < f \<longrightarrow> 0 < u \<longrightarrow> 0 \<le> fmul f u k \<and> fmul f u k \<le> u)"

section \<open>One number\<close>

lemma leadingInt_spec:
  assumes "int x \<le> maxNanos"
  shows "leadingInt (int x) s =
    (if int (decimal_value x (takeWhile is_digit s)) \<le> maxNanos
     then Some (int (decimal_value x (takeWhile is_digit s)), dropWhile is_digit s) else None)"
  using assms
proof (induction s arbitrary: x)
  case (Cons c s)
  show ?case
  proof (cases "is_digit c")
    case True
    let ?y = "10 * x + (byte_of c - 48)"
    have y: "int x * 10 + (int (byte_of c) - 48) = int ?y"
      using True by (auto simp: is_digit_def)
    have ge: "int ?y \<le> int (decimal_value ?y (takeWhile is_digit s))"
      unfolding of_nat_le_iff by (rule decimal_value_ge)
    have step: "leadingInt (int x) (c # s) =
      (if 922337203685477580 < int x \<or> maxNanos < int ?y then None else leadingInt (int ?y) s)"
      by (simp only: leadingInt.simps Let_def True y if_True maxNanos_def split: if_splits) blast
    have read: "takeWhile is_digit (c # s) = c # takeWhile is_digit s"
      "dropWhile is_digit (c # s) = dropWhile is_digit s"
      "decimal_value x (c # takeWhile is_digit s) = decimal_value ?y (takeWhile is_digit s)"
      using True by simp_all
    show ?thesis
    proof (cases "int ?y \<le> maxNanos")
      case fits: True
      then have "\<not> (922337203685477580 < int x \<or> maxNanos < int ?y)" by (simp add: maxNanos_def)
      then show ?thesis unfolding step read using Cons.IH [OF fits] by (simp only: if_False)
    next
      case False
      then have "922337203685477580 < int x \<or> maxNanos < int ?y" by simp
      moreover have "\<not> int (decimal_value ?y (takeWhile is_digit s)) \<le> maxNanos"
        using False ge by linarith
      ultimately show ?thesis unfolding step read by (simp only: if_True if_False)
    qed
  qed (use Cons.prems in simp)
qed (simp add: maxNanos_def)

lemma unitMap_pos: "map_of unitMap u = Some n \<Longrightarrow> 0 < n"
proof -
  have "list_all (\<lambda>(u, n). 0 < n) unitMap" by code_simp
  then show "map_of unitMap u = Some n \<Longrightarrow> 0 < n" by (auto simp: list_all_iff dest: map_of_SomeD)
qed

lemma unitMap_le: "map_of unitMap u = Some n \<Longrightarrow> n \<le> 3600000000000"
proof -
  have "list_all (\<lambda>(u, n). n \<le> 3600000000000) unitMap" by code_simp
  then show "map_of unitMap u = Some n \<Longrightarrow> n \<le> 3600000000000"
    by (auto simp: list_all_iff dest: map_of_SomeD)
qed

lemma leadingFraction_ge:
  "leadingFraction over x k s = (f, j, t) \<Longrightarrow> 0 \<le> x \<Longrightarrow> 0 \<le> f"
proof (induction over x k s rule: leadingFraction.induct)
  case (2 over x k c s)
  have "0 \<le> x * 10 + (int (byte_of c) - 48)" if "is_digit c"
    using 2(5) that by (simp add: is_digit_def)
  with 2 show ?case by (auto simp: Let_def split: if_splits)
qed simp

lemma duration_part_digits:
  assumes "takeWhile is_digit s = ''''" and "\<not> HasPrefix (dropWhile is_digit s) ''.''"
  shows "duration_part fmul s = None" and "exact_part fmul s = None"
proof -
  have "s = '''' \<or> \<not> (hd s = CHR ''.'' \<or> is_digit (hd s))"
    using assms by (cases s) (auto simp: HasPrefix_def split: if_splits)
  then show "duration_part fmul s = None" by (simp add: duration_part_def)
  show "exact_part fmul s = None" using assms by (simp add: exact_part_def)
qed

lemma le_div_unit:
  assumes "0 < (u :: int)"
  shows "v \<le> m div u \<longleftrightarrow> v * u \<le> m"
proof
  assume "v \<le> m div u"
  then have "v * u \<le> m div u * u" using assms by (simp add: mult_right_mono)
  also have "\<dots> \<le> m" using assms div_mult_mod_eq [of m u] pos_mod_sign [of u m] by linarith
  finally show "v * u \<le> m" .
next
  assume "v * u \<le> m"
  then have "v * u div u \<le> m div u" using assms by (intro zdiv_mono1)
  then show "v \<le> m div u" using assms by simp
qed

text \<open>The reader of \<open>Strconv\<close> gives the meaning of a number, or refuses it when it exceeds 64 bits.\<close>

lemma duration_part_exact:
  assumes "takes_fractions fmul"
  shows "duration_part fmul s =
    (case exact_part fmul s of
       None \<Rightarrow> None
     | Some (x, t) \<Rightarrow> if x \<le> maxNanos then Some (x, t) else None)"
proof (cases "takeWhile is_digit s = '''' \<and> \<not> HasPrefix (dropWhile is_digit s) ''.''")
  case True
  then show ?thesis using duration_part_digits by simp
next
  case False
  let ?t = "dropWhile is_digit s" and ?v = "int (decimal_value 0 (takeWhile is_digit s))"
  have start: "\<not> (s = '''' \<or> \<not> (hd s = CHR ''.'' \<or> is_digit (hd s)))"
    using False by (cases s) (auto simp: HasPrefix_def split: if_splits)
  have pre: "length ?t \<noteq> length s \<longleftrightarrow> takeWhile is_digit s \<noteq> ''''"
    using length_dropWhile_le [of is_digit "tl s"] by (cases s) auto
  have li: "leadingInt 0 s = (if ?v \<le> maxNanos then Some (?v, ?t) else None)"
    using leadingInt_spec [of 0 s] by (simp add: maxNanos_def)
  obtain f k post t' where q: "(if HasPrefix ?t ''.'' then
        (let (f, k, t') = leadingFraction False 0 0 (tl ?t) in
         (f, k, length t' \<noteq> length (tl ?t), t'))
      else (0, 0, False, ?t)) = (f, k, post, t')"
    by (rule prod_cases4)
  have f: "0 \<le> f"
  proof (cases "HasPrefix ?t ''.''")
    case True
    obtain g j r where "leadingFraction False 0 0 (tl ?t) = (g, j, r)" by (metis prod_cases3)
    with True q leadingFraction_ge [of False 0 0 "tl ?t" g j r] show ?thesis by simp
  next
    case False
    with q show ?thesis by simp
  qed
  note q = q [unfolded Let_def]
  let ?u = "takeWhile unit_char t'" and ?r = "dropWhile unit_char t'"
  let ?bad = "takeWhile is_digit s = '''' \<and> \<not> post \<or> ?u = ''''"
  have ex: "exact_part fmul s =
    (if ?bad then None
     else map_option (\<lambda>unit. (?v * unit + (if f > 0 then fmul f unit k else 0), ?r)) (map_of unitMap ?u))"
    unfolding exact_part_def Let_def q prod.case ..
  have du: "duration_part fmul s =
    (if maxNanos < ?v \<or> ?bad then None
     else case map_of unitMap ?u of
       None \<Rightarrow> None
     | Some unit \<Rightarrow>
         if ?v > maxNanos div unit then None
         else if f > 0 then
           (let v = (?v * unit + fmul f unit k) mod 18446744073709551616 in
            if v > maxNanos then None else Some (v, ?r))
         else Some (?v * unit, ?r))"
  proof (cases "?v \<le> maxNanos")
    case True
    then have li: "leadingInt 0 s = Some (?v, ?t)" using li by simp
    show ?thesis
      unfolding duration_part_def Let_def li if_not_P [OF start] option.case prod.case q pre
      using True by (auto simp: maxNanos_def split: option.splits)
  next
    case False
    then have "leadingInt 0 s = None" using li by simp
    then show ?thesis using False start by (simp add: duration_part_def)
  qed
  show ?thesis
  proof (cases "map_of unitMap ?u")
    case None
    then show ?thesis unfolding ex du by simp
  next
    case (Some unit)
    have unit: "0 < unit" by (rule unitMap_pos [OF Some])
    have frac: "0 \<le> (if f > 0 then fmul f unit k else 0)" "(if f > 0 then fmul f unit k else 0) \<le> unit"
      using assms unit f by (auto simp: takes_fractions_def)
    let ?f = "if f > 0 then fmul f unit k else 0"
    have small: "unit \<le> 3600000000000" by (rule unitMap_le [OF Some])
    have pos: "0 \<le> ?v * unit" using unit by simp
    have big: "maxNanos < ?v \<Longrightarrow> maxNanos < ?v * unit"
      using unit by (smt (verit) mult_le_cancel_left1 of_nat_0_le_iff)
    note divides = le_div_unit [OF unit, of ?v maxNanos]
    show ?thesis
    proof (cases "?v \<le> maxNanos \<and> ?v * unit \<le> maxNanos")
      case False
      then have "\<not> ?v * unit + ?f \<le> maxNanos" using big frac(1) by fastforce
      with False divides show ?thesis unfolding ex du Some by auto
    next
      case True
      then have "(?v * unit + ?f) mod 18446744073709551616 = ?v * unit + ?f"
        using pos frac small by (intro mod_pos_pos_trivial) (auto simp: maxNanos_def)
      with True divides show ?thesis unfolding ex du Some by (auto simp: Let_def)
    qed
  qed
qed

lemma duration_part_value:
  assumes "takes_fractions fmul" and "duration_part fmul s = Some (v, t)"
  shows "exact_part fmul s = Some (v, t)"
  using assms(2) duration_part_exact [OF assms(1), of s]
  by (cases "exact_part fmul s") (auto split: if_splits)

section \<open>Sums of numbers\<close>

lemma exact_part_shorter:
  assumes "exact_part fmul s = Some (x, t)"
  shows "length t < length s"
proof -
  let ?t = "dropWhile is_digit s"
  obtain f k t' where b: "leadingFraction False 0 0 (tl ?t) = (f, k, t')" by (metis prod_cases3)
  then have le: "length t' \<le> length (tl ?t)" by (rule leadingFraction_shorter)
  have "\<exists>b. length b \<le> length ?t \<and> takeWhile unit_char b \<noteq> [] \<and> t = dropWhile unit_char b"
    using assms b le
    by (auto simp: exact_part_def Let_def split: if_splits intro: exI [of _ t'] exI [of _ ?t])
  then show ?thesis
    using dropWhile_shorter length_dropWhile_le [of is_digit s] by fastforce
qed

lemma exact_part_nonneg:
  assumes "takes_fractions fmul" and "exact_part fmul s = Some (x, t)"
  shows "0 \<le> x"
proof -
  let ?t = "dropWhile is_digit s"
  obtain f k post t' where q: "(if HasPrefix ?t ''.'' then
        (let (f, k, t') = leadingFraction False 0 0 (tl ?t) in
         (f, k, length t' \<noteq> length (tl ?t), t'))
      else (0, 0, False, ?t)) = (f, k, post, t')"
    by (rule prod_cases4)
  note q = q [unfolded Let_def]
  obtain u where u: "map_of unitMap (takeWhile unit_char t') = Some u"
    and x: "x = int (decimal_value 0 (takeWhile is_digit s)) * u + (if f > 0 then fmul f u k else 0)"
    using assms(2) unfolding exact_part_def Let_def q prod.case by (auto split: if_splits)
  have "0 < u" by (rule unitMap_pos [OF u])
  then show ?thesis using assms(1) unfolding x by (auto simp: takes_fractions_def)
qed

function exact_sum :: "(int \<Rightarrow> int \<Rightarrow> nat \<Rightarrow> int) \<Rightarrow> string \<Rightarrow> int option" where
  "exact_sum fmul s =
     (if s = '''' then Some 0
      else case exact_part fmul s of
        None \<Rightarrow> None
      | Some (x, t) \<Rightarrow> map_option (\<lambda>y. x + y) (exact_sum fmul t))"
  by pat_completeness auto
termination
  by (relation "measure (\<lambda>(fmul, s). length s)") (auto dest: exact_part_shorter)

declare exact_sum.simps [simp del]

text \<open>The duration a string names: a sign, then a sum of numbers with units, or \<open>0\<close>.\<close>

definition exact_duration :: "(int \<Rightarrow> int \<Rightarrow> nat \<Rightarrow> int) \<Rightarrow> string \<Rightarrow> int option" where
  "exact_duration fmul s =
     (let neg = HasPrefix s ''-'';
          t = (if neg \<or> HasPrefix s ''+'' then tl s else s) in
      if t = ''0'' then Some 0
      else if t = '''' then None
      else map_option (\<lambda>x. if neg then - x else x) (exact_sum fmul t))"

lemma exact_sum_nonneg:
  "takes_fractions fmul \<Longrightarrow> exact_sum fmul s = Some x \<Longrightarrow> 0 \<le> x"
proof (induction fmul s arbitrary: x rule: exact_sum.induct)
  case (1 fmul s)
  show ?case
  proof (cases "s = ''''")
    case True
    with 1(3) show ?thesis by (simp add: exact_sum.simps)
  next
    case False
    with 1(3) obtain v t y where p: "exact_part fmul s = Some (v, t)"
      and y: "exact_sum fmul t = Some y" "x = v + y"
      by (auto simp: exact_sum.simps [of fmul s] split: option.splits)
    show ?thesis
      using 1(1) [OF False p refl 1(2) y(1)] exact_part_nonneg [OF 1(2) p] y(2) by simp
  qed
qed

lemma congruent_step:
  assumes "(((d + v) mod m + x - e) :: int) mod m = 0"
  shows "(d + (v + x) - e) mod m = 0"
proof -
  have "d + (v + x) - e = (d + v) + (x - e)" by linarith
  moreover have "(d + v) mod m + x - e = (d + v) mod m + (x - e)" by linarith
  ultimately show ?thesis using assms by (simp only: mod_add_left_eq)
qed

text \<open>The loop keeps the sum modulo \<open>2\<^sup>6\<^sup>4\<close>.\<close>

lemma duration_loop_congruent:
  "takes_fractions fmul \<Longrightarrow> duration_loop fmul d s = Some e \<Longrightarrow>
   \<exists>x. exact_sum fmul s = Some x \<and> (d + x - e) mod 18446744073709551616 = 0"
proof (induction fmul d s rule: duration_loop.induct)
  case (1 fmul d s)
  show ?case
  proof (cases "s = ''''")
    case True
    with 1(3) show ?thesis by (simp add: duration_loop.simps exact_sum.simps)
  next
    case False
    with 1(3) obtain v t where p: "duration_part fmul s = Some (v, t)"
      by (auto simp: duration_loop.simps [of fmul d s] split: option.splits)
    let ?d = "(d + v) mod 18446744073709551616"
    have le: "\<not> 9223372036854775808 < ?d" and go: "duration_loop fmul ?d t = Some e"
      using 1(3) False p by (auto simp: duration_loop.simps [of fmul d s] Let_def split: if_splits)
    obtain x where x: "exact_sum fmul t = Some x" "(?d + x - e) mod 18446744073709551616 = 0"
      using 1(1) [OF False p refl refl le 1(2) go] by (elim exE conjE)
    have ep: "exact_part fmul s = Some (v, t)"
      by (rule duration_part_value [OF 1(2) p])
    have "exact_sum fmul s = Some (v + x)"
      using False ep x(1) by (simp add: exact_sum.simps [of fmul s])
    moreover have "(d + (v + x) - e) mod 18446744073709551616 = 0"
      by (rule congruent_step [OF x(2)])
    ultimately show ?thesis by (intro exI conjI)
  qed
qed

text \<open>Below \<open>2\<^sup>6\<^sup>4\<close> nothing wraps: the sum is right, or it is refused.\<close>

lemma duration_loop_exact:
  "takes_fractions fmul \<Longrightarrow> 0 \<le> d \<Longrightarrow> d \<le> maxNanos \<Longrightarrow>
   exact_sum fmul s = Some x \<Longrightarrow> d + x < 18446744073709551616 \<Longrightarrow>
   duration_loop fmul d s = (if d + x \<le> maxNanos then Some (d + x) else None)"
proof (induction fmul d s arbitrary: x rule: duration_loop.induct)
  case (1 fmul d s)
  show ?case
  proof (cases "s = ''''")
    case True
    with 1(4,5) show ?thesis by (simp add: duration_loop.simps exact_sum.simps)
  next
    case False
    with 1(5) obtain v t y where ep: "exact_part fmul s = Some (v, t)"
      and y: "exact_sum fmul t = Some y" "x = v + y"
      by (auto simp: exact_sum.simps [of fmul s] split: option.splits)
    have v: "0 \<le> v" by (rule exact_part_nonneg [OF 1(2) ep])
    have y0: "0 \<le> y" by (rule exact_sum_nonneg [OF 1(2) y(1)])
    have m: "(d + v) mod 18446744073709551616 = d + v"
      using v y0 1(3,6) y(2) by (intro mod_pos_pos_trivial) auto
    show ?thesis
    proof (cases "d + v \<le> maxNanos")
      case fits: True
      then have p: "duration_part fmul s = Some (v, t)"
        using ep 1(3) duration_part_exact [OF 1(2)] by simp
      have le: "\<not> 9223372036854775808 < (d + v) mod 18446744073709551616"
        using fits unfolding m by (simp add: maxNanos_def)
      have "duration_loop fmul d s = duration_loop fmul (d + v) t"
        using False p le by (subst duration_loop.simps) (simp only: m if_False option.case prod.case Let_def)
      also have "\<dots> = (if d + v + y \<le> maxNanos then Some (d + v + y) else None)"
        using 1(1) [OF False p refl refl le 1(2), unfolded m, OF _ fits y(1)] v 1(3,6) y(2)
        by (simp add: add.assoc)
      finally show ?thesis using y(2) by (simp add: add.assoc)
    next
      case over: False
      then have "\<not> d + x \<le> maxNanos" using y(2) y0 by simp
      moreover have "duration_loop fmul d s = None"
      proof (cases "v \<le> maxNanos")
        case True
        then have "duration_part fmul s = Some (v, t)" using ep duration_part_exact [OF 1(2)] by simp
        then show ?thesis
          using False over unfolding duration_loop.simps [of fmul d s] by (simp add: Let_def m maxNanos_def)
      next
        case big: False
        then have "duration_part fmul s = None" using ep duration_part_exact [OF 1(2)] by simp
        then show ?thesis using False by (simp add: duration_loop.simps [of fmul d s])
      qed
      ultimately show ?thesis by simp
    qed
  qed
qed

section \<open>ParseDuration\<close>

text \<open>What it accepts is a duration, and its value is right modulo \<open>2\<^sup>6\<^sup>4\<close>.\<close>

lemma ParseDuration_congruent:
  assumes "takes_fractions fmul" and "ParseDuration fmul s = Some d"
  obtains (exact) x where "exact_duration fmul s = Some x" and "(x - d) mod 18446744073709551616 = 0"
proof -
  define neg where "neg \<longleftrightarrow> HasPrefix s ''-''"
  define t where "t = (if neg \<or> HasPrefix s ''+'' then tl s else s)"
  show thesis
  proof (cases "t = ''0''")
    case True
    with assms(2) show ?thesis
      by (intro exact [of 0]) (simp_all add: ParseDuration_def exact_duration_def Let_def flip: neg_def t_def)
  next
    case False
    with assms(2) obtain e where t: "t \<noteq> []" and e: "duration_loop fmul 0 t = Some e" "d = (if neg then - e else e)"
      by (auto simp: ParseDuration_def Let_def simp flip: neg_def t_def split: if_splits option.splits)
    obtain x where x: "exact_sum fmul t = Some x" "(x - e) mod 18446744073709551616 = 0"
      using duration_loop_congruent [OF assms(1) e(1)] by auto
    have "((if neg then - x else x) - d) mod 18446744073709551616 = 0"
      using x(2) e(2) dvd_diff_commute [of 18446744073709551616 x e] by (auto simp: mod_eq_0_iff_dvd)
    then show ?thesis
      using False t x(1)
      by (intro exact [of "if neg then - x else x"])
        (simp_all add: exact_duration_def Let_def flip: neg_def t_def)
  qed
qed

text \<open>A duration below \<open>2\<^sup>6\<^sup>4\<close> nanoseconds is accepted exactly when it fits in 64 bits, and is then exact.\<close>

lemma ParseDuration_exact:
  assumes "takes_fractions fmul" and "exact_duration fmul s = Some x" and "\<bar>x\<bar> < 18446744073709551616"
  shows "ParseDuration fmul s = (if int64 x then Some x else None)"
proof -
  define neg where "neg \<longleftrightarrow> HasPrefix s ''-''"
  define t where "t = (if neg \<or> HasPrefix s ''+'' then tl s else s)"
  show ?thesis
  proof (cases "t = ''0'' \<or> t = ''''")
    case True
    with assms(2) show ?thesis
      by (auto simp: ParseDuration_def exact_duration_def Let_def int64_def
          simp flip: neg_def t_def split: if_splits)
  next
    case False
    with assms(2) obtain y where y: "exact_sum fmul t = Some y" "x = (if neg then - y else y)"
      by (auto simp: exact_duration_def Let_def simp flip: neg_def t_def)
    have y0: "0 \<le> y" by (rule exact_sum_nonneg [OF assms(1) y(1)])
    have "y < 18446744073709551616" using assms(3) y(2) y0 by (simp split: if_splits)
    then have "duration_loop fmul 0 t = (if y \<le> maxNanos then Some y else None)"
      using duration_loop_exact [OF assms(1) _ _ y(1), of 0] by (simp add: maxNanos_def)
    with False y y0 show ?thesis
      by (auto simp: ParseDuration_def Let_def int64_def maxNanos_def simp flip: neg_def t_def)
  qed
qed

text \<open>At \<open>2\<^sup>6\<^sup>4\<close> the sum wraps.\<close>

lemma ParseDuration_wraps:
  "ParseDuration fmul ''9223372036854775808ns9223372036854775808ns'' = Some 0"
proof -
  have whole: "duration_part fmul ''9223372036854775808ns9223372036854775808ns'' =
      Some (9223372036854775808, ''9223372036854775808ns'')"
    "duration_part fmul ''9223372036854775808ns'' = Some (9223372036854775808, '''')"
    by code_simp+
  have "duration_loop fmul 0 ''9223372036854775808ns9223372036854775808ns'' = Some 0"
    by (simp add: duration_loop.simps [of _ _ "_ # _"] whole duration_loop.simps [of _ _ "[]"])
  then show ?thesis by (simp add: ParseDuration_def HasPrefix_def)
qed

end
