(* ===== verification/Flags.thy ===== *)
theory Flags
  imports Server Strconv Durations
begin

text \<open>
  The command line of \<open>cmd/decision-gateway/main.go\<close>: the flag set \<open>run\<close> declares (lines 59 to 70)
  and \<open>fs.Parse\<close> on it (line 71), by the \<open>flag\<close> package of Go 1.18 with \<open>ContinueOnError\<close>. Values
  are read by \<open>Strconv\<close>; what \<open>Parse\<close> prints to stderr beside returning its error is left out.
\<close>

section \<open>The flag set\<close>

datatype flag_kind = StringFlag | DurationFlag | IntFlag | BoolFlag | ListFlag

definition formal :: "(string \<times> flag_kind) list" where
  "formal =
     [(''listen'', StringFlag), (''backend-timeout'', DurationFlag),
      (''upstream-max-idle-conns'', IntFlag), (''upstream-idle-timeout'', DurationFlag),
      (''upstream-h2c'', BoolFlag), (''metrics-enabled'', BoolFlag), (''routes-admin'', BoolFlag),
      (''otel-enabled'', BoolFlag), (''route'', ListFlag)]"

text \<open>\<open>Value.Set\<close> of each flag; \<open>None\<close> is its error.\<close>

definition set_duration :: "string \<Rightarrow> duration \<Rightarrow> options \<Rightarrow> options" where
  "set_duration name d opts =
     (if name = ''backend-timeout'' then opts\<lparr>f_backendTimeout := d\<rparr>
      else opts\<lparr>f_upstreamIdleTimeout := d\<rparr>)"

definition set_bool :: "string \<Rightarrow> bool \<Rightarrow> options \<Rightarrow> options" where
  "set_bool name b opts =
     (if name = ''upstream-h2c'' then opts\<lparr>f_upstreamH2C := b\<rparr>
      else if name = ''metrics-enabled'' then opts\<lparr>f_metricsEnabled := b\<rparr>
      else if name = ''routes-admin'' then opts\<lparr>f_routesAdmin := b\<rparr>
      else opts\<lparr>f_otelEnabled := b\<rparr>)"

definition set_value ::
  "(int \<Rightarrow> int \<Rightarrow> nat \<Rightarrow> int) \<Rightarrow> flag_kind \<Rightarrow> string \<Rightarrow> string \<Rightarrow> options \<Rightarrow> options option" where
  "set_value fmul kind name value opts =
     (case kind of
        StringFlag \<Rightarrow> Some (opts\<lparr>f_listen := value\<rparr>)
      | DurationFlag \<Rightarrow> map_option (\<lambda>d. set_duration name d opts) (ParseDuration fmul value)
      | IntFlag \<Rightarrow> map_option (\<lambda>i. opts\<lparr>f_upstreamMaxIdleConns := i\<rparr>) (ParseInt value)
      | BoolFlag \<Rightarrow> map_option (\<lambda>b. set_bool name b opts) (ParseBool value)
      | ListFlag \<Rightarrow> Some (opts\<lparr>f_routeSpecs := routeFlagList_Set (f_routeSpecs opts) value\<rparr>))"

section \<open>Parsing\<close>

datatype args_error =
    BadFlagSyntax string
  | HelpRequested
  | NotDefined string
  | InvalidValue string string
  | NeedsArgument string

datatype parse_step = Finished "string list" | Failed args_error | Parsed "string list" options

definition after_equals :: "string \<Rightarrow> string option" where
  "after_equals name = (if CHR ''='' \<in> set name then Some (tl (dropWhile (\<lambda>c. c \<noteq> CHR ''='') name)) else None)"

text \<open>How \<open>parseOne\<close> reads one argument: not a flag, the terminator \<open>--\<close>, malformed, or a flag name
  with the value after an equals sign, if there is one.\<close>

datatype arg_shape = Positional | Terminator | Malformed | Flag string "string option"

definition arg_shape :: "string \<Rightarrow> arg_shape" where
  "arg_shape s =
     (if length s < 2 \<or> \<not> HasPrefix s ''-'' then Positional
      else if s = ''--'' then Terminator
      else
        (let name = (if HasPrefix s ''--'' then drop 2 s else drop 1 s) in
         if name = '''' \<or> HasPrefix name ''-'' \<or> HasPrefix name ''='' then Malformed
         else Flag (takeWhile (\<lambda>c. c \<noteq> CHR ''='') name) (after_equals name)))"

text \<open>Its value: after the equals sign, \<open>true\<close> for a switch, or the next argument.\<close>

definition take_value ::
  "flag_kind \<Rightarrow> string option \<Rightarrow> string list \<Rightarrow> (string \<times> string list) option" where
  "take_value kind value rest =
     (case value of
        Some v \<Rightarrow> Some (v, rest)
      | None \<Rightarrow>
          if kind = BoolFlag then Some (''true'', rest)
          else (case rest of [] \<Rightarrow> None | v # rest' \<Rightarrow> Some (v, rest')))"

text \<open>\<open>parseOne\<close>: one flag at the front of the arguments, or the end of the flags.\<close>

definition parseOne ::
  "(int \<Rightarrow> int \<Rightarrow> nat \<Rightarrow> int) \<Rightarrow> string list \<Rightarrow> options \<Rightarrow> parse_step" where
  "parseOne fmul args opts =
     (case args of
        [] \<Rightarrow> Finished []
      | s # rest \<Rightarrow>
          (case arg_shape s of
             Positional \<Rightarrow> Finished args
           | Terminator \<Rightarrow> Finished rest
           | Malformed \<Rightarrow> Failed (BadFlagSyntax s)
           | Flag name value \<Rightarrow>
               (case map_of formal name of
                  None \<Rightarrow>
                    if name = ''help'' \<or> name = ''h'' then Failed HelpRequested
                    else Failed (NotDefined name)
                | Some kind \<Rightarrow>
                    (case take_value kind value rest of
                       None \<Rightarrow> Failed (NeedsArgument name)
                     | Some (v, rest) \<Rightarrow>
                         (case set_value fmul kind name v opts of
                            None \<Rightarrow> Failed (InvalidValue v name)
                          | Some opts \<Rightarrow> Parsed rest opts)))))"

lemma take_value_shorter: "take_value kind value rest = Some (v, rest') \<Longrightarrow> length rest' \<le> length rest"
  by (auto simp: take_value_def split: option.splits if_splits list.splits)

lemma take_value_append:
  "take_value kind value rest = Some (v, rest') \<Longrightarrow>
   take_value kind value (rest @ xs) = Some (v, rest' @ xs)"
  by (auto simp: take_value_def split: option.splits if_splits list.splits)

lemma parseOne_shorter: "parseOne fmul args opts = Parsed rest opts' \<Longrightarrow> length rest < length args"
  by (auto simp: parseOne_def less_Suc_eq_le dest: take_value_shorter
      split: list.splits arg_shape.splits option.splits if_splits)

text \<open>\<open>Parse\<close>: the options, and the arguments left over after the flags (which \<open>run\<close> ignores).\<close>

function parse_args ::
  "(int \<Rightarrow> int \<Rightarrow> nat \<Rightarrow> int) \<Rightarrow> string list \<Rightarrow> options \<Rightarrow> args_error + options \<times> string list" where
  "parse_args fmul args opts =
     (case parseOne fmul args opts of
        Finished rest \<Rightarrow> Inr (opts, rest)
      | Failed err \<Rightarrow> Inl err
      | Parsed rest opts' \<Rightarrow> parse_args fmul rest opts')"
  by pat_completeness auto
termination
  by (relation "measure (\<lambda>(fmul, args, opts). length args)") (auto dest: parseOne_shorter)

declare parse_args.simps [simp del]

text \<open>\<open>run\<close> from the arguments to the server: lines 59 to 170.\<close>

datatype start_error = ArgsError args_error | RunError run_error

definition start ::
  "(int \<Rightarrow> int \<Rightarrow> nat \<Rightarrow> int) \<Rightarrow> env \<Rightarrow> (string, string) sdk \<Rightarrow> handler \<Rightarrow> string list \<Rightarrow> world
     \<Rightarrow> (start_error + gateway) \<times> world" where
  "start fmul e sdk promhttp args s =
     (case parse_args fmul args default_options of
        Inl err \<Rightarrow> (Inl (ArgsError err), s)
      | Inr (opts, rest) \<Rightarrow>
          (case wire e sdk promhttp opts s of
             (Inl err, s) \<Rightarrow> (Inl (RunError err), s)
           | (Inr g, s) \<Rightarrow> (Inr g, s)))"

section \<open>Lemmas\<close>

text \<open>A flag given as \<open>--name=value\<close>.\<close>

definition flag_arg :: "string \<Rightarrow> string \<Rightarrow> string" where
  "flag_arg name value = ''--'' @ name @ ''='' @ value"

lemma flag_names:
  assumes "map_of formal name = Some kind"
  shows "name \<noteq> ''''" and "CHR ''='' \<notin> set name" and "\<not> HasPrefix name ''-''" and "name \<noteq> ''-''"
    and "\<not> HasPrefix name ''=''"
proof -
  have "list_all (\<lambda>(n, k). n \<noteq> '''' \<and> CHR ''='' \<notin> set n \<and> \<not> HasPrefix n ''-'' \<and> \<not> HasPrefix n ''='') formal"
    by code_simp
  moreover have "(name, kind) \<in> set formal" using assms by (rule map_of_SomeD)
  ultimately have "name \<noteq> '''' \<and> CHR ''='' \<notin> set name \<and> \<not> HasPrefix name ''-'' \<and> \<not> HasPrefix name ''=''"
    by (auto simp: list_all_iff)
  then show "name \<noteq> ''''" "CHR ''='' \<notin> set name" "\<not> HasPrefix name ''-''" "\<not> HasPrefix name ''=''"
    by simp_all
  then show "name \<noteq> ''-''" by (auto simp: HasPrefix_def)
qed

lemma parseOne_flag_arg:
  assumes "map_of formal name = Some kind"
  shows "parseOne fmul (flag_arg name value # rest) opts =
    (case set_value fmul kind name value opts of
       None \<Rightarrow> Failed (InvalidValue value name)
     | Some opts' \<Rightarrow> Parsed rest opts')"
proof -
  note n = flag_names [OF assms]
  have split: "takeWhile (\<lambda>c. c \<noteq> CHR ''='') (name @ ''='' @ value) = name"
    "dropWhile (\<lambda>c. c \<noteq> CHR ''='') (name @ ''='' @ value) = ''='' @ value"
    using n(2) by (induction name) auto
  have heads: "\<not> HasPrefix (name @ ''='' @ value) ''-''" "\<not> HasPrefix (name @ ''='' @ value) ''=''"
    using n by (cases name; auto simp: HasPrefix_def)+
  have "after_equals (name @ ''='' @ value) = Some value"
    using split(2) by (simp add: after_equals_def)
  moreover have "drop 2 (flag_arg name value) = name @ ''='' @ value"
    "HasPrefix (flag_arg name value) ''--''" "HasPrefix (flag_arg name value) ''-''"
    "flag_arg name value \<noteq> ''--''" "\<not> length (flag_arg name value) < 2"
    by (auto simp: flag_arg_def HasPrefix_def)
  ultimately have "arg_shape (flag_arg name value) = Flag name (Some value)"
    using split heads n(1) by (simp add: arg_shape_def)
  then show ?thesis using assms by (simp add: parseOne_def take_value_def)
qed

lemma parse_args_flag_arg:
  assumes "map_of formal name = Some kind"
  shows "parse_args fmul (flag_arg name value # rest) opts =
    (case set_value fmul kind name value opts of
       None \<Rightarrow> Inl (InvalidValue value name)
     | Some opts' \<Rightarrow> parse_args fmul rest opts')"
  by (subst parse_args.simps) (simp add: parseOne_flag_arg [OF assms] split: option.splits)

lemma parse_args_nil [simp]: "parse_args fmul [] opts = Inr (opts, [])"
  by (subst parse_args.simps) (simp add: parseOne_def)

text \<open>The command line that gives back a record of options.\<close>

definition bool_text :: "bool \<Rightarrow> string" where
  "bool_text b = (if b then ''true'' else ''false'')"

definition print_args :: "options \<Rightarrow> string list" where
  "print_args opts =
     [flag_arg ''listen'' (f_listen opts),
      flag_arg ''backend-timeout'' (Itoa (f_backendTimeout opts) @ ''ns''),
      flag_arg ''upstream-max-idle-conns'' (Itoa (f_upstreamMaxIdleConns opts)),
      flag_arg ''upstream-idle-timeout'' (Itoa (f_upstreamIdleTimeout opts) @ ''ns''),
      flag_arg ''upstream-h2c'' (bool_text (f_upstreamH2C opts)),
      flag_arg ''metrics-enabled'' (bool_text (f_metricsEnabled opts)),
      flag_arg ''routes-admin'' (bool_text (f_routesAdmin opts)),
      flag_arg ''otel-enabled'' (bool_text (f_otelEnabled opts))] @
     map (flag_arg ''route'') (f_routeSpecs opts)"

lemma parse_routes:
  "parse_args fmul (map (flag_arg ''route'') rs) opts =
     Inr (opts\<lparr>f_routeSpecs := f_routeSpecs opts @ rs\<rparr>, [])"
proof (induction rs arbitrary: opts)
  case (Cons r rs)
  have "map_of formal ''route'' = Some ListFlag" by code_simp
  with Cons show ?case by (simp add: parse_args_flag_arg set_value_def routeFlagList_Set_def)
qed simp

lemma kinds:
  "map_of formal ''listen'' = Some StringFlag" "map_of formal ''backend-timeout'' = Some DurationFlag"
  "map_of formal ''upstream-max-idle-conns'' = Some IntFlag"
  "map_of formal ''upstream-idle-timeout'' = Some DurationFlag"
  "map_of formal ''upstream-h2c'' = Some BoolFlag" "map_of formal ''metrics-enabled'' = Some BoolFlag"
  "map_of formal ''routes-admin'' = Some BoolFlag" "map_of formal ''otel-enabled'' = Some BoolFlag"
  by code_simp+

lemma ParseBool_text [simp]: "ParseBool (bool_text b) = Some b"
  by (simp add: ParseBool_def bool_text_def)

text \<open>Flags are parsed from the left; what follows a non-flag is not looked at.\<close>

lemma parseOne_Parsed:
  assumes "parseOne fmul args opts = Parsed rest opts'"
  obtains s r name val kind v where "args = s # r" and "arg_shape s = Flag name val"
    and "map_of formal name = Some kind" and "take_value kind val r = Some (v, rest)"
    and "set_value fmul kind name v opts = Some opts'"
  using assms
  by (auto simp: parseOne_def split: list.splits arg_shape.splits option.splits if_splits)

lemma parseOne_append:
  assumes "parseOne fmul args opts = Parsed rest opts'"
  shows "parseOne fmul (args @ xs) opts = Parsed (rest @ xs) opts'"
proof -
  obtain s r name val kind v where "args = s # r" "arg_shape s = Flag name val"
    "map_of formal name = Some kind" "take_value kind val r = Some (v, rest)"
    "set_value fmul kind name v opts = Some opts'"
    by (rule parseOne_Parsed [OF assms])
  then show ?thesis by (simp add: parseOne_def take_value_append)
qed

lemma parse_args_append:
  assumes "parse_args fmul args opts = Inr (opts', [])" and "length p < 2 \<or> \<not> HasPrefix p ''-''"
  shows "parse_args fmul (args @ p # rest) opts = Inr (opts', p # rest)"
  using assms(1)
proof (induction fmul args opts rule: parse_args.induct)
  case (1 fmul args opts)
  show ?case
  proof (cases "parseOne fmul args opts")
    case (Finished left)
    with 1(2) have "left = []" "opts' = opts" by (simp_all add: parse_args.simps [of fmul args])
    with Finished consider "args = []" | s where "args = [s]" "arg_shape s = Terminator"
      by (auto simp: parseOne_def split: list.splits arg_shape.splits option.splits if_splits)
    then have "parseOne fmul (args @ p # rest) opts = Finished (p # rest)"
    proof cases
      case 1
      with assms(2) show ?thesis by (auto simp: parseOne_def arg_shape_def)
    next
      case 2
      then show ?thesis by (simp add: parseOne_def)
    qed
    with \<open>opts' = opts\<close> show ?thesis by (simp add: parse_args.simps [of fmul "args @ p # rest"])
  next
    case (Failed err)
    with 1(2) show ?thesis by (simp add: parse_args.simps [of fmul args])
  next
    case (Parsed left opts1)
    with 1(2) have "parse_args fmul left opts1 = Inr (opts', [])"
      by (simp add: parse_args.simps [of fmul args])
    from 1(1) [OF Parsed this] parseOne_append [OF Parsed] show ?thesis
      by (simp add: parse_args.simps [of fmul "args @ p # rest"])
  qed
qed

text \<open>Printed options are read back.\<close>

lemma parse_printed:
  assumes "int64 (f_backendTimeout opts)" and "int64 (f_upstreamMaxIdleConns opts)"
    and "int64 (f_upstreamIdleTimeout opts)"
  shows "parse_args fmul (print_args opts) default_options = Inr (opts, [])"
  using assms
  by (simp add: print_args_def parse_args_flag_arg kinds set_value_def ParseInt_Itoa
      ParseDuration_printed parse_routes int64_def set_duration_def set_bool_def
      default_options_def)

text \<open>What is parsed fits the types of the flags.\<close>

definition fits :: "options \<Rightarrow> bool" where
  "fits opts = (int64 (f_backendTimeout opts) \<and> int64 (f_upstreamMaxIdleConns opts) \<and>
     int64 (f_upstreamIdleTimeout opts))"

lemma set_value_fits: "set_value fmul kind name v opts = Some opts' \<Longrightarrow> fits opts \<Longrightarrow> fits opts'"
  by (cases kind)
    (auto simp: set_value_def set_duration_def set_bool_def fits_def ParseDuration_int64 ParseInt_int64)

lemma parse_args_fits:
  "parse_args fmul args opts = Inr (opts', rest) \<Longrightarrow> fits opts \<Longrightarrow> fits opts'"
proof (induction fmul args opts rule: parse_args.induct)
  case (1 fmul args opts)
  show ?case
  proof (cases "parseOne fmul args opts")
    case (Parsed left opts1)
    then have "fits opts1" using 1(3) by (metis parseOne_Parsed set_value_fits)
    moreover have "parse_args fmul left opts1 = Inr (opts', rest)"
      using 1(2) Parsed by (simp add: parse_args.simps [of fmul args opts])
    ultimately show ?thesis using 1(1) [OF Parsed] by blast
  qed (use 1(2,3) in \<open>simp_all add: parse_args.simps [of fmul args opts]\<close>)
qed

lemma default_fits: "fits default_options"
  by (simp add: fits_def int64_def default_options_def Second_def)

section \<open>Properties\<close>

text \<open>C21: every setting of the flags can be given on the command line: the options printed as
  \<open>--name=value\<close> parse to exactly those options, with nothing left over, whatever the texts of
  the listen address and the routes hold (for numbers of 64 bits). So \<open>run\<close> on that command line
  starts the gateway, or fails, as the wiring does for those options.\<close>

theorem flags_roundtrip:
  assumes "int64 (f_backendTimeout opts)" and "int64 (f_upstreamMaxIdleConns opts)"
    and "int64 (f_upstreamIdleTimeout opts)"
  shows "parse_args fmul (print_args opts) default_options = Inr (opts, []) \<and>
    fst (start fmul e sdk promhttp (print_args opts) s) =
      map_sum RunError id (fst (wire e sdk promhttp opts s))"
  using parse_printed [OF assms] by (auto simp: start_def split: prod.splits sum.splits)

theorem flags_roundtrip_witness:
  "parse_args (\<lambda>f u k. 0) (print_args (default_options\<lparr>f_listen := ''-=:1'', f_routeSpecs := [''/=>http://a'']\<rparr>))
     default_options = Inr (default_options\<lparr>f_listen := ''-=:1'', f_routeSpecs := [''/=>http://a'']\<rparr>, [])"
  by (rule flags_roundtrip [THEN conjunct1]) (simp_all add: default_options_def int64_def Second_def)

text \<open>C39: parsing stops at the first argument that is not a flag, and \<open>run\<close> does not look at what
  is left: everything from there on has no effect and raises no error. So a value given to a
  switch with a space, as in \<open>--routes-admin false\<close>, turns the switch on and discards every
  flag after it.\<close>

theorem flags_after_argument_ignored:
  assumes "parse_args fmul args default_options = Inr (opts, [])"
    and "length p < 2 \<or> \<not> HasPrefix p ''-''"
  shows "parse_args fmul (args @ p # rest) default_options = Inr (opts, p # rest) \<and>
    start fmul e sdk promhttp (args @ p # rest) s = start fmul e sdk promhttp args s"
  using assms parse_args_append [OF assms] by (simp add: start_def)

theorem flags_after_argument_ignored_witness:
  "parse_args (\<lambda>f u k. 0) [''--routes-admin'', ''false'', ''--route=/=>http://a''] default_options =
     Inr (default_options\<lparr>f_routesAdmin := True\<rparr>, [''false'', ''--route=/=>http://a''])"
proof -
  have f: "parse_args (\<lambda>f u k. 0) [''--routes-admin''] default_options
      = Inr (default_options\<lparr>f_routesAdmin := True\<rparr>, [])"
  proof -
    have "parseOne (\<lambda>f u k. 0) [''--routes-admin''] default_options
        = Parsed [] (default_options\<lparr>f_routesAdmin := True\<rparr>)"
      by code_simp
    then show ?thesis by (simp add: parse_args.simps [of _ "[''--routes-admin'']"])
  qed
  have "length ''false'' < 2 \<or> \<not> HasPrefix ''false'' ''-''" by code_simp
  from flags_after_argument_ignored [OF f this, of "[''--route=/=>http://a'']"] show ?thesis by simp
qed



text \<open>C38: every command line \<open>run\<close> accepts has a normal form: the options it parsed, each printed
  as \<open>--name=value\<close> in the order of the flag set, with the routes in the order they were given.
  Starting the gateway with the normal form is the same as starting it with the command line:
  the same gateway or error, and the same state after it. This rests on every parsed number
  being one the flag can print back, which the theorem states as well.\<close>

theorem flags_normal_form:
  assumes "parse_args fmul args default_options = Inr (opts, rest)"
  shows "int64 (f_backendTimeout opts) \<and> int64 (f_upstreamMaxIdleConns opts) \<and>
    int64 (f_upstreamIdleTimeout opts) \<and>
    parse_args fmul (print_args opts) default_options = Inr (opts, []) \<and>
    start fmul e sdk promhttp (print_args opts) s = start fmul e sdk promhttp args s"
proof -
  have "fits opts" using assms default_fits by (rule parse_args_fits)
  moreover from this have "parse_args fmul (print_args opts) default_options = Inr (opts, [])"
    unfolding fits_def by (intro parse_printed) simp_all
  ultimately show ?thesis using assms by (simp add: fits_def start_def)
qed

theorem flags_normal_form_witness:
  "\<exists>opts. parse_args (\<lambda>f u k. 0) [''-upstream-max-idle-conns'', ''0x7f'', ''--backend-timeout=1h30m'']
       default_options = Inr (opts, []) \<and>
     f_upstreamMaxIdleConns opts = 127 \<and> f_backendTimeout opts = 5400 * Second \<and>
     parse_args (\<lambda>f u k. 0) (print_args opts) default_options = Inr (opts, [])"
proof -
  let ?fmul = "\<lambda>f u k. 0" and ?o = "default_options\<lparr>f_upstreamMaxIdleConns := 127\<rparr>"
  have conns: "parseOne ?fmul [''-upstream-max-idle-conns'', ''0x7f'', ''--backend-timeout=1h30m'']
      default_options = Parsed [''--backend-timeout=1h30m''] ?o"
    by code_simp
  have timeout: "parseOne ?fmul [''--backend-timeout=1h30m''] ?o
      = Parsed [] (?o\<lparr>f_backendTimeout := 5400000000000\<rparr>)"
    by code_simp
  have args: "parse_args ?fmul [''-upstream-max-idle-conns'', ''0x7f'', ''--backend-timeout=1h30m'']
      default_options = Inr (?o\<lparr>f_backendTimeout := 5400000000000\<rparr>, [])"
    by (simp add: parse_args.simps [of ?fmul "_ # _"] conns timeout)
  show ?thesis using flags_normal_form [OF args] args by (simp add: Second_def)
qed

end
