(* ===== verification/Program.thy ===== *)
theory Program
  imports Flags Lifecycle Chain
begin

text \<open>
  \<open>cmd/decision-gateway/main.go\<close> from the command line to the exit code: \<open>run\<close> parses the flags
  and wires the gateway (\<open>Flags\<close>, \<open>Server\<close>), prints the boot line and serves until it is told to stop
  or the server fails (\<open>Lifecycle\<close>); \<open>main\<close> turns what it returns into an exit code and a line on
  stderr. The texts of the \<open>flag\<close> package's and of \<open>url.Parse\<close>'s errors are parameters.
\<close>

section \<open>Error texts\<close>

record texts =
  tx_flag :: "args_error \<Rightarrow> string"
  tx_url :: "string \<Rightarrow> string"

text \<open>The errors of \<open>parseRouteFlags\<close>.\<close>

fun flag_error_text :: "env \<Rightarrow> texts \<Rightarrow> flag_error \<Rightarrow> string" where
  "flag_error_text e tx RouteRequired =
     ''--route is required at least once (format: PREFIX=>BACKEND_URL)''"
| "flag_error_text e tx (MissingArrow spec) =
     ''--route '' @ strconv_Quote e spec @ '': missing '' @ [CHR 0x27] @ ''=>'' @ [CHR 0x27] @
     '' separator (want PREFIX=>BACKEND_URL)''"
| "flag_error_text e tx (FlagPrefixEmpty spec) =
     ''--route '' @ strconv_Quote e spec @ '': prefix is empty''"
| "flag_error_text e tx (PrefixNoSlash spec) =
     ''--route '' @ strconv_Quote e spec @ '': prefix must start with '' @ [CHR 0x27] @ ''/'' @ [CHR 0x27]"
| "flag_error_text e tx (BackendNotURL spec backend) =
     ''--route '' @ strconv_Quote e spec @ '': backend '' @ strconv_Quote e backend @
     '' is not a valid URL: '' @ tx_url tx backend"
| "flag_error_text e tx (BackendNoScheme spec backend) =
     ''--route '' @ strconv_Quote e spec @ '': backend '' @ strconv_Quote e backend @
     '' has no scheme (want http:// or https://)''"
| "flag_error_text e tx (BackendNoHost spec backend) =
     ''--route '' @ strconv_Quote e spec @ '': backend '' @ strconv_Quote e backend @ '' has no host''"

text \<open>The errors \<open>run\<close> returns before it serves.\<close>

fun run_error_text :: "env \<Rightarrow> texts \<Rightarrow> run_error \<Rightarrow> string" where
  "run_error_text e tx (RouteFlagError err) = flag_error_text e tx err"
| "run_error_text e tx (BuildRouterError err) = ''build router: '' @ router_error_text e err"
| "run_error_text e tx (OtelBootstrapError err) = ''otel bootstrap: '' @ err"
| "run_error_text e tx (BuildHolderError err) = ''build proxy holder: '' @ proxy_error_text err"
| "run_error_text e tx (BuildProxyError err) = ''build proxy: '' @ proxy_error_text err"

fun start_error_text :: "env \<Rightarrow> texts \<Rightarrow> start_error \<Rightarrow> string" where
  "start_error_text e tx (ArgsError err) = tx_flag tx err"
| "start_error_text e tx (RunError err) = run_error_text e tx err"

section \<open>The program\<close>

text \<open>\<open>run\<close> returns \<open>err\<close> (\<open>None\<close> is \<open>nil\<close>), having gone through the states \<open>tr\<close> while it served.\<close>

inductive run_returns ::
  "(int \<Rightarrow> int \<Rightarrow> nat \<Rightarrow> int) \<Rightarrow> env \<Rightarrow> (string, string) sdk \<Rightarrow> handler \<Rightarrow> texts \<Rightarrow> string list
     \<Rightarrow> world \<Rightarrow> lifecycle list \<Rightarrow> string option \<Rightarrow> bool"
  for fmul e sdk promhttp tx args w where
  fails: "start fmul e sdk promhttp args w = (Inl err, w1) \<Longrightarrow>
    run_returns fmul e sdk promhttp tx args w [] (Some (start_error_text e tx err))"
| serves: "parse_args fmul args default_options = Inr (opts, rest) \<Longrightarrow>
    start fmul e sdk promhttp args w = (Inr g, w1) \<Longrightarrow>
    bootBoot e (gw_listen g) (gw_routes g) (f_backendTimeout opts) w1 = (Returned, w2) \<Longrightarrow>
    run_of (started (f_otelEnabled opts) w2) tr t \<Longrightarrow> lc_main t = Exited m \<Longrightarrow>
    run_returns fmul e sdk promhttp tx args w tr m"

section \<open>Lemmas\<close>

lemma start_Inr:
  assumes "start fmul e sdk promhttp args s = (Inr g, s1)"
  obtains opts rest where "parse_args fmul args default_options = Inr (opts, rest)"
    and "wire e sdk promhttp opts s = (Inr g, s1)"
  using assms by (auto simp: start_def split: sum.splits prod.splits)

lemma start_readyState:
  assumes "start fmul e sdk promhttp args s = (Inr g, s1)"
  shows "w_readyState s1 = w_readyState s"
proof -
  obtain opts rest where "wire e sdk promhttp opts s = (Inr g, s1)"
    using assms by (rule start_Inr)
  then obtain h where "s1 = wired_world sdk opts h s" by (rule wire_Inr)
  then show ?thesis by simp
qed

lemma bootBoot_readyState:
  "bootBoot e listen table timeout s = (out, s') \<Longrightarrow> w_readyState s' = w_readyState s"
  by (auto simp: bootBoot_def time_Now_def Let_def split: option.splits)

lemma run_of_last: "run_of s tr t \<Longrightarrow> tr = [] \<and> t = s \<or> tr \<noteq> [] \<and> last tr = t"
  by (induction rule: run_of.induct) auto

section \<open>Properties\<close>



text \<open>C12: the exit code and what is printed on stderr, for every command line and every run that
  returns. A start that fails exits 1 and prints its error, without ever serving. A gateway that
  served exits with its readiness flag down, and either silently with 0, and then a signal came
  and \<open>Shutdown\<close> was called, or with 1 and the error \<open>ListenAndServe\<close> returned in this run. The
  tracer's shutdown is called exactly when tracing is on; what it returns, a timeout or any
  other error, is dropped: it changes neither the code nor the output.\<close>

theorem exit_codes:
  assumes "run_returns fmul e sdk promhttp tx args w tr err" and "w_readyState w = 0"
  shows "case start fmul e sdk promhttp args w of
      (Inl serr, w1) \<Rightarrow> tr = [] \<and>
        main_exit err = (1, [''decision-gateway: '' @ start_error_text e tx serr @ [newline]])
    | (Inr g, w1) \<Rightarrow> tr \<noteq> [] \<and> w_readyState (lc_world (last tr)) = 0 \<and>
        (\<exists>opts rest. parse_args fmul args default_options = Inr (opts, rest) \<and>
           (f_otelEnabled opts = (lc_flush (last tr) \<noteq> None))) \<and>
        (case err of
           None \<Rightarrow> main_exit err = (0, []) \<and> lc_ctxDone (last tr) \<and> lc_inShutdown (last tr)
         | Some m \<Rightarrow> (\<exists>u \<in> set tr. lc_server u = Returned_with (ServeError m)) \<and>
             main_exit err = (1, [''decision-gateway: '' @ m @ [newline]]))"
  using assms(1)
proof (cases rule: run_returns.cases)
  case (fails serr w1)
  then show ?thesis by (simp add: main_exit_def)
next
  case (serves opts rest g w1 w2 t)
  have ready: "w_readyState w2 = 0"
    using start_readyState [OF serves(2)] bootBoot_readyState [OF serves(3)] assms(2) by simp
  note result = run_result [OF serves(4) ready serves(5)]
  have "tr \<noteq> [] \<and> last tr = t"
    using run_of_last [OF serves(4)] serves(5) by (auto simp: started_def)
  with serves(1,2) result show ?thesis by (auto simp: main_exit_def split: option.splits)
qed

definition plain_texts :: texts where
  "plain_texts = \<lparr>tx_flag = (\<lambda>err. ''flag: help requested''), tx_url = (\<lambda>u. ''invalid URL'')\<rparr>"

theorem exit_codes_witness:
  "\<exists>tr. run_returns (\<lambda>f u k. 0) demo_env demo_sdk demo_exporter plain_texts (print_args demo_options) quiet_world tr None \<and>
     lc_flush (last tr) = Some (Some ''context deadline exceeded'') \<and> main_exit None = (0, [])"
proof -
  let ?fmul = "\<lambda>f u k. 0"
  have args: "parse_args ?fmul (print_args demo_options) default_options = Inr (demo_options, [])"
    by (rule parse_printed) (simp_all add: demo_options_def default_options_def int64_def Second_def)
  obtain g h where g: "wire demo_env demo_sdk demo_exporter demo_options quiet_world
      = (Inr g, demo_world h)" "gw_routes g = demo_table"
    by (rule demo_wires)
  have start: "start ?fmul demo_env demo_sdk demo_exporter (print_args demo_options) quiet_world
      = (Inr g, demo_world h)"
    by (simp add: start_def args g(1))
  have "list_all (\<lambda>r. Backend r \<noteq> None) demo_table" by (simp add: demo_table_def)
  then obtain w2 where boot: "bootBoot demo_env (gw_listen g) (gw_routes g)
      (f_backendTimeout demo_options) (demo_world h) = (Returned, w2)"
    unfolding bootBoot_def g(2) by (simp add: routes_out_total time_Now_def)
  have otel: "f_otelEnabled demo_options" by (simp add: demo_options_def)
  obtain tr t where r: "run_of (started True w2) tr t" "lc_main t = Exited None"
    "lc_flush t = Some (Some ''context deadline exceeded'')"
    by (rule taken_port [of True w2]) auto
  have ret: "run_returns ?fmul demo_env demo_sdk demo_exporter plain_texts (print_args demo_options) quiet_world tr None"
    by (rule serves [OF args start boot]) (use r otel in simp_all)
  have "last tr = t" using run_of_last [OF r(1)] r(2) by (auto simp: started_def)
  moreover have "w_readyState quiet_world = 0" by code_simp
  ultimately show ?thesis using exit_codes [OF ret] start ret r(3) by auto
qed

end
