(* ===== verification/Spec2Isabelle.thy ===== *)
theory Spec2Isabelle
  imports Drain LogRoute LogSink Program
begin

text \<open>
  A verification library for the decision gateway (\<open>helmedeiros/decision-gateway\<close>), an HTTP reverse
  proxy that sends each request to the backend of the longest configured path prefix, with
  correlation IDs, an access log, optional metrics, tracing and a hot-replaceable route table.

  \<^bold>\<open>The program and its theories.\<close> A request meets the parts in this order.

  \<^item> \<open>Abstract\<close>: the gateway as its operator sees it, a machine whose state is a route table and
    that has one reaction to each request; the specification of the whole.
  \<^item> \<open>LogRoute\<close>: the way of the matched prefix from the proxy's stamp to the log line.
  \<^item> \<open>Chain\<close>, \<open>Running\<close>: what the composed handler guarantees, and the states a wired gateway can be
    in after any sequence of requests.
  \<^item> \<open>Server\<close>: \<open>cmd/decision-gateway/main.go\<close>: \<open>wire\<close> is lines 75 to 170 of \<open>run\<close> (flags to
    server), \<open>gateway_mux\<close> and \<open>compose\<close> its mux and middleware stack, \<open>bootBoot\<close> the boot line,
    \<open>isReady\<close>, \<open>markReady\<close>, \<open>markNotReady\<close> the flag.
  \<^item> \<open>Lifecycle\<close>: the rest of \<open>run\<close> and \<open>main\<close>: server goroutine, wait, \<open>select\<close>, shutdown, exit code.
  \<^item> \<open>Program\<close>: \<open>main.go\<close> from the command line to the exit code, over \<open>Flags\<close>, \<open>Server\<close> and \<open>Lifecycle\<close>.
  \<^item> \<open>Drain\<close>: the process, that is \<open>Lifecycle\<close> beside the connections the server has accepted and
    the requests of \<open>Overlap\<close> on them, with \<open>srv.Shutdown\<close> and its five seconds taken apart.
  \<^item> \<open>Flags\<close>: lines 59 to 73 of \<open>main.go\<close>, the flag set and \<open>fs.Parse\<close>; \<open>Strconv\<close>: how the \<open>flag\<close> package
    reads numbers, durations and switches; \<open>Durations\<close>: what a duration means, in unbounded numbers.
  \<^item> \<open>RouteFlags\<close>: \<open>cmd/decision-gateway/routes.go\<close>, the \<open>--route\<close> flag.
  \<^item> \<open>Correlation\<close>, \<open>AccessLog\<close>: \<open>internal/middleware\<close>; \<open>Metrics\<close> and \<open>Otel\<close>:
    \<open>internal/observability\<close>, with \<open>Bootstrap\<close> for its \<open>bootstrap.go\<close>; \<open>Writers\<close>: the response writers these three wrap around each other.
  \<^item> \<open>HttpApi\<close>: \<open>internal/httpapi\<close>, the probes and \<open>/admin/routes\<close>; \<open>Json\<close> and \<open>JsonDecode\<close> print and
    read the JSON they exchange.
  \<^item> \<open>Proxy\<close>, \<open>Transport\<close>: \<open>internal/proxy/proxy.go\<close>, serving and construction; \<open>Holder\<close>:
    \<open>internal/proxy/holder.go\<close> call by call; \<open>Swap\<close>: the same file statement by statement, with
    any number of goroutines; \<open>Overlap\<close>: proxied requests and the two methods of \<open>/admin/routes\<close>
    on top of it, so that requests overlap with replacements; \<open>LogSink\<close>: the mutex of
    \<open>internal/middleware/accesslog.go\<close> with requests that write their entries at the same time.
  \<^item> \<open>Router\<close>: \<open>internal/gateway/router.go\<close>, the route table.
  \<^item> \<open>Http\<close>, \<open>Url\<close>, \<open>Mux\<close>, \<open>CleanPath\<close>: what the code uses of Go's \<open>net/http\<close>, \<open>net/url\<close> and \<open>path\<close>;
    \<open>Prelude\<close>: shared lemmas on lists and strings.

  \<^bold>\<open>How the code is modelled.\<close> A handler is a function from a request, a response writer and the
  state to an outcome (\<open>Returned\<close>, or \<open>Panicked\<close> where Go would unwind), the writer and the
  state. The state (\<open>world\<close> in \<open>Http\<close>) holds what outlives a statement: the request's header map,
  the numbers of clock readings and random draws, requests sent, spans, samples and log lines
  written, the readiness flag, the holder's handler and the globals of OpenTelemetry. A writer is the connection under a stack
  of recorders (\<open>Writers\<close>), since the wrapping structs mutate their own fields and forward the
  rest. Errors are values of datatypes named after the function that returns them.

  \<^bold>\<open>What is a parameter.\<close> \<open>env\<close> in \<open>Http\<close> collects what is not under \<open>src/\<close>: the clock, the random
  source, the backends' answers, the propagator and span starter of OpenTelemetry, the text of
  times, durations and floats, Unicode's table of printable runes. The flag parser takes the
  \<open>float64\<close> product used for fractions of a duration, \<open>Bootstrap\<close> (and \<open>wire\<close>, which calls it) the
  SDK's constructors, \<open>wire\<close> also the Prometheus handler, \<open>Program\<close> the texts of the errors of \<open>flag\<close>
  and \<open>net/url\<close>; theorems that need something of them say it as a hypothesis (\<open>inner_handler\<close>: it only writes to its response writer and neither logs nor
  samples; \<open>keeps_good\<close>: it does not touch the holder; the propagator leaves \<open>X-Correlation-ID\<close>
  alone, which \<open>Bootstrap\<close> derives from the fields the SDK's propagators list).

  \<^bold>\<open>Interfaces.\<close> \<open>route_selector\<close> (\<open>Router\<close>) is what the proxy needs of a table, \<open>table_store\<close>
  (\<open>Holder\<close>) what the admin endpoint needs of a holder, \<open>http_handler\<close> and \<open>inner_handler\<close>
  (\<open>Writers\<close> and after) what a middleware needs of the handler it wraps and gives in return; each is
  interpreted on the program's own definitions, the last two on every handler and middleware.

  \<^bold>\<open>What is shown.\<close>
  \<^item> Whole gateway (this theory): it refines the machine of \<open>Abstract\<close>: after any history of
    requests the next answer shows the machine's reaction, and the table in force is the
    machine's. A request to a running gateway goes to the backend of the
    longest matching prefix of the table in force and to no other, with the correlation ID the
    client and the log get; a posted table takes over, a refused one changes nothing; the table
    is valid in every reachable state; the log names the prefix each request was served by; log,
    metrics and trace agree with each other and with the client.
  \<^item> \<open>Program\<close>: why a start fails and what it leaves behind; the exit code and what is printed with
    it, for every command line and every run that returns.
  \<^item> \<open>Lifecycle\<close>: when the flag is up, that a signal or a server error ends \<open>run\<close> in every
    interleaving; and two races of the start-up.
  \<^item> \<open>Drain\<close>: a shutdown that the deadline does not overtake closes every connection and answers
    every request before the exit; left alone it goes on, for a bounded number of steps, until the
    process exits or nothing is left to wait for but backends and clients that do not answer,
    and then it takes the deadline; from the call of \<open>Shutdown\<close> on nothing new is accepted; and two
    ways in which requests are cut off, one of them with exit code 0.
  \<^item> \<open>Swap\<close>: a request is served by a handler that was current while its call ran, stores are
    exclusive, no call blocks for ever. \<open>Overlap\<close>: a request that comes after a replacement has
    returned never meets an older table; a POST answers with a table in force since its own,
    which another POST may have put there; without new arrivals there are at most nine steps for
    each request, the holder never blocks one that is not waiting for its backend or client, and
    all are answered once these have answered.
  \<^item> \<open>LogSink\<close>: a reader of the log gets whole lines, one per logged request, in every interleaving.
  \<^item> \<open>Flags\<close>, \<open>Bootstrap\<close>: every setting can be given on the command line; a duration below \<open>2\<^sup>6\<^sup>4\<close>
    nanoseconds is set exactly or refused; what follows the first argument that is no flag is
    ignored; the bootstrap installs its globals or leaves them.
  \<^item> The parts: the match is the longest prefix and does not depend on the order of the table;
    the error of a table or a flag list is the first one; flags and tables survive printing and
    reading back; IDs are UUIDs of version 4 or the sentinel; a log line is one line whatever
    the request holds; spans are closed once; recorders know the client's status.

  \<^bold>\<open>Bounds.\<close> No fuel is used: every recursion is structural or has a measure. The runs of
  \<open>Lifecycle\<close> are finite by the measure \<open>run_left\<close>, the calls of \<open>Swap\<close> by \<open>steps_left\<close>, the requests
  of \<open>Overlap\<close> by \<open>steps_to_go\<close>, a shutdown in \<open>Drain\<close> by \<open>shutdown_left\<close>, which adds the two over the
  connections. Bytes are \<open>8 word\<close> where bits matter (\<open>newUUID\<close>). The sums of \<open>ParseDuration\<close> wrap at 64
  bits as Go's do: \<open>duration_flags_exact\<close> shows that nothing wraps below \<open>2\<^sup>6\<^sup>4\<close> nanoseconds and that a
  sum of exactly \<open>2\<^sup>6\<^sup>4\<close> is accepted as zero. Elapsed times and status codes are unbounded, they are
  only compared, subtracted and printed.

  \<^bold>\<open>Not modelled.\<close> The bytes of HTTP itself: chunking, trailers, flushing and WebSocket tunnels
  (a 101 from a backend becomes 502, as behind the gateway's wrappers, which do not implement
  \<open>Hijacker\<close>). The body of a request is a string that is read as a whole. Requests of \<open>Running\<close>
  follow one another: what can come between the statements of overlapping requests is modelled
  where they share state that is read back, the holder (\<open>Overlap\<close>), the log (\<open>LogSink\<close>), the
  readiness flag (\<open>Lifecycle\<close>) and the server (\<open>Drain\<close>). \<open>Drain\<close> takes the requests that use the
  holder, as with \<open>--routes-admin\<close>; all others are one step, \<open>own_answer\<close>. How long a
  backend takes to answer and a client to read is not modelled: the end of a call of the reverse
  proxy is a step of theirs, which may never come, and no property counts on it. A read lock waits
  for a writer that waits, as in \<open>sync.RWMutex\<close>. A status code that \<open>net/http\<close> refuses makes the proxy
  panic (\<open>Proxy\<close>); no other handler of the program sets one, and the writers of \<open>Writers\<close> take any.
  Time is otherwise visible in the order of events alone. The counters of Prometheus and the SDK of OpenTelemetry are third-party code. Build
  files, container images, scripts and documents have no logic. Every function of the
  implementation has its definition; what the development leaves out lies in these libraries.
\<close>

section \<open>Start-up\<close>

lemma boot_keys:
  "valid_utf8 ''time''" "valid_utf8 ''level''" "valid_utf8 ''info''" "valid_utf8 ''msg''"
  "valid_utf8 ''gateway.boot''" "valid_utf8 ''attrs''" "valid_utf8 ''backend_timeout''"
  "valid_utf8 ''listen''" "valid_utf8 ''routes''" "valid_utf8 ''backend''" "valid_utf8 ''prefix''"
  by code_simp+

lemma boot_json_readable:
  assumes "valid_utf8 (e_rfc3339 e now)" and "valid_utf8 (e_duration e timeout)"
    and "valid_utf8 listen"
    and "list_all (\<lambda>d. valid_utf8 (sp_Prefix d) \<and> valid_utf8 (sp_Backend d)) ds"
  shows "readable (boot_json e now listen ds timeout)"
    and "depth (boot_json e now listen ds timeout) \<le> maxNestingDepth"
proof -
  let ?f = "\<lambda>d. JObj [(''backend'', JStr (sp_Backend d)), (''prefix'', JStr (sp_Prefix d))]"
  have "readable_items (map ?f ds)" using assms(4) by (induction ds) (simp_all add: boot_keys)
  with assms show "readable (boot_json e now listen ds timeout)"
    by (simp add: boot_json_def boot_keys)
  have "depth_items (map ?f ds) \<le> 1" by (induction ds) simp_all
  then show "depth (boot_json e now listen ds timeout) \<le> maxNestingDepth"
    by (simp add: boot_json_def maxNestingDepth_def)
qed

text \<open>C35: the boot line: a gateway that was wired prints exactly one line at start (it never
  panics on a missing backend), and that line, read as JSON, lists the routes of the flags in
  their order with their backends, the listen address and the backend timeout. (For texts in
  UTF-8; JSON replaces other bytes.)\<close>

theorem boot_line:
  assumes "wire e sdk promhttp opts s0 = (Inr g, s1)"
    and "\<And>t. valid_utf8 (e_rfc3339 e t)" and "valid_utf8 (e_duration e timeout)"
    and "valid_utf8 (gw_listen g)"
    and "list_all (\<lambda>x. valid_utf8 (Prefix x) \<and> valid_utf8 (url_String (the (Backend x)))) (gw_routes g)"
  shows "\<exists>now line. bootBoot e (gw_listen g) (gw_routes g) timeout s =
      (Returned, s\<lparr>w_ticks := Suc (w_ticks s), w_stdout := w_stdout s @ [line]\<rparr>) \<and>
    parse_json line = Some (VObj
      [(''time'', VStr (e_rfc3339 e now)), (''level'', VStr ''info''), (''msg'', VStr ''gateway.boot''),
       (''attrs'', VObj
         [(''backend_timeout'', VStr (e_duration e timeout)), (''listen'', VStr (gw_listen g)),
          (''routes'', VArr (map (\<lambda>x. VObj [(''backend'', VStr (url_String (the (Backend x)))),
             (''prefix'', VStr (Prefix x))]) (gw_routes g)))])])"
proof -
  obtain table r where "NewRouter table = Inr r" "gw_routes g = table"
    by (rule wire_Inr [OF assms(1)])
  then have backends: "list_all (\<lambda>r. Backend r \<noteq> None) (gw_routes g)"
    by (auto simp: NewRouter_Inr_iff valid_table_def list_all_iff)
  let ?d = "map (\<lambda>r. \<lparr>sp_Prefix = Prefix r, sp_Backend = url_String (the (Backend r))\<rparr>) (gw_routes g)"
  let ?j = "boot_json e (e_now e (w_ticks s)) (gw_listen g) ?d timeout"
  have "readable ?j" "depth ?j \<le> maxNestingDepth"
    using assms(2-5) by (simp_all add: boot_json_readable list_all_iff)
  from json_read_back [OF this] show ?thesis
    by (intro exI [of _ "e_now e (w_ticks s)"] exI [of _ "Encode ?j"])
      (simp add: bootBoot_def routes_out_total [OF backends] time_Now_def boot_json_def jv_items_map
        comp_def)
qed

lemma demo_texts: "valid_utf8 ''1970-01-01T00:00:00Z''" "valid_utf8 ''5s''"
  by code_simp+

theorem boot_line_witness:
  "\<exists>g h. wire demo_env demo_sdk demo_exporter demo_options quiet_world
       = (Inr g, demo_world h) \<and>
     length (w_stdout (snd (bootBoot demo_env (gw_listen g) (gw_routes g) (5 * Second) quiet_world))) = 1"
proof -
  obtain g h where g: "wire demo_env demo_sdk demo_exporter demo_options quiet_world
      = (Inr g, demo_world h)"
    and table: "gw_routes g = demo_table" and listen: "gw_listen g = '':8090''"
    by (rule demo_wires)
  have times: "valid_utf8 (e_rfc3339 demo_env t)" "valid_utf8 (e_duration demo_env t)" for t
    by (simp_all add: demo_env_def demo_texts)
  have "list_all (\<lambda>x. valid_utf8 (Prefix x) \<and> valid_utf8 (url_String (the (Backend x)))) demo_table"
    "valid_utf8 '':8090''" "w_stdout quiet_world = []"
    by code_simp+
  then have "\<exists>now line. bootBoot demo_env (gw_listen g) (gw_routes g) (5 * Second) quiet_world =
      (Returned, quiet_world\<lparr>w_ticks := Suc (w_ticks quiet_world), w_stdout := [line]\<rparr>)"
    using boot_line [OF g times, of "5 * Second" quiet_world] table listen by auto
  with g show ?thesis by auto
qed

section \<open>A request through the whole gateway\<close>

text \<open>C4: whatever flags a gateway was wired with, a request it answers leaves exactly one access
  log line, with the status the client got and the request's method, URL and correlation ID,
  and an aborted request leaves none. The ID is never empty, and it is the client's own when
  the client sent one.\<close>

theorem gateway_logs_every_answer:
  assumes "wire e sdk promhttp opts s0 = (Inr g, s1)" and "inner_handler promhttp"
    and "gw_handler g r (Conn new_conn) s = (out, w', s')"
  shows "\<exists>cid r' sr t0 t1. w_stdout s' = w_stdout s @
      (case out of Returned \<Rightarrow> [access_line e r' sr t0 t1] | Panicked \<Rightarrow> []) \<and>
    sr_status sr = (if cn_wrote (conn_of w') then cn_status (conn_of w') else 200) \<and>
    r_Method r' = r_Method r \<and> r_URL r' = r_URL r \<and> cx_correlation (r_ctx r') = Some cid \<and>
    cid \<noteq> '''' \<and>
    (hdr_Get (w_reqhdr s) CorrelationIDHeader \<noteq> '''' \<longrightarrow>
       cid = hdr_Get (w_reqhdr s) CorrelationIDHeader)"
proof -
  obtain table rt tr h cid s2 where
    "observed e tr (f_metricsEnabled opts)
        (ServeMux_ServeHTTP (served_mux e promhttp opts (build_cfg opts tr) h))
        (r\<lparr>r_ctx := (r_ctx r)\<lparr>cx_correlation := Some cid\<rparr>\<rparr>)
        (on_header (hdr_Set CorrelationIDHeader cid) (Conn new_conn)) s2 = (out, w', s')"
    and cid: "cid \<noteq> ''''" "\<exists>n. s2 = s\<lparr>w_draws := n\<rparr>"
      "hdr_Get (w_reqhdr s) CorrelationIDHeader \<noteq> '''' \<longrightarrow>
         cid = hdr_Get (w_reqhdr s) CorrelationIDHeader"
    by (rule wired_run [OF assms])
  then have "logged e (r\<lparr>r_ctx := (r_ctx r)\<lparr>cx_correlation := Some cid\<rparr>\<rparr>) out w' s2 s'"
    using observed_logs(1) [OF served_mux_inner [OF assms(2)]] unfolding logs_def
    by (metis new_conn_ready on_header_views(2,3))
  then obtain r' sr t0 t1 where "w_stdout s' = w_stdout s @
      (case out of Returned \<Rightarrow> [access_line e r' sr t0 t1] | Panicked \<Rightarrow> [])"
    and "sr_status sr = (if cn_wrote (conn_of w') then cn_status (conn_of w') else 200)"
    and "r_Method r' = r_Method r" "r_URL r' = r_URL r" "cx_correlation (r_ctx r') = Some cid"
    using cid(2) unfolding logged_def client_status by auto
  with cid(1,3) show ?thesis by blast
qed

theorem gateway_logs_every_answer_witness:
  "\<exists>g h out w' s'. wire demo_env demo_sdk demo_exporter demo_options quiet_world
       = (Inr g, demo_world h) \<and>
     gw_handler g (demo_request ''GET'' ''/healthz'') (Conn new_conn) quiet_world = (out, w', s') \<and>
     length (w_stdout s') = (case out of Returned \<Rightarrow> 1 | Panicked \<Rightarrow> 0)"
proof -
  obtain g h where g: "wire demo_env demo_sdk demo_exporter demo_options quiet_world
      = (Inr g, demo_world h)"
    by (rule demo_wires)
  obtain out w' s' where run: "gw_handler g (demo_request ''GET'' ''/healthz'') (Conn new_conn)
      quiet_world = (out, w', s')"
    by (metis prod_cases3)
  have "w_stdout quiet_world = []" by code_simp
  then have "length (w_stdout s') = (case out of Returned \<Rightarrow> 1 | Panicked \<Rightarrow> 0)"
    using gateway_logs_every_answer [OF g demo_exporter_inner run] by (cases out) auto
  with g run show ?thesis by blast
qed

text \<open>The probes of a running gateway: whatever its flags and routes, GET on \<open>/healthz\<close> gets
  200 and GET on \<open>/readyz\<close> gets 200 exactly while the readiness flag is 1 and 503 otherwise;
  any other method gets 405. A probe never reaches a backend and never changes the table.\<close>

theorem gateway_probes:
  assumes "wire e sdk promhttp opts s0 = (Inr g, s1)" and "inner_handler promhttp"
    and "gw_handler g r (Conn new_conn) s = (out, w', s')"
    and "u_path (r_URL r) = ''/healthz'' \<or> u_path (r_URL r) = ''/readyz''"
    and "r_RequestURI r \<noteq> ''*''" and "r_Method r \<noteq> ''CONNECT''"
  shows "out = Returned \<and> w_sent s' = w_sent s \<and> w_current s' = w_current s \<and>
    cn_status (conn_of w') =
      (if r_Method r = ''GET''
       then (if u_path (r_URL r) = ''/healthz'' \<or> w_readyState s = 1 then 200 else 503)
       else 405)"
  using assms by (rule probe_run)

lemma demo_probe:
  obtains g h w' s' where "wire demo_env demo_sdk demo_exporter demo_options quiet_world
       = (Inr g, demo_world h)"
    and "gw_handler g (demo_request ''GET'' ''/readyz'') (Conn new_conn) quiet_world
       = (Returned, w', s')"
proof -
  obtain g h where g: "wire demo_env demo_sdk demo_exporter demo_options quiet_world
      = (Inr g, demo_world h)"
    by (rule demo_wires)
  obtain out w' s' where run: "gw_handler g (demo_request ''GET'' ''/readyz'') (Conn new_conn)
      quiet_world = (out, w', s')"
    by (metis prod_cases3)
  have "out = Returned"
    using probe_run [OF g demo_exporter_inner run] by (simp add: demo_request_def empty_url_def)
  with that g run show thesis by blast
qed

theorem gateway_probes_witness:
  "\<exists>g h w' s'. wire demo_env demo_sdk demo_exporter demo_options quiet_world
       = (Inr g, demo_world h) \<and>
     gw_handler g (demo_request ''GET'' ''/readyz'') (Conn new_conn) quiet_world
       = (Returned, w', s') \<and> cn_status (conn_of w') = 503"
proof -
  obtain g h w' s' where g: "wire demo_env demo_sdk demo_exporter demo_options quiet_world
       = (Inr g, demo_world h)"
    and run: "gw_handler g (demo_request ''GET'' ''/readyz'') (Conn new_conn) quiet_world
       = (Returned, w', s')"
    by (rule demo_probe)
  have "w_readyState quiet_world \<noteq> 1" by code_simp
  then have "cn_status (conn_of w') = 503"
    using gateway_probes [OF g demo_exporter_inner run] by (simp add: demo_request_def empty_url_def)
  with g run show ?thesis by blast
qed

text \<open>What the three middlewares record of an answered request, in terms of the three recorders.\<close>

lemma recorded_run:
  assumes "wire e sdk promhttp opts s0 = (Inr g, s1)" and "inner_handler promhttp"
    and "f_metricsEnabled opts" and "f_otelEnabled opts"
    and "gw_handler g r (Conn new_conn) s = (Returned, w', s')"
  obtains r1 sr mw ow t0 t1 dur d sc evs where "r_Method r1 = r_Method r"
    and "w_stdout s' = w_stdout s @ [access_line e r1 sr t0 t1]"
    and "w_metrics s' = w_metrics s @
      [CounterInc (request_labels r1 mw), HistogramObserve (request_labels r1 mw) dur]"
    and "w_otel s' = w_otel (finish_span (w_spans s) ow d sc)" and "w_otel sc = w_otel s @ evs"
    and "sr_status sr = status_view (Conn (conn_of w'))" and "mw_status mw = sr_status sr"
    and "ow_status ow = sr_status sr" and "mw_route mw = sr_route sr"
    and "ow_matchedRoute ow = sr_route sr"
proof -
  obtain table rt tr h cid s2 where tr: "wired_tracer sdk opts = Inr tr"
    and o: "observed e tr (f_metricsEnabled opts)
        (ServeMux_ServeHTTP (served_mux e promhttp opts (build_cfg opts tr) h))
        (r\<lparr>r_ctx := (r_ctx r)\<lparr>cx_correlation := Some cid\<rparr>\<rparr>)
        (on_header (hdr_Set CorrelationIDHeader cid) (Conn new_conn)) s2 = (Returned, w', s')"
    and s2: "\<exists>n. s2 = s\<lparr>w_draws := n\<rparr>"
    by (rule wired_run [OF assms(1,2,5)])
  obtain t where t: "tr = Some t"
    using tr assms(4) by (auto simp: wired_tracer_cases split: sum.splits)
  let ?m = "ServeMux_ServeHTTP (served_mux e promhttp opts (build_cfg opts tr) h)"
  let ?c = "new_conn\<lparr>cn_header := hdr_Set CorrelationIDHeader cid (cn_header new_conn)\<rparr>"
  note inner = served_mux_inner [OF assms(2), of e opts "build_cfg opts tr" h]
  then have m: "http_handler ?m" by (simp add: inner_handler_def)
  have "otel_Middleware e (Some t) (metrics_Middleware e (AccessLog e ?m))
      (r\<lparr>r_ctx := (r_ctx r)\<lparr>cx_correlation := Some cid\<rparr>\<rparr>) (Conn ?c) s2 = (Returned, w', s')"
    using o assms(3) by (simp add: observed_def t)
  then obtain ow mw sr r1 sa sb sc where
    mux: "?m r1 (AccessRec fresh_recorder (MetricsRec fresh_metrics (OtelRec fresh_otel (Conn ?c)))) sa
       = (Returned, AccessRec sr (MetricsRec mw (OtelRec ow w')), sb)"
    and r1: "r1 = traced_request e (r\<lparr>r_ctx := (r_ctx r)\<lparr>cx_correlation := Some cid\<rparr>\<rparr>) s2"
    and sa: "w_stdout sa = w_stdout s2" "w_metrics sa = w_metrics s2" "\<exists>evs. w_otel sa = w_otel s2 @ evs"
    and log: "\<exists>t0 t1. w_stdout s' = w_stdout sb @ [access_line e r1 sr t0 t1]"
    and sample: "\<exists>d. w_metrics s' = w_metrics sb @
      [CounterInc (request_labels r1 mw), HistogramObserve (request_labels r1 mw) d]"
    and span: "\<exists>d. w_otel s' = w_otel (finish_span (w_spans s2) ow d sc)" "w_otel sc = w_otel sb"
    by (rule full_run [OF inner])
  have "\<not> cn_wrote ?c" by (simp add: new_conn_def)
  note agree = stack_agrees [OF m this mux]
  obtain evs where evs: "w_otel sc = w_otel s @ evs"
    using sa(3) span(2) s2 inner_handler.brackets [OF inner mux] by auto
  moreover obtain t0 t1 where "w_stdout s' = w_stdout s @ [access_line e r1 sr t0 t1]"
    using log sa(1) s2 inner_handler.keeps_stdout [OF inner mux] by auto
  moreover obtain dur where "w_metrics s' = w_metrics s @
      [CounterInc (request_labels r1 mw), HistogramObserve (request_labels r1 mw) dur]"
    using sample sa(2) s2 inner_handler.keeps_metrics [OF inner mux] by auto
  moreover obtain d where "w_otel s' = w_otel (finish_span (w_spans s) ow d sc)"
    using span(1) s2 by auto
  moreover have "r_Method r1 = r_Method r" using r1 by (simp add: traced_request_def)
  ultimately show thesis using that agree by blast
qed

text \<open>C6: with metrics and tracing on, the three records of an answered request agree: the log
  line, the counter and histogram sample and the attributes of the server span carry the
  same status, which is the client's, and the same matched route.\<close>

theorem log_metrics_trace_agree:
  assumes "wire e sdk promhttp opts s0 = (Inr g, s1)" and "inner_handler promhttp"
    and "f_metricsEnabled opts" and "f_otelEnabled opts"
    and "gw_handler g r (Conn new_conn) s = (Returned, w', s')"
  shows "\<exists>r' sr t0 t1 dur evs.
    w_stdout s' = w_stdout s @ [access_line e r' sr t0 t1] \<and>
    sr_status sr = (if cn_wrote (conn_of w') then cn_status (conn_of w') else 200) \<and>
    (let l = \<lparr>l_method = r_Method r, l_route = sr_route sr, l_status = Itoa (sr_status sr)\<rparr> in
     w_metrics s' = w_metrics s @ [CounterInc l, HistogramObserve l dur]) \<and>
    w_otel s' = w_otel s @ evs \<and>
    (\<exists>d. SetAttributes (w_spans s) [(''http.status_code'', AInt (sr_status sr)),
        (''gateway.duration_ms'', AFloat d)] \<in> set evs) \<and>
    (sr_route sr \<noteq> '''' \<longrightarrow>
       SetAttributes (w_spans s) [(''http.route'', AString (sr_route sr))] \<in> set evs)"
proof -
  obtain r1 sr mw ow t0 t1 dur d sc evs where "r_Method r1 = r_Method r"
    and log: "w_stdout s' = w_stdout s @ [access_line e r1 sr t0 t1]"
    and sample: "w_metrics s' = w_metrics s @
      [CounterInc (request_labels r1 mw), HistogramObserve (request_labels r1 mw) dur]"
    and span: "w_otel s' = w_otel (finish_span (w_spans s) ow d sc)" "w_otel sc = w_otel s @ evs"
    and agree: "sr_status sr = status_view (Conn (conn_of w'))" "mw_status mw = sr_status sr"
      "ow_status ow = sr_status sr" "mw_route mw = sr_route sr" "ow_matchedRoute ow = sr_route sr"
    by (rule recorded_run [OF assms])
  then have "request_labels r1 mw =
      \<lparr>l_method = r_Method r, l_route = sr_route sr, l_status = Itoa (sr_status sr)\<rparr>"
    by (simp add: request_labels_def)
  moreover obtain own where "w_otel (finish_span (w_spans s) ow d sc) = w_otel sc @ own"
    and "SetAttributes (w_spans s) [(''http.status_code'', AInt (ow_status ow)),
        (''gateway.duration_ms'', AFloat (of_int (Microseconds d) / 1000))] \<in> set own"
    and "ow_matchedRoute ow \<noteq> '''' \<longrightarrow>
       SetAttributes (w_spans s) [(''http.route'', AString (ow_matchedRoute ow))] \<in> set own"
    by (rule finish_span_reports)
  ultimately show ?thesis
    using log sample span agree client_status [of "conn_of w'"]
    by (intro exI [of _ r1] exI [of _ sr] exI [of _ t0] exI [of _ t1] exI [of _ dur]
        exI [of _ "evs @ own"]) (auto simp: Let_def)
qed

theorem log_metrics_trace_agree_witness:
  "\<exists>g h w' s'. wire demo_env demo_sdk demo_exporter demo_options quiet_world
       = (Inr g, demo_world h) \<and>
     gw_handler g (demo_request ''GET'' ''/readyz'') (Conn new_conn) quiet_world
       = (Returned, w', s') \<and> length (w_stdout s') = 1 \<and> length (w_metrics s') = 2"
proof -
  obtain g h w' s' where g: "wire demo_env demo_sdk demo_exporter demo_options quiet_world
       = (Inr g, demo_world h)"
    and run: "gw_handler g (demo_request ''GET'' ''/readyz'') (Conn new_conn) quiet_world
       = (Returned, w', s')"
    by (rule demo_probe)
  have on: "f_metricsEnabled demo_options" "f_otelEnabled demo_options"
    by (simp_all add: demo_options_def)
  have "w_stdout quiet_world = []" "w_metrics quiet_world = []" by code_simp+
  then have "length (w_stdout s') = 1 \<and> length (w_metrics s') = 2"
    using log_metrics_trace_agree [OF g demo_exporter_inner on run] by (auto simp: Let_def)
  with g run show ?thesis by blast
qed

text \<open>A request the proxy has matched, seen from both ends of the connection.\<close>

lemma matched_end_to_end:
  assumes h: "good_handler cfg h" and m: "Match (hd_router h) (u_path (r_URL r1)) = Some x"
    and run: "Handler_ServeHTTP e h r1 w1 s2 = (out, w2, s3)"
    and req: "same_request r1 (r\<lparr>r_ctx := (r_ctx r)\<lparr>cx_correlation := Some cid\<rparr>\<rparr>)"
    and start: "same_start w1 s2 (on_header (hdr_Set CorrelationIDHeader cid) (Conn new_conn))
      (s\<lparr>w_reqhdr := rh\<rparr>)"
    and stop: "same_end w2 s3 w' s'" and "cid \<noteq> ''''" and "sane_upgrade rh"
    and inject: "\<And>sc hd. e_inject e sc hd ''X-Correlation-Id'' = hd ''X-Correlation-Id''"
  shows "\<exists>b t q. Backend x = Some b \<and> w_sent s' = w_sent s @ [(t, q)] \<and>
    u_scheme (o_URL q) = u_scheme b \<and> u_host (o_URL q) = u_host b \<and>
    o_Method q = r_Method r \<and> o_Body q = r_Body r \<and> o_Host q = r_Host r \<and>
    hdr_values (o_Header q) CorrelationIDHeader =
      (if ''X-Correlation-Id'' \<in> CanonicalHeaderKey ` set (connection_names rh)
       then [] else [cid]) \<and>
    (out = Returned \<longrightarrow>
       (\<exists>vs. hdr_values (cn_sent (conn_of w')) CorrelationIDHeader = cid # vs)) \<and>
    (case e_backend e (length (w_sent s)) t q of
       Inl err \<Rightarrow> out = Returned \<and> cn_status (conn_of w') = 502 \<and> cn_body (conn_of w') = ''''
     | Inr resp \<Rightarrow>
         if rs_StatusCode resp = 101
         then out = Returned \<and> cn_status (conn_of w') = 502 \<and> cn_body (conn_of w') = ''''
         else (out = Panicked \<longleftrightarrow> rs_copy_fails resp \<or> \<not> valid_code (rs_StatusCode resp)) \<and>
           (valid_code (rs_StatusCode resp) \<longrightarrow>
              cn_status (conn_of w') = rs_StatusCode resp \<and> cn_body (conn_of w') = rs_Body resp))"
proof -
  have w: "in_step w1" "\<not> header_sent w1" and hdr: "w_reqhdr s2 = rh"
    and sent: "w_sent s2 = w_sent s"
    and conn: "conn_of w1 = conn_of (on_header (hdr_Set CorrelationIDHeader cid) (Conn new_conn))"
    using start by (simp_all add: same_start_def)
  have sane: "sane_upgrade (w_reqhdr s2)" using assms(8) hdr by simp
  have ctx: "CorrelationIDFromContext (r_ctx r1) = cid"
    using req by (simp add: same_request_def CorrelationIDFromContext_def)
  note backend = matched_effect [OF h m run]
    and id = forwarded_id [OF h m sane ctx assms(7) inject, of w1]
    and answer = client_answer [OF h m sane w run]
  have echo: "\<exists>vs. hdr_values (cn_sent (conn_of w')) CorrelationIDHeader = cid # vs" if "out = Returned"
    using client_keeps_header [OF h m sane w run [unfolded that], of CorrelationIDHeader]
      conn stop by (auto simp: same_end_def)
  have start_body: "cn_body (conn_of w1) = ''''" using conn by (simp add: new_conn_def)
  obtain b t q where "Backend x = Some b" and q: "w_sent s' = w_sent s @ [(t, q)]"
    "u_scheme (o_URL q) = u_scheme b" "u_host (o_URL q) = u_host b"
    "o_Method q = r_Method r" "o_Body q = r_Body r" "o_Host q = r_Host r"
    using backend sane req stop sent by (auto simp: same_request_def same_end_def)
  moreover have "hdr_values (o_Header q) CorrelationIDHeader =
      (if ''X-Correlation-Id'' \<in> CanonicalHeaderKey ` set (connection_names rh)
       then [] else [cid])"
    using id run q(1) stop sent hdr by (auto simp: same_end_def)
  moreover note echo
  moreover have "case e_backend e (length (w_sent s)) t q of
       Inl err \<Rightarrow> out = Returned \<and> cn_status (conn_of w') = 502 \<and> cn_body (conn_of w') = ''''
     | Inr resp \<Rightarrow>
         if rs_StatusCode resp = 101
         then out = Returned \<and> cn_status (conn_of w') = 502 \<and> cn_body (conn_of w') = ''''
         else (out = Panicked \<longleftrightarrow> rs_copy_fails resp \<or> \<not> valid_code (rs_StatusCode resp)) \<and>
           (valid_code (rs_StatusCode resp) \<longrightarrow>
              cn_status (conn_of w') = rs_StatusCode resp \<and> cn_body (conn_of w') = rs_Body resp)"
    using answer q(1) stop sent start_body
    by (auto simp: same_end_def split: sum.splits)
  ultimately show ?thesis by blast
qed

text \<open>C2: the main line of the gateway, end to end. A request that is neither a \<open>CONNECT\<close> nor for \<open>*\<close>
  and whose path is clean and not an endpoint goes to the backend of the longest configured prefix
  of its path, exactly once and to no other backend, with the client's method, body and \<open>Host\<close>.
  The gateway settles on one non-empty correlation ID, the client's when it sent one. The
  backend gets it as the only \<open>X-Correlation-ID\<close>, unless the client names that header in
  \<open>Connection\<close>: then the backend gets none. The client gets an answer as follows. When the round
  trip fails, or the backend answers 101, it is an empty 502. Any other answer with a code \<open>net/http\<close>
  accepts is passed on, status and body; the handler aborts (panics) exactly when the
  backend's body breaks off, after passing on what came of it, or when the code is not one
  \<open>net/http\<close> accepts. Whenever the handler returns, the ID is the first value of the client's
  \<open>X-Correlation-ID\<close>. All this holds in every state a running gateway can be in, for the table in
  force there: the one of the flags, or the one last posted. (The value of an \<open>Upgrade\<close> header must
  be printable, and the propagator must leave the ID's header alone.)\<close>

theorem proxied_end_to_end:
  assumes "wire e sdk promhttp opts s0 = (Inr g, s1)" and "inner_handler promhttp"
    and "\<And>cfg. keeps_good cfg promhttp" and "serves g s1 s"
    and "gw_handler g r (Conn new_conn) (s\<lparr>w_reqhdr := rh\<rparr>) = (out, w', s')"
    and "for_proxy opts r" and "longest_match (active_table opts g s) (u_path (r_URL r)) x"
    and "sane_upgrade rh"
    and "\<And>sc hd. e_inject e sc hd ''X-Correlation-Id'' = hd ''X-Correlation-Id''"
  shows "\<exists>b t q cid. Backend x = Some b \<and> w_sent s' = w_sent s @ [(t, q)] \<and>
    u_scheme (o_URL q) = u_scheme b \<and> u_host (o_URL q) = u_host b \<and>
    o_Method q = r_Method r \<and> o_Body q = r_Body r \<and> o_Host q = r_Host r \<and>
    cid \<noteq> '''' \<and>
    (hdr_Get rh CorrelationIDHeader \<noteq> '''' \<longrightarrow>
       cid = hdr_Get rh CorrelationIDHeader) \<and>
    hdr_values (o_Header q) CorrelationIDHeader =
      (if ''X-Correlation-Id'' \<in> CanonicalHeaderKey ` set (connection_names rh)
       then [] else [cid]) \<and>
    (out = Returned \<longrightarrow>
       (\<exists>vs. hdr_values (cn_sent (conn_of w')) CorrelationIDHeader = cid # vs)) \<and>
    (case e_backend e (length (w_sent s)) t q of
       Inl err \<Rightarrow> out = Returned \<and> cn_status (conn_of w') = 502 \<and> cn_body (conn_of w') = ''''
     | Inr resp \<Rightarrow>
         if rs_StatusCode resp = 101
         then out = Returned \<and> cn_status (conn_of w') = 502 \<and> cn_body (conn_of w') = ''''
         else (out = Panicked \<longleftrightarrow> rs_copy_fails resp \<or> \<not> valid_code (rs_StatusCode resp)) \<and>
           (valid_code (rs_StatusCode resp) \<longrightarrow>
              cn_status (conn_of w') = rs_StatusCode resp \<and> cn_body (conn_of w') = rs_Body resp))"
proof -
  obtain cfg h cid r1 w1 s2 w2 s3 where h: "good_handler cfg h"
    and table: "\<forall>path x. Match (hd_router h) path = Some x \<longleftrightarrow> longest_match (active_table opts g s) path x"
    and run: "Handler_ServeHTTP e h r1 w1 s2 = (out, w2, s3)"
    and req: "same_request r1 (r\<lparr>r_ctx := (r_ctx r)\<lparr>cx_correlation := Some cid\<rparr>\<rparr>)"
    and start: "same_start w1 s2 (on_header (hdr_Set CorrelationIDHeader cid) (Conn new_conn))
      (s\<lparr>w_reqhdr := rh\<rparr>)"
    and stop: "same_end w2 s3 w' s'"
    and cid: "cid \<noteq> ''''" "hdr_Get rh CorrelationIDHeader \<noteq> '''' \<longrightarrow>
      cid = hdr_Get rh CorrelationIDHeader"
    by (rule proxied_run [OF assms(1-6)])
  have "Match (hd_router h) (u_path (r_URL r1)) = Some x"
    using table assms(7) req by (simp add: same_request_def)
  from matched_end_to_end [OF h this run req start stop cid(1) assms(8,9)] cid
  show ?thesis by blast
qed

lemma demo_exporter_keeps: "keeps_good cfg demo_exporter"
  by (rule keeps_goodI) (simp add: demo_exporter_def)

theorem proxied_end_to_end_witness:
  "\<exists>g h out w' s' t q. wire demo_env demo_sdk demo_exporter demo_options quiet_world
       = (Inr g, demo_world h) \<and>
     gw_handler g (demo_request ''POST'' ''/decide/x'') (Conn new_conn)
       ((demo_world h)\<lparr>w_reqhdr := Map.empty\<rparr>) = (out, w', s') \<and>
     w_sent s' = [(t, q)] \<and> u_host (o_URL q) = ''svc:8080'' \<and>
     cn_status (conn_of w') = 200 \<and> cn_body (conn_of w') = ''ok''"
proof -
  obtain g h where g: "wire demo_env demo_sdk demo_exporter demo_options quiet_world
      = (Inr g, demo_world h)"
    and table: "hd_router h = \<lparr>routes = rev demo_table\<rparr>"
    by (rule demo_wires)
  let ?s = "demo_world h" and ?r = "demo_request ''POST'' ''/decide/x''"
    and ?x = "\<lparr>Prefix = ''/decide'', Backend = Some (demo_url ''svc:8080'')\<rparr>"
  obtain out w' s' where run: "gw_handler g ?r (Conn new_conn) (?s\<lparr>w_reqhdr := Map.empty\<rparr>)
      = (out, w', s')"
    by (metis prod_cases3)
  have r: "for_proxy demo_options ?r" by code_simp
  have "active_table demo_options g ?s = rev demo_table"
    by (simp add: active_table_def table Routes_def demo_options_def)
  moreover have "longest_match (rev demo_table) ''/decide/x'' ?x" by code_simp
  ultimately have x: "longest_match (active_table demo_options g ?s) (u_path (r_URL ?r)) ?x"
    by (simp add: demo_request_def empty_url_def)
  have sane: "sane_upgrade Map.empty" by code_simp
  have inject: "e_inject demo_env sc hdr ''X-Correlation-Id'' = hdr ''X-Correlation-Id''" for sc hdr
    by (simp add: demo_env_def)
  have b: "u_host (demo_url ''svc:8080'') = ''svc:8080''" "w_sent ?s = []"
    by code_simp+
  have answer: "e_backend demo_env n t q = Inr \<lparr>rs_StatusCode = 200, rs_Status = ''200 OK'',
      rs_Header = Map.empty, rs_Body = ''ok'', rs_copy_fails = False\<rparr>" for n t q
    by (simp add: demo_env_def)
  have "\<exists>t q. w_sent s' = [(t, q)] \<and> u_host (o_URL q) = ''svc:8080'' \<and>
      cn_status (conn_of w') = 200 \<and> cn_body (conn_of w') = ''ok''"
    using proxied_end_to_end [OF g demo_exporter_inner demo_exporter_keeps serves_start run r x sane
        inject]
    by (auto simp: b answer valid_code_def)
  with g run show ?thesis by blast
qed

section \<open>The gateway refines its abstract machine\<close>

lemma active_table_ready: "active_table opts g (s\<lparr>w_readyState := b\<rparr>) = active_table opts g s"
  by (simp add: active_table_def)

text \<open>C1: the gateway as a whole refines a machine whose only state is a route table. After any
  history of requests the answer to the next one shows the machine's reaction in the table
  the history leads to: which requests are redirected, probed, listed, refused, installed,
  forwarded (to the longest match of that table, and nowhere else) or unrouted, with their
  status, body and traffic, and nothing else of the history matters. The first table holds
  the routes of the flags.\<close>

theorem gateway_refines_machine:
  assumes "wire e sdk promhttp opts s0 = (Inr g, s1)" and "inner_handler promhttp"
    and "leaves_table promhttp" and "s = (serve_all g history s1)\<lparr>w_readyState := b\<rparr>"
    and "gw_handler g r (Conn new_conn) (s\<lparr>w_reqhdr := rh\<rparr>) = (out, w', s')"
  shows "let T = spec_run opts history (active_table opts g s1);
      a = react opts (b = 1) T rh r in
    visible e T a r out (conn_of w') s s' \<and> active_table opts g s' = next_table a T \<and>
    mset (active_table opts g s1) = mset (gw_routes g)"
proof -
  note hist = serve_all_refines [OF assms(1-3) serves_start, of history]
  then have "serves g s1 s" using assms(4) serves_ready by blast
  moreover have "active_table opts g s = active_table opts g (serve_all g history s1)"
    using assms(4) by (simp add: active_table_def)
  then have "active_table opts g s = spec_run opts history (active_table opts g s1)"
    using hist by simp
  moreover have "w_readyState s = b" using assms(4) by simp
  ultimately show ?thesis
    using gateway_reacts [OF assms(1-3) _ assms(5)] first_table [OF assms(1)] by (simp add: Let_def)
qed

lemma demo_exporter_leaves: "leaves_table demo_exporter"
  by (simp add: leaves_table_def demo_exporter_def)

definition demo_post :: request where
  "demo_post = demo_request ''POST'' ''/admin/routes''\<lparr>r_Body := demo_body\<rparr>"

definition demo_late :: route where
  "demo_late = \<lparr>Prefix = ''/b'', Backend = Some (demo_url ''b:81'')\<rparr>"

definition demo_posted :: "route list" where
  "demo_posted = [demo_late, \<lparr>Prefix = ''/'', Backend = Some (demo_url ''a'')\<rparr>]"

lemma demo_history:
  "spec_run demo_options [(Map.empty, demo_post)] (rev demo_table) = demo_posted"
proof -
  have "sort_routes [\<lparr>Prefix = ''/'', Backend = Some (demo_url ''a'')\<rparr>,
      \<lparr>Prefix = ''/b'', Backend = Some (demo_url ''b:81'')\<rparr>] = demo_posted"
    by code_simp
  moreover have "cleanPath ''/admin/routes'' = ''/admin/routes''" "f_routesAdmin demo_options"
    by code_simp+
  ultimately show ?thesis
    by (simp add: react_def next_table_def demo_post_def demo_request_def empty_url_def
        demo_body_table)
qed

lemma demo_reaction:
  "react demo_options False demo_posted Map.empty (demo_request ''POST'' ''/b/x'')
     = Forwarded demo_late"
proof -
  have "spec_match demo_posted ''/b/x'' = Some demo_late" "sane_upgrade Map.empty"
    "cleanPath ''/b/x'' = ''/b/x''" "HasPrefix ''/b/x'' ''/''"
    by code_simp+
  then show ?thesis by (simp add: react_def demo_request_def empty_url_def)
qed

theorem gateway_refines_machine_witness:
  "\<exists>g h out w' s' t q. wire demo_env demo_sdk demo_exporter demo_options quiet_world
       = (Inr g, demo_world h) \<and>
     gw_handler g (demo_request ''POST'' ''/b/x'') (Conn new_conn)
       ((serve_all g [(Map.empty, demo_post)] (demo_world h))
          \<lparr>w_readyState := 0, w_reqhdr := Map.empty\<rparr>) = (out, w', s') \<and>
     last (w_sent s') = (t, q) \<and> u_host (o_URL q) = ''b:81'' \<and> cn_status (conn_of w') = 200"
proof -
  let ?r = "demo_request ''POST'' ''/b/x''" and ?history = "[(Map.empty, demo_post)]"
  obtain g h where g: "wire demo_env demo_sdk demo_exporter demo_options quiet_world
      = (Inr g, demo_world h)" and "hd_router h = \<lparr>routes = rev demo_table\<rparr>"
    by (rule demo_wires)
  then have "active_table demo_options g (demo_world h) = rev demo_table"
    by (simp add: active_table_def Routes_def demo_options_def)
  with demo_history have table: "spec_run demo_options ?history
      (active_table demo_options g (demo_world h)) = demo_posted"
    by (simp only:)
  have reaction: "react demo_options ((0::int) = 1) demo_posted Map.empty ?r = Forwarded demo_late"
    using demo_reaction by simp
  let ?s = "(serve_all g ?history (demo_world h))\<lparr>w_readyState := 0\<rparr>"
  obtain out w' s' where run:
      "gw_handler g ?r (Conn new_conn) (?s\<lparr>w_reqhdr := Map.empty\<rparr>) = (out, w', s')"
    by (metis prod_cases3)
  have answer: "e_backend demo_env n t q = Inr \<lparr>rs_StatusCode = 200, rs_Status = ''200 OK'',
      rs_Header = Map.empty, rs_Body = ''ok'', rs_copy_fails = False\<rparr>" for n t q
    by (simp add: demo_env_def)
  have "visible demo_env demo_posted (Forwarded demo_late) ?r out (conn_of w') ?s s'"
    using gateway_refines_machine [OF g demo_exporter_inner demo_exporter_leaves refl run]
    by (simp only: Let_def table reaction)
  then obtain t q where "last (w_sent s') = (t, q)" "u_host (o_URL q) = ''b:81''"
      "cn_status (conn_of w') = 200"
    by (auto simp: demo_late_def demo_url_def relayed_def answer valid_code_def)
  with g run show ?thesis by blast
qed

text \<open>C5: the route in the access log: after any history of requests, an answered request is logged
  with the prefix of the longest match of the table in force when it goes to the proxy, and
  with no route otherwise (the Prometheus handler apart); beside it the request's method and
  URL and the client's status. So the routes in the log are prefixes of the table.\<close>

theorem log_names_route:
  assumes "wire e sdk promhttp opts s0 = (Inr g, s1)" and "inner_handler promhttp"
    and "leaves_table promhttp" and "s = (serve_all g history s1)\<lparr>w_readyState := b\<rparr>"
    and "gw_handler g r (Conn new_conn) (s\<lparr>w_reqhdr := rh\<rparr>) = (Returned, w', s')"
    and "T = spec_run opts history (active_table opts g s1)"
    and "react opts (b = 1) T rh r \<noteq> Exporter"
  shows "\<exists>r' sr t0 t1. w_stdout s' = w_stdout s @ [access_line e r' sr t0 t1] \<and>
    r_Method r' = r_Method r \<and> r_URL r' = r_URL r \<and>
    sr_status sr = (if cn_wrote (conn_of w') then cn_status (conn_of w') else 200) \<and>
    sr_route sr = (case react opts (b = 1) T rh r of
        Forwarded x \<Rightarrow> Prefix x
      | BadUpgrade \<Rightarrow> Prefix (the (spec_match T (u_path (r_URL r))))
      | _ \<Rightarrow> '''') \<and>
    sr_route sr \<in> insert '''' (Prefix ` set T)"
proof -
  note hist = serve_all_refines [OF assms(1-3) serves_start, of history]
  have serving: "serves g s1 s" using hist assms(4) serves_ready by blast
  have T: "active_table opts g s = T" using hist by (simp only: assms(4,6) active_table_ready)
  have b: "w_readyState s = b" using assms(4) by simp
  from gateway_log_route [OF assms(1-3) serving assms(5)] assms(7)
  obtain r' sr t0 t1 where "w_stdout s' = w_stdout s @ [access_line e r' sr t0 t1]"
    "r_Method r' = r_Method r" "r_URL r' = r_URL r"
    "sr_status sr = (if cn_wrote (conn_of w') then cn_status (conn_of w') else 200)"
    and "sr_route sr = logged_route T (u_path (r_URL r)) (react opts (b = 1) T rh r)"
    unfolding T b by blast
  with logged_route_bounded [of T r opts "b = 1" rh] show ?thesis
    by (intro exI [of _ r'] exI [of _ sr] exI [of _ t0] exI [of _ t1]) (simp add: logged_route_def)
qed

text \<open>The gateway of the examples, after a POST that installs a new table.\<close>

lemma demo_late_run:
  obtains g h w' s' where "wire demo_env demo_sdk demo_exporter demo_options quiet_world
       = (Inr g, demo_world h)"
    and "spec_run demo_options [(Map.empty, demo_post)]
       (active_table demo_options g (demo_world h)) = demo_posted"
    and "gw_handler g (demo_request ''POST'' ''/b/x'') (Conn new_conn)
       ((serve_all g [(Map.empty, demo_post)] (demo_world h))
          \<lparr>w_readyState := 0, w_reqhdr := Map.empty\<rparr>) = (Returned, w', s')"
proof -
  let ?r = "demo_request ''POST'' ''/b/x''" and ?history = "[(Map.empty, demo_post)]"
  obtain g h where g: "wire demo_env demo_sdk demo_exporter demo_options quiet_world
      = (Inr g, demo_world h)" and "hd_router h = \<lparr>routes = rev demo_table\<rparr>"
    by (rule demo_wires)
  then have "active_table demo_options g (demo_world h) = rev demo_table"
    by (simp add: active_table_def Routes_def demo_options_def)
  with demo_history have table: "spec_run demo_options ?history
      (active_table demo_options g (demo_world h)) = demo_posted"
    by (simp only:)
  let ?s0 = "serve_all g ?history (demo_world h)"
  let ?s = "?s0\<lparr>w_readyState := 0\<rparr>"
  obtain out w' s' where run:
      "gw_handler g ?r (Conn new_conn) (?s\<lparr>w_reqhdr := Map.empty\<rparr>) = (out, w', s')"
    by (metis prod_cases3)
  note hist = serve_all_refines [OF g demo_exporter_inner demo_exporter_leaves serves_start, of ?history]
  have "serves g (demo_world h) ?s" using hist serves_ready by blast
  moreover have "active_table demo_options g ?s = demo_posted"
    using hist by (simp only: table active_table_ready)
  moreover have "react demo_options (w_readyState ?s = 1) demo_posted Map.empty ?r = Forwarded demo_late"
    using demo_reaction by simp
  ultimately have "visible demo_env demo_posted (Forwarded demo_late) ?r out (conn_of w') ?s s'"
    using gateway_reacts [OF g demo_exporter_inner demo_exporter_leaves _ run] by metis
  moreover have "e_backend demo_env n t q = Inr \<lparr>rs_StatusCode = 200, rs_Status = ''200 OK'',
      rs_Header = Map.empty, rs_Body = ''ok'', rs_copy_fails = False\<rparr>" for n t q
    by (simp add: demo_env_def)
  ultimately have "out \<noteq> Panicked" by (auto simp: relayed_def valid_code_def)
  then have "out = Returned" by (cases out) simp_all
  with g table run show thesis by (blast intro: that)
qed

theorem log_names_route_witness:
  "\<exists>g h w' s' r' sr t0 t1. wire demo_env demo_sdk demo_exporter demo_options quiet_world
       = (Inr g, demo_world h) \<and>
     gw_handler g (demo_request ''POST'' ''/b/x'') (Conn new_conn)
       ((serve_all g [(Map.empty, demo_post)] (demo_world h))
          \<lparr>w_readyState := 0, w_reqhdr := Map.empty\<rparr>) = (Returned, w', s') \<and>
     last (w_stdout s') = access_line demo_env r' sr t0 t1 \<and> sr_route sr = ''/b''"
proof -
  obtain g h w' s' where g: "wire demo_env demo_sdk demo_exporter demo_options quiet_world
       = (Inr g, demo_world h)"
    and table: "spec_run demo_options [(Map.empty, demo_post)]
       (active_table demo_options g (demo_world h)) = demo_posted"
    and run: "gw_handler g (demo_request ''POST'' ''/b/x'') (Conn new_conn)
       ((serve_all g [(Map.empty, demo_post)] (demo_world h))
          \<lparr>w_readyState := 0, w_reqhdr := Map.empty\<rparr>) = (Returned, w', s')"
    by (rule demo_late_run)
  have reaction: "react demo_options ((0::int) = 1) demo_posted Map.empty (demo_request ''POST'' ''/b/x'')
      = Forwarded demo_late"
    using demo_reaction by simp
  have "react demo_options ((0::int) = 1) demo_posted Map.empty (demo_request ''POST'' ''/b/x'') \<noteq> Exporter"
    unfolding reaction by simp
  from log_names_route [OF g demo_exporter_inner demo_exporter_leaves refl run table [symmetric] this]
  obtain r' sr t0 t1 where "w_stdout s' = w_stdout ((serve_all g [(Map.empty, demo_post)]
      (demo_world h))\<lparr>w_readyState := 0\<rparr>) @ [access_line demo_env r' sr t0 t1]"
    "sr_route sr = ''/b''"
    unfolding reaction by (auto simp: demo_late_def simp del: serve_all.simps)
  then have "\<exists>r' sr t0 t1. last (w_stdout s') = access_line demo_env r' sr t0 t1 \<and> sr_route sr = ''/b''"
    by (metis last_snoc)
  with g run show ?thesis by blast
qed

section \<open>The table of a running gateway\<close>

text \<open>C3: in every state a running gateway can be in, its table is one \<open>NewRouter\<close> accepts:
  not empty, no empty prefix, no missing backend, no prefix twice; and the holder's handler has
  a reverse proxy for exactly its prefixes. No request can leave it without routes or with a
  broken one.\<close>

theorem running_table_valid:
  assumes "wire e sdk promhttp opts s0 = (Inr g, s1)" and "inner_handler promhttp"
    and "\<And>cfg. keeps_good cfg promhttp" and "serves g s1 s"
  shows "valid_table (active_table opts g s) \<and>
    (f_routesAdmin opts \<longrightarrow> (\<exists>cur. w_current s = Some cur \<and>
       dom (hd_proxies cur) = Prefix ` set (active_table opts g s)))"
  using assms by (rule running_table)

theorem running_table_valid_witness:
  "\<exists>g h. wire demo_env demo_sdk demo_exporter demo_options quiet_world
       = (Inr g, demo_world h) \<and>
     valid_table (active_table demo_options g (demo_world h))"
proof -
  obtain g h where g: "wire demo_env demo_sdk demo_exporter demo_options quiet_world
      = (Inr g, demo_world h)"
    by (rule demo_wires)
  with running_table_valid [OF g demo_exporter_inner demo_exporter_keeps serves_start]
  show ?thesis by blast
qed

text \<open>Hot replacement through the whole gateway: a POST of an acceptable table to
  \<open>/admin/routes\<close> is answered 200 with that table's text and puts it in force, sorted, for
  every later request; a POST of anything else is answered 400 and leaves the table as it
  was. Neither reaches a backend.\<close>

theorem posted_table_takes_over:
  assumes "wire e sdk promhttp opts s0 = (Inr g, s1)" and "inner_handler promhttp"
    and "f_routesAdmin opts"
    and "gw_handler g r (Conn new_conn) (s\<lparr>w_reqhdr := rh\<rparr>) = (out, w', s')"
    and "r_Method r = ''POST''" and "u_path (r_URL r) = ''/admin/routes''"
    and "r_RequestURI r \<noteq> ''*''"
  shows "out = Returned \<and> w_sent s' = w_sent s \<and>
    (case posted_table (r_Body r) of
       None \<Rightarrow> active_table opts g s' = active_table opts g s \<and> cn_status (conn_of w') = 400
     | Some rs \<Rightarrow> active_table opts g s' = sort_routes rs \<and> cn_status (conn_of w') = 200 \<and>
         cn_body (conn_of w') = table_text (sort_routes rs))"
  using assms by (rule posted_run)

theorem posted_table_takes_over_witness:
  "\<exists>g h w' s'. wire demo_env demo_sdk demo_exporter demo_options quiet_world
       = (Inr g, demo_world h) \<and>
     gw_handler g (demo_request ''POST'' ''/admin/routes''\<lparr>r_Body := demo_body\<rparr>) (Conn new_conn)
       ((demo_world h)\<lparr>w_reqhdr := Map.empty\<rparr>) = (Returned, w', s') \<and>
     map Prefix (active_table demo_options g s') = [''/b'', ''/''] \<and> cn_status (conn_of w') = 200"
proof -
  obtain g h where g: "wire demo_env demo_sdk demo_exporter demo_options quiet_world
      = (Inr g, demo_world h)"
    by (rule demo_wires)
  let ?s = "demo_world h"
  let ?r = "demo_request ''POST'' ''/admin/routes''\<lparr>r_Body := demo_body\<rparr>"
  obtain out w' s' where run: "gw_handler g ?r (Conn new_conn) (?s\<lparr>w_reqhdr := Map.empty\<rparr>)
      = (out, w', s')"
    by (metis prod_cases3)
  have on: "f_routesAdmin demo_options" by (simp add: demo_options_def)
  have r: "r_Method ?r = ''POST''" "u_path (r_URL ?r) = ''/admin/routes''" "r_RequestURI ?r \<noteq> ''*''"
    by (simp_all add: demo_request_def empty_url_def)
  have sorted: "map Prefix (sort_routes [\<lparr>Prefix = ''/'', Backend = Some (demo_url ''a'')\<rparr>,
      \<lparr>Prefix = ''/b'', Backend = Some (demo_url ''b:81'')\<rparr>]) = [''/b'', ''/'']"
    by code_simp
  note post = posted_table_takes_over [OF g demo_exporter_inner on run r]
  then have "out = Returned" by (rule conjunct1)
  moreover have "map Prefix (active_table demo_options g s') = [''/b'', ''/'']"
    "cn_status (conn_of w') = 200"
    using post demo_body_table sorted by simp_all
  ultimately show ?thesis using g run by (intro exI conjI) simp_all
qed

end
